(* ===== verification/Muduo_Prelude.thy ===== *)
theory Muduo_Prelude
  imports Main "HOL-Library.Word" "HOL-Library.Product_Lexorder"
begin

text \<open>
  Shared vocabulary of the development: C++ failures as values, sequencing of fallible
  steps, loops over containers, invariants of state transformers, the fragment of the C++
  standard library the sources use (\<^verbatim>\<open>std::vector<char>\<close> blocks, \<^verbatim>\<open>std::copy\<close>,
  \<^verbatim>\<open>std::set\<close>, \<^verbatim>\<open>std::to_string\<close>), and the lemma collections the components extend.
\<close>

named_theorems res_simps
named_theorems res_splits
named_theorems keeps_intros

section \<open>Failures and fallible computations\<close>

text \<open>
  \<open>Abort\<close>: a \<^verbatim>\<open>LOG_FATAL\<close>, which logs its message and calls \<^verbatim>\<open>std::abort\<close>.
  \<open>AssertFailed\<close>: a false \<^verbatim>\<open>assert\<close>. \<open>LengthError\<close>: \<^verbatim>\<open>std::length_error\<close> thrown by
  \<^verbatim>\<open>std::vector\<close>. \<open>UndefinedBehaviour\<close>: an access the language leaves undefined
  (a dangling or null pointer, a range outside its array, signed overflow).
\<close>

datatype error = Abort string | AssertFailed string | LengthError | UndefinedBehaviour string

type_synonym 'a res = "error + 'a"
type_synonym ptr = nat
type_synonym size_t = "64 word"

definition rbind :: "'a res \<Rightarrow> ('a \<Rightarrow> 'b res) \<Rightarrow> 'b res" where
  "rbind m f = (case m of Inl e \<Rightarrow> Inl e | Inr a \<Rightarrow> f a)"

definition deref :: "string \<Rightarrow> 'a option \<Rightarrow> 'a res" where
  "deref what p = (case p of None \<Rightarrow> Inl (UndefinedBehaviour what) | Some a \<Rightarrow> Inr a)"

definition assert_that :: "string \<Rightarrow> bool \<Rightarrow> 's \<Rightarrow> 's res" where
  "assert_that what b s = (if b then Inr s else Inl (AssertFailed what))"

text \<open>A range-based \<^verbatim>\<open>for\<close> loop whose body may fail.\<close>

fun rfold :: "('a \<Rightarrow> 's \<Rightarrow> 's res) \<Rightarrow> 'a list \<Rightarrow> 's \<Rightarrow> 's res" where
  "rfold f [] s = Inr s"
| "rfold f (x # xs) s = rbind (f x s) (rfold f xs)"

text \<open>\<open>keeps I f\<close>: whenever \<open>f\<close> returns, it preserves \<open>I\<close>.\<close>

definition keeps :: "('s \<Rightarrow> bool) \<Rightarrow> ('s \<Rightarrow> 's res) \<Rightarrow> bool" where
  "keeps I f \<longleftrightarrow> (\<forall>s s'. I s \<longrightarrow> f s = Inr s' \<longrightarrow> I s')"

section \<open>Blocks of a char array\<close>

definition subarray :: "nat \<Rightarrow> nat \<Rightarrow> 'a list \<Rightarrow> 'a list" where
  "subarray off n xs = take n (drop off xs)"

definition overwrite :: "nat \<Rightarrow> 'a list \<Rightarrow> 'a list \<Rightarrow> 'a list" where
  "overwrite off ys xs = take off xs @ ys @ drop (off + length ys) xs"

text \<open>
  \<^verbatim>\<open>std::copy(first, last, d_first)\<close> inside one array: elements are copied one by one from
  the front, so an overlapping copy reads what earlier iterations wrote.
\<close>

fun copy_within :: "nat \<Rightarrow> nat \<Rightarrow> nat \<Rightarrow> 'a list \<Rightarrow> 'a list" where
  "copy_within 0 src dst xs = xs"
| "copy_within (Suc n) src dst xs = copy_within n (Suc src) (Suc dst) (xs[dst := xs ! src])"

text \<open>
  A copy whose source or target leaves the array, or whose target starts inside the source
  range, is undefined.
\<close>

definition std_copy :: "nat \<Rightarrow> nat \<Rightarrow> nat \<Rightarrow> 'a list \<Rightarrow> 'a list res" where
  "std_copy first lst d_first xs =
     (if first \<le> lst \<and> lst \<le> length xs \<and> d_first + (lst - first) \<le> length xs \<and>
         \<not> (first \<le> d_first \<and> d_first < lst)
      then Inr (copy_within (lst - first) first d_first xs)
      else Inl (UndefinedBehaviour ''std::copy''))"

text \<open>Checked accesses: a range that leaves the array is undefined behaviour.\<close>

definition read_block :: "nat \<Rightarrow> nat \<Rightarrow> 'a list \<Rightarrow> 'a list res" where
  "read_block off n xs =
     (if off + n \<le> length xs then Inr (subarray off n xs)
      else Inl (UndefinedBehaviour ''read outside the vector''))"

definition write_block :: "nat \<Rightarrow> 'a list \<Rightarrow> 'a list \<Rightarrow> 'a list res" where
  "write_block off ys xs =
     (if off + length ys \<le> length xs then Inr (overwrite off ys xs)
      else Inl (UndefinedBehaviour ''write outside the vector''))"

section \<open>\<^verbatim>\<open>std::set\<close> as a strictly sorted list\<close>

definition std_set_ok :: "'a::linorder list \<Rightarrow> bool" where
  "std_set_ok xs \<longleftrightarrow> sorted_wrt (<) xs"

fun std_set_insert :: "'a::linorder \<Rightarrow> 'a list \<Rightarrow> 'a list" where
  "std_set_insert x [] = [x]"
| "std_set_insert x (y # ys) =
     (if x < y then x # y # ys else if x = y then y # ys else y # std_set_insert x ys)"

definition std_set_erase :: "'a::linorder \<Rightarrow> 'a list \<Rightarrow> 'a list" where
  "std_set_erase x xs = filter (\<lambda>y. y \<noteq> x) xs"

text \<open>The range \<^verbatim>\<open>[begin(), lower_bound(b))\<close> and what an \<^verbatim>\<open>erase\<close> of it leaves.\<close>

definition std_set_below :: "'a::linorder \<Rightarrow> 'a list \<Rightarrow> 'a list" where
  "std_set_below b xs = takeWhile (\<lambda>y. y < b) xs"

definition std_set_from :: "'a::linorder \<Rightarrow> 'a list \<Rightarrow> 'a list" where
  "std_set_from b xs = dropWhile (\<lambda>y. y < b) xs"

section \<open>Decimal printing\<close>

definition digit_char :: "nat \<Rightarrow> char" where
  "digit_char d = char_of (48 + d)"

fun nat_to_string :: "nat \<Rightarrow> string" where
  "nat_to_string n =
     (if n < 10 then [digit_char n] else nat_to_string (n div 10) @ [digit_char (n mod 10)])"

declare nat_to_string.simps [simp del]

text \<open>\<^verbatim>\<open>std::to_string\<close> on a signed integer.\<close>

definition to_string :: "int \<Rightarrow> string" where
  "to_string i = (if i < 0 then CHR ''-'' # nat_to_string (nat (- i)) else nat_to_string (nat i))"

text \<open>Reading decimal digits back, to state round trips.\<close>

definition digits_value :: "string \<Rightarrow> nat" where
  "digits_value s = foldl (\<lambda>v c. 10 * v + (of_char c - 48)) 0 s"

section \<open>Lemmas: fallible computations\<close>

lemma rbind_Inl [simp, res_simps]: "rbind (Inl e) f = Inl e"
  by (simp add: rbind_def)

lemma rbind_Inr [simp, res_simps]: "rbind (Inr a) f = f a"
  by (simp add: rbind_def)

lemma rbind_eq_Inr: "rbind m f = Inr b \<longleftrightarrow> (\<exists>a. m = Inr a \<and> f a = Inr b)"
  by (cases m) simp_all

lemma rbind_eq_Inl: "rbind m f = Inl e \<longleftrightarrow> m = Inl e \<or> (\<exists>a. m = Inr a \<and> f a = Inl e)"
  by (cases m) auto

lemma rbind_InrE:
  assumes "rbind m f = Inr b"
  obtains a where "m = Inr a" and "f a = Inr b"
  using assms by (auto simp: rbind_eq_Inr)

lemma rbind_assoc: "rbind (rbind m f) g = rbind m (\<lambda>a. rbind (f a) g)"
  by (cases m) simp_all

lemma rbind_Inr_right [simp]: "rbind m Inr = m"
  by (cases m) simp_all

lemma deref_Some [simp, res_simps]: "deref s (Some a) = Inr a"
  by (simp add: deref_def)

lemma deref_None [simp, res_simps]: "deref s None = Inl (UndefinedBehaviour s)"
  by (simp add: deref_def)

lemma deref_eq_Inr [simp]: "deref s p = Inr a \<longleftrightarrow> p = Some a"
  by (cases p) simp_all

lemma assert_that_eq_Inr [simp]: "assert_that t b s = Inr s' \<longleftrightarrow> b \<and> s' = s"
  by (auto simp: assert_that_def)

lemma rfold_Nil_fun [simp]: "rfold f [] = Inr"
  by (rule ext) simp

lemma rfold_append: "rfold f (xs @ ys) s = rbind (rfold f xs s) (rfold f ys)"
proof (induction xs arbitrary: s)
  case (Cons x xs)
  then show ?case by (cases "f x s") simp_all
qed simp

lemma keepsI: "(\<And>s s'. I s \<Longrightarrow> f s = Inr s' \<Longrightarrow> I s') \<Longrightarrow> keeps I f"
  by (auto simp: keeps_def)

lemma keepsD: "keeps I f \<Longrightarrow> I s \<Longrightarrow> f s = Inr s' \<Longrightarrow> I s'"
  by (auto simp: keeps_def)

lemma keeps_Inr [keeps_intros]: "keeps I Inr"
  by (simp add: keeps_def)

lemma keeps_Inl [keeps_intros]: "keeps I (\<lambda>s. Inl (e s))"
  by (simp add: keeps_def)

lemma keeps_rbind [keeps_intros]:
  "keeps I f \<Longrightarrow> keeps I g \<Longrightarrow> keeps I (\<lambda>s. rbind (f s) g)"
  unfolding keeps_def by (metis rbind_InrE)

lemma keeps_if [keeps_intros]:
  "(b \<Longrightarrow> keeps I f) \<Longrightarrow> (\<not> b \<Longrightarrow> keeps I g) \<Longrightarrow> keeps I (\<lambda>s. if b then f s else g s)"
  by (simp add: keeps_def)

lemma keeps_rfold [keeps_intros]: "(\<And>x. x \<in> set xs \<Longrightarrow> keeps I (f x)) \<Longrightarrow> keeps I (rfold f xs)"
proof (induction xs)
  case Nil
  show ?case by (simp add: keeps_def)
next
  case (Cons x xs)
  have "keeps I (\<lambda>s. rbind (f x s) (rfold f xs))"
    by (rule keeps_rbind) (use Cons in auto)
  then show ?case by (simp add: keeps_def)
qed

section \<open>Lemmas: blocks\<close>

lemma length_subarray [simp]: "off + n \<le> length xs \<Longrightarrow> length (subarray off n xs) = n"
  by (simp add: subarray_def)

lemma length_overwrite [simp]:
  "off + length ys \<le> length xs \<Longrightarrow> length (overwrite off ys xs) = length xs"
  by (simp add: overwrite_def)

lemma subarray_0 [simp]: "subarray off 0 xs = []"
  by (simp add: subarray_def)

lemma subarray_append:
  "subarray off n xs @ subarray (off + n) m xs = subarray off (n + m) xs"
  by (simp add: subarray_def take_add add.commute [of off n])

lemma subarray_drop: "drop k (subarray off n xs) = subarray (off + k) (n - k) xs"
  by (simp add: subarray_def drop_take add.commute)

lemma subarray_take: "k \<le> n \<Longrightarrow> take k (subarray off n xs) = subarray off k xs"
  by (simp add: subarray_def min_def)

lemma subarray_overwrite_below:
  "off + n \<le> p \<Longrightarrow> p + length ys \<le> length xs \<Longrightarrow> subarray off n (overwrite p ys xs) = subarray off n xs"
  by (simp add: subarray_def overwrite_def drop_take min_absorb1)

lemma subarray_overwrite_same:
  "off + length ys \<le> length xs \<Longrightarrow> subarray off (length ys) (overwrite off ys xs) = ys"
  by (simp add: subarray_def overwrite_def min_def)

lemma subarray_append_prefix: "off + n \<le> length xs \<Longrightarrow> subarray off n (xs @ ys) = subarray off n xs"
  by (simp add: subarray_def)

lemma copy_within_length [simp]: "length (copy_within n src dst xs) = length xs"
  by (induction n arbitrary: src dst xs) simp_all

text \<open>A forward copy to a lower address moves the block whole, even when the two overlap.\<close>

lemma copy_within_forward:
  "dst \<le> src \<Longrightarrow> src + n \<le> length xs \<Longrightarrow> copy_within n src dst xs = overwrite dst (subarray src n xs) xs"
proof (induction n arbitrary: src dst xs)
  case 0
  then show ?case by (simp add: overwrite_def)
next
  case (Suc n)
  let ?ys = "xs[dst := xs ! src]"
  have "copy_within (Suc n) src dst xs = overwrite (Suc dst) (subarray (Suc src) n ?ys) ?ys"
    using Suc by simp
  also have "subarray (Suc src) n ?ys = subarray (Suc src) n xs"
    using Suc.prems by (simp add: subarray_def drop_update_cancel)
  also have "overwrite (Suc dst) (subarray (Suc src) n xs) ?ys = overwrite dst (subarray src (Suc n) xs) xs"
    using Suc.prems
    by (simp add: overwrite_def subarray_def Cons_nth_drop_Suc [symmetric] take_Suc_conv_app_nth)
  finally show ?case .
qed

lemma read_block_eq_Inr:
  "read_block off n xs = Inr ys \<longleftrightarrow> off + n \<le> length xs \<and> ys = subarray off n xs"
  by (auto simp: read_block_def)

lemma write_block_eq_Inr:
  "write_block off ys xs = Inr zs \<longleftrightarrow> off + length ys \<le> length xs \<and> zs = overwrite off ys xs"
  by (auto simp: write_block_def)

section \<open>Lemmas: ordered sets\<close>

lemma set_std_set_insert [simp]: "set (std_set_insert x xs) = insert x (set xs)"
  by (induction xs) auto

lemma set_std_set_erase [simp]: "set (std_set_erase x xs) = set xs - {x}"
  by (auto simp: std_set_erase_def)

lemma std_set_ok_Nil [simp]: "std_set_ok []"
  by (simp add: std_set_ok_def)

lemma std_set_ok_insert [simp]: "std_set_ok xs \<Longrightarrow> std_set_ok (std_set_insert x xs)"
  unfolding std_set_ok_def by (induction xs) auto

lemma std_set_ok_erase [simp]: "std_set_ok xs \<Longrightarrow> std_set_ok (std_set_erase x xs)"
  by (simp add: std_set_ok_def std_set_erase_def sorted_wrt_filter)

lemma std_set_ok_filter [simp]: "std_set_ok xs \<Longrightarrow> std_set_ok (filter P xs)"
  by (simp add: std_set_ok_def sorted_wrt_filter)

lemma std_set_ok_distinct: "std_set_ok xs \<Longrightarrow> distinct xs"
  unfolding std_set_ok_def by (induction xs) auto

lemma std_set_below_from [simp]: "std_set_below b xs @ std_set_from b xs = xs"
  by (simp add: std_set_below_def std_set_from_def)

lemma std_set_ok_below [simp]: "std_set_ok xs \<Longrightarrow> std_set_ok (std_set_below b xs)"
  by (metis std_set_ok_def std_set_below_from sorted_wrt_append)

lemma std_set_ok_from [simp]: "std_set_ok xs \<Longrightarrow> std_set_ok (std_set_from b xs)"
  by (metis std_set_ok_def std_set_below_from sorted_wrt_append)

lemma set_std_set_below: "std_set_ok xs \<Longrightarrow> set (std_set_below b xs) = {x \<in> set xs. x < b}"
  unfolding std_set_ok_def std_set_below_def by (induction xs) auto

lemma set_std_set_from: "std_set_ok xs \<Longrightarrow> set (std_set_from b xs) = {x \<in> set xs. \<not> x < b}"
  unfolding std_set_ok_def std_set_from_def by (induction xs) auto

lemma std_set_hd_least: "std_set_ok (x # xs) \<Longrightarrow> y \<in> set (x # xs) \<Longrightarrow> x \<le> y"
  by (auto simp: std_set_ok_def)

text \<open>
  What the timer queue relies on of \<^verbatim>\<open>std::set\<close>: a set view, iteration in increasing order,
  and the split at a lower bound.
\<close>

locale ordered_set =
  fixes ins :: "'a::linorder \<Rightarrow> 's \<Rightarrow> 's"
    and del :: "'a \<Rightarrow> 's \<Rightarrow> 's"
    and below :: "'a \<Rightarrow> 's \<Rightarrow> 's"
    and above :: "'a \<Rightarrow> 's \<Rightarrow> 's"
    and elems :: "'s \<Rightarrow> 'a list"
    and invar :: "'s \<Rightarrow> bool"
  assumes elems_ins: "invar s \<Longrightarrow> set (elems (ins x s)) = insert x (set (elems s))"
    and elems_del: "invar s \<Longrightarrow> set (elems (del x s)) = set (elems s) - {x}"
    and elems_below: "invar s \<Longrightarrow> set (elems (below b s)) = {x \<in> set (elems s). x < b}"
    and elems_above: "invar s \<Longrightarrow> set (elems (above b s)) = {x \<in> set (elems s). b \<le> x}"
    and invar_ins: "invar s \<Longrightarrow> invar (ins x s)"
    and invar_del: "invar s \<Longrightarrow> invar (del x s)"
    and invar_below: "invar s \<Longrightarrow> invar (below b s)"
    and invar_above: "invar s \<Longrightarrow> invar (above b s)"
    and elems_sorted: "invar s \<Longrightarrow> sorted_wrt (<) (elems s)"
begin

lemma split_partition:
  assumes "invar s"
  shows "set (elems (below b s)) \<union> set (elems (above b s)) = set (elems s)"
    and "set (elems (below b s)) \<inter> set (elems (above b s)) = {}"
  using assms by (auto simp: elems_below elems_above)

lemma below_before_above:
  assumes "invar s" and "x \<in> set (elems (below b s))" and "y \<in> set (elems (above b s))"
  shows "x < y"
  using assms by (auto simp: elems_below elems_above)

lemma least_is_first:
  assumes "invar s" and "elems s = x # xs" and "y \<in> set (elems s)"
  shows "x \<le> y"
  using elems_sorted [OF assms(1)] assms(2,3) by auto

lemma ins_new_first:
  assumes "invar s" and "\<And>y. y \<in> set (elems s) \<Longrightarrow> x < y"
  shows "elems (ins x s) \<noteq> [] \<and> hd (elems (ins x s)) = x"
proof -
  have x: "x \<in> set (elems (ins x s))" using assms(1) by (simp add: elems_ins)
  then obtain z zs where z: "elems (ins x s) = z # zs" by (cases "elems (ins x s)") auto
  have "z \<le> x" using least_is_first [OF invar_ins [OF assms(1)] z x] .
  moreover have "z = x \<or> z \<in> set (elems s)"
    using z assms(1) elems_ins [OF assms(1), of x] by auto
  ultimately show ?thesis using z assms(2) [of z] by auto
qed

end

interpretation std_set: ordered_set std_set_insert std_set_erase std_set_below std_set_from
  "\<lambda>xs. xs" std_set_ok
  by unfold_locales (auto simp: set_std_set_below set_std_set_from, simp add: std_set_ok_def)

section \<open>Lemmas: decimal printing\<close>

lemma of_char_digit_char: "d < 10 \<Longrightarrow> of_char (digit_char d) = 48 + d"
  by (simp add: digit_char_def)

lemma digits_value_snoc: "digits_value (s @ [c]) = 10 * digits_value s + (of_char c - 48)"
  by (simp add: digits_value_def)

lemma digits_value_nat_to_string [simp]: "digits_value (nat_to_string n) = n"
proof (induction n rule: nat_to_string.induct)
  case (1 n)
  show ?case
  proof (cases "n < 10")
    case True
    then show ?thesis
      by (subst nat_to_string.simps) (simp add: digits_value_def of_char_digit_char)
  next
    case False
    with 1 show ?thesis
      by (subst nat_to_string.simps) (simp add: digits_value_snoc of_char_digit_char)
  qed
qed

lemma nat_to_string_inject [simp]: "nat_to_string a = nat_to_string b \<longleftrightarrow> a = b"
  by (metis digits_value_nat_to_string)

lemma nat_to_string_not_Nil [simp]: "nat_to_string n \<noteq> []"
  by (subst nat_to_string.simps) simp

lemma set_nat_to_string: "c \<in> set (nat_to_string n) \<Longrightarrow> \<exists>d<10. c = digit_char d"
proof (induction n rule: nat_to_string.induct)
  case (1 n)
  show ?case
  proof (cases "n < 10")
    case True
    with "1.prems" show ?thesis by (subst (asm) nat_to_string.simps) auto
  next
    case False
    then have "c \<in> set (nat_to_string (n div 10)) \<or> c = digit_char (n mod 10)"
      using "1.prems" by (subst (asm) nat_to_string.simps) auto
    moreover have "n mod 10 < 10" by simp
    ultimately show ?thesis using "1.IH" False by blast
  qed
qed

lemma minus_not_in_digits: "CHR ''-'' \<notin> set (nat_to_string n)"
proof
  assume "CHR ''-'' \<in> set (nat_to_string n)"
  then obtain d where d: "d < 10" "CHR ''-'' = digit_char d" using set_nat_to_string by blast
  then have "of_char (CHR ''-'') = (48 + d :: nat)" using of_char_digit_char by metis
  then show False by simp
qed

lemma to_string_inject [simp]: "to_string a = to_string b \<longleftrightarrow> a = b"
proof
  assume eq: "to_string a = to_string b"
  have minus: "(a < 0) = (b < 0)"
  proof (rule ccontr)
    assume "(a < 0) \<noteq> (b < 0)"
    then have "CHR ''-'' \<in> set (nat_to_string (nat a)) \<or> CHR ''-'' \<in> set (nat_to_string (nat b))"
      using eq by (auto simp: to_string_def split: if_splits) (metis list.set_intros(1))+
    then show False using minus_not_in_digits by blast
  qed
  show "a = b" using eq minus by (auto simp: to_string_def split: if_splits)
qed simp

section \<open>Runs of a step relation\<close>

lemma successively_steps: "successively r (x # xs) \<Longrightarrow> r\<^sup>*\<^sup>* x (last (x # xs))"
proof (induction xs arbitrary: x)
  case (Cons y ys)
  then have "r x y" and "r\<^sup>*\<^sup>* y (last (y # ys))" by simp_all
  then show ?case by (simp add: converse_rtranclp_into_rtranclp)
qed simp

end
