(* ===== verification/Logger.thy ===== *)
theory Logger
  imports Muduo_Prelude
begin

text \<open>
  \<^verbatim>\<open>src/base/Logger.cc\<close>: the level names, the line a call prints, the stream it goes to, and the
  \<^verbatim>\<open>std::abort\<close> after a FATAL line. The rest of the development records each call of the logging
  macros as a level and a message in the world's \<open>w_log\<close> (theory Kernel); the file and line the
  macros add are arguments here.
\<close>

datatype LogLevel = DEBUG | INFO | ERROR | FATAL

record log_streams =
  std_cout :: "string list"
  std_cerr :: "string list"

definition logLevelName :: "LogLevel \<Rightarrow> string" where
  "logLevelName level =
     (case level of DEBUG \<Rightarrow> ''DEBUG'' | INFO \<Rightarrow> ''INFO'' | ERROR \<Rightarrow> ''ERROR'' | FATAL \<Rightarrow> ''FATAL'')"

definition log_line :: "LogLevel \<Rightarrow> string \<Rightarrow> int \<Rightarrow> string \<Rightarrow> string" where
  "log_line level file line message =
     ''['' @ logLevelName level @ ''] '' @ file @ '':'' @ to_string line @ '' '' @ message"

definition to_cerr :: "LogLevel \<Rightarrow> bool" where
  "to_cerr level \<longleftrightarrow> level = ERROR \<or> level = FATAL"

text \<open>
  The streams after the call, and whether the process goes on: a FATAL line is printed before
  the abort, so the streams are returned in both cases.
\<close>

definition Logger_log ::
  "LogLevel \<Rightarrow> string \<Rightarrow> int \<Rightarrow> string \<Rightarrow> log_streams \<Rightarrow> log_streams \<times> unit res" where
  "Logger_log level file line message s =
     (let l = log_line level file line message;
          s' = (if to_cerr level then s\<lparr>std_cerr := std_cerr s @ [l]\<rparr>
                else s\<lparr>std_cout := std_cout s @ [l]\<rparr>)
      in (s', if level = FATAL then Inl (Abort message) else Inr ()))"

text \<open>Level names are distinct, so a printed line determines its level.\<close>

lemma logLevelName_inject [simp]: "logLevelName a = logLevelName b \<longleftrightarrow> a = b"
  by (cases a; cases b) (simp_all add: logLevelName_def)

lemma logLevelName_no_bracket: "CHR '']'' \<notin> set (logLevelName level)"
  by (cases level) (simp_all add: logLevelName_def)

lemma log_line_level:
  assumes "log_line a f l m = log_line b f' l' m'"
  shows "a = b"
proof -
  let ?tw = "takeWhile (\<lambda>c. c \<noteq> CHR '']'')"
  have tw: "?tw (logLevelName x @ CHR '']'' # r) = logLevelName x" for x r
    using logLevelName_no_bracket [of x] by (subst takeWhile_append2) auto
  from assms have
    "?tw (logLevelName a @ CHR '']'' # '' '' @ f @ '':'' @ to_string l @ '' '' @ m) =
     ?tw (logLevelName b @ CHR '']'' # '' '' @ f' @ '':'' @ to_string l' @ '' '' @ m')"
    by (simp add: log_line_def)
  then show ?thesis unfolding tw by simp
qed

end
