(* ===== verification/Kernel.thy ===== *)
theory Kernel
  imports Logger
begin

text \<open>
  The operating system as a parameter. The sources reach it through system calls, so the model
  takes a record of system calls over an opaque kernel state \<open>'k\<close>; every definition that
  makes a call takes this record as its argument \<open>K\<close>. A call returns \<open>Inl e\<close> where the C
  function returns -1 (or NULL) with \<open>errno = e\<close>, and \<open>Inr\<close> of its result otherwise. What the
  sources rely on of the manual pages is stated as predicates over \<open>K\<close> and a view of the
  kernel state (\<open>epoll_spec\<close>, \<open>write_spec\<close>, ...); they are hypotheses of the theorems that
  need them.

  The \<open>world\<close> record is the state every component shares: the kernel, \<^verbatim>\<open>errno\<close> of the running
  thread, the log, and the identity of the running thread (\<^verbatim>\<open>std::this_thread::get_id\<close>).
  Components extend it with their own objects, so their operations compose on one state.
\<close>

type_synonym errno = int
type_synonym fd = int

datatype ctl_op = EPOLL_CTL_ADD | EPOLL_CTL_DEL | EPOLL_CTL_MOD

text \<open>\<^verbatim>\<open>struct sockaddr_in\<close>: port and address are kept in network byte order.\<close>

record sockaddr_in =
  sin_family :: int
  sin_port :: "16 word"
  sin_addr :: "32 word"

record 'k kernel =
  k_epoll_create1 :: "'k \<Rightarrow> (errno + fd) \<times> 'k"
  k_epoll_ctl :: "fd \<Rightarrow> ctl_op \<Rightarrow> fd \<Rightarrow> 32 word \<Rightarrow> ptr \<Rightarrow> 'k \<Rightarrow> (errno + unit) \<times> 'k"
  k_epoll_wait :: "fd \<Rightarrow> nat \<Rightarrow> int \<Rightarrow> 'k \<Rightarrow> (errno + (32 word \<times> ptr) list) \<times> 'k"
  k_eventfd :: "'k \<Rightarrow> (errno + fd) \<times> 'k"
  k_timerfd_create :: "'k \<Rightarrow> (errno + fd) \<times> 'k"
  k_timerfd_settime :: "fd \<Rightarrow> int \<Rightarrow> int \<Rightarrow> 'k \<Rightarrow> (errno + unit) \<times> 'k"
  k_gettimeofday :: "'k \<Rightarrow> (int \<times> int) \<times> 'k"
  k_read :: "fd \<Rightarrow> nat \<Rightarrow> 'k \<Rightarrow> (errno + string) \<times> 'k"
  k_readv :: "fd \<Rightarrow> nat list \<Rightarrow> 'k \<Rightarrow> (errno + string) \<times> 'k"
  k_write :: "fd \<Rightarrow> string \<Rightarrow> 'k \<Rightarrow> (errno + nat) \<times> 'k"
  k_close :: "fd \<Rightarrow> 'k \<Rightarrow> (errno + unit) \<times> 'k"
  k_shutdown_wr :: "fd \<Rightarrow> 'k \<Rightarrow> (errno + unit) \<times> 'k"
  k_socket :: "int \<Rightarrow> 'k \<Rightarrow> (errno + fd) \<times> 'k"
  k_bind :: "fd \<Rightarrow> sockaddr_in \<Rightarrow> 'k \<Rightarrow> (errno + unit) \<times> 'k"
  k_listen :: "fd \<Rightarrow> int \<Rightarrow> 'k \<Rightarrow> (errno + unit) \<times> 'k"
  k_connect :: "fd \<Rightarrow> sockaddr_in \<Rightarrow> 'k \<Rightarrow> (errno + unit) \<times> 'k"
  k_accept4 :: "fd \<Rightarrow> int \<Rightarrow> 'k \<Rightarrow> (errno + fd \<times> sockaddr_in) \<times> 'k"
  k_accept :: "fd \<Rightarrow> 'k \<Rightarrow> (errno + fd \<times> sockaddr_in) \<times> 'k"
  k_getsockname :: "fd \<Rightarrow> 'k \<Rightarrow> (errno + sockaddr_in) \<times> 'k"
  k_setsockopt :: "fd \<Rightarrow> int \<Rightarrow> int \<Rightarrow> int \<Rightarrow> 'k \<Rightarrow> (errno + unit) \<times> 'k"
  k_fcntl_get :: "fd \<Rightarrow> int \<Rightarrow> 'k \<Rightarrow> (errno + 32 word) \<times> 'k"
  k_fcntl_set :: "fd \<Rightarrow> int \<Rightarrow> 32 word \<Rightarrow> 'k \<Rightarrow> (errno + unit) \<times> 'k"
  k_inet_pton :: "string \<Rightarrow> 32 word option"
  k_inet_ntop :: "32 word \<Rightarrow> string option"
  k_strerror :: "errno \<Rightarrow> string"

text \<open>Linux error numbers the sources compare with (EWOULDBLOCK is EAGAIN).\<close>

definition EINTR :: errno where "EINTR = 4"
definition EAGAIN :: errno where "EAGAIN = 11"
definition EINVAL :: errno where "EINVAL = 22"
definition EPIPE :: errno where "EPIPE = 32"
definition ENOSYS :: errno where "ENOSYS = 38"
definition ECONNRESET :: errno where "ECONNRESET = 104"

lemmas errno_defs = EINTR_def EAGAIN_def EINVAL_def EPIPE_def ENOSYS_def ECONNRESET_def

record 'k world =
  w_kern :: 'k
  w_errno :: errno
  w_log :: "(LogLevel \<times> string) list"
  w_thread :: nat

definition syscall ::
  "('k \<Rightarrow> (errno + 'a) \<times> 'k) \<Rightarrow> ('k, 'z) world_scheme \<Rightarrow> (errno + 'a) \<times> ('k, 'z) world_scheme" where
  "syscall f w =
     (case f (w_kern w) of (r, k) \<Rightarrow>
        (r, w\<lparr>w_kern := k, w_errno := (case r of Inl e \<Rightarrow> e | Inr _ \<Rightarrow> w_errno w)\<rparr>))"

definition LOG_DEBUG :: "string \<Rightarrow> ('k, 'z) world_scheme \<Rightarrow> ('k, 'z) world_scheme" where
  "LOG_DEBUG msg w = w\<lparr>w_log := w_log w @ [(DEBUG, msg)]\<rparr>"

definition LOG_INFO :: "string \<Rightarrow> ('k, 'z) world_scheme \<Rightarrow> ('k, 'z) world_scheme" where
  "LOG_INFO msg w = w\<lparr>w_log := w_log w @ [(INFO, msg)]\<rparr>"

definition LOG_ERROR :: "string \<Rightarrow> ('k, 'z) world_scheme \<Rightarrow> ('k, 'z) world_scheme" where
  "LOG_ERROR msg w = w\<lparr>w_log := w_log w @ [(ERROR, msg)]\<rparr>"

definition LOG_FATAL :: "string \<Rightarrow> ('k, 'z) world_scheme \<Rightarrow> 'a res" where
  "LOG_FATAL msg w = Inl (Abort msg)"

section \<open>Documented behaviour of the calls\<close>

text \<open>
  \<^verbatim>\<open>epoll_ctl(2)\<close>: ADD needs an unregistered fd, MOD and DEL a registered one; a failed call
  changes nothing; deleting a registered fd succeeds. \<open>interest k ep fd\<close> is the entry of the
  interest list: the event mask and the \<^verbatim>\<open>data.ptr\<close> the caller stored.
\<close>

definition epoll_spec ::
  "'k kernel \<Rightarrow> ('k \<Rightarrow> fd \<Rightarrow> fd \<Rightarrow> (32 word \<times> ptr) option) \<Rightarrow> bool" where
  "epoll_spec K interest \<longleftrightarrow>
     (\<forall>ep op f ev p k r k'. k_epoll_ctl K ep op f ev p k = (r, k') \<longrightarrow>
        (case r of
           Inl e \<Rightarrow> interest k' = interest k \<and> (op = EPOLL_CTL_DEL \<longrightarrow> interest k ep f = None)
         | Inr _ \<Rightarrow>
             (interest k ep f = None) = (op = EPOLL_CTL_ADD) \<and>
             interest k' = (interest k)(ep := (interest k ep)
               (f := if op = EPOLL_CTL_DEL then None else Some (ev, p)))))"

text \<open>\<^verbatim>\<open>write(2)\<close> on a stream: a prefix of the data is accepted, in order; an error accepts nothing.\<close>

definition write_spec :: "'k kernel \<Rightarrow> ('k \<Rightarrow> fd \<Rightarrow> string) \<Rightarrow> bool" where
  "write_spec K sent \<longleftrightarrow>
     (\<forall>f bs k r k'. k_write K f bs k = (r, k') \<longrightarrow>
        (case r of
           Inl e \<Rightarrow> sent k' = sent k
         | Inr n \<Rightarrow> n \<le> length bs \<and> sent k' = (sent k)(f := sent k f @ take n bs)))"

text \<open>\<^verbatim>\<open>readv(2)\<close>: at most as many bytes as the vector of buffers holds.\<close>

definition readv_spec :: "'k kernel \<Rightarrow> bool" where
  "readv_spec K \<longleftrightarrow>
     (\<forall>f iov k bs k'. k_readv K f iov k = (Inr bs, k') \<longrightarrow> length bs \<le> sum_list iov)"

text \<open>\<^verbatim>\<open>gettimeofday(2)\<close>: the microseconds are below one second.\<close>

definition clock_spec :: "'k kernel \<Rightarrow> bool" where
  "clock_spec K \<longleftrightarrow>
     (\<forall>k s u k'. k_gettimeofday K k = ((s, u), k') \<longrightarrow> 0 \<le> u \<and> u < 1000000)"

text \<open>
  \<^verbatim>\<open>epoll_ctl(2)\<close> succeeds whenever its precondition on the interest list holds (no lack of memory
  or watches); \<^verbatim>\<open>epoll_wait(2)\<close> reports at most as many events as asked for, each for one entry of
  the interest list, and changes no entry.
\<close>

definition epoll_total :: "'k kernel \<Rightarrow> ('k \<Rightarrow> fd \<Rightarrow> fd \<Rightarrow> (32 word \<times> ptr) option) \<Rightarrow> bool" where
  "epoll_total K interest \<longleftrightarrow>
     (\<forall>ep op f ev p k. (interest k ep f = None) = (op = EPOLL_CTL_ADD) \<longrightarrow>
        fst (k_epoll_ctl K ep op f ev p k) = Inr ())"

definition epoll_wait_spec :: "'k kernel \<Rightarrow> ('k \<Rightarrow> fd \<Rightarrow> fd \<Rightarrow> (32 word \<times> ptr) option) \<Rightarrow> bool" where
  "epoll_wait_spec K interest \<longleftrightarrow>
     (\<forall>ep n t k r k'. k_epoll_wait K ep n t k = (r, k') \<longrightarrow> interest k' = interest k \<and>
        (\<forall>evs. r = Inr evs \<longrightarrow> length evs \<le> n \<and> distinct (map snd evs) \<and>
           (\<forall>p \<in> snd ` set evs. \<exists>f m. interest k ep f = Some (m, p))))"

text \<open>
  What the calls leave alone: only \<^verbatim>\<open>epoll_ctl\<close> changes interest lists (and closing an fd), only
  \<^verbatim>\<open>write\<close> changes what was sent.
\<close>

definition leaves :: "('k \<Rightarrow> 'r \<times> 'k) \<Rightarrow> ('k \<Rightarrow> 'v) \<Rightarrow> bool" where
  "leaves f v \<longleftrightarrow> (\<forall>k. v (snd (f k)) = v k)"

definition reads_leave :: "'k kernel \<Rightarrow> ('k \<Rightarrow> 'v) \<Rightarrow> bool" where
  "reads_leave K v \<longleftrightarrow>
     (\<forall>f n. leaves (k_read K f n) v) \<and> (\<forall>f iov. leaves (k_readv K f iov) v) \<and>
     leaves (k_gettimeofday K) v \<and> (\<forall>f. leaves (k_shutdown_wr K f) v) \<and>
     (\<forall>f s n. leaves (k_timerfd_settime K f s n) v) \<and>
     (\<forall>f l n x. leaves (k_setsockopt K f l n x) v) \<and>
     (\<forall>ep n t. leaves (k_epoll_wait K ep n t) v)"

text \<open>\<open>received k f\<close> is everything that was ever read from the stream \<open>f\<close>.\<close>

definition receive_spec :: "'k kernel \<Rightarrow> ('k \<Rightarrow> fd \<Rightarrow> string) \<Rightarrow> bool" where
  "receive_spec K received \<longleftrightarrow>
     (\<forall>f iov k r k'. k_readv K f iov k = (r, k') \<longrightarrow>
        received k' = (received k)(f := received k f @ (case r of Inl e \<Rightarrow> [] | Inr bs \<Rightarrow> bs))) \<and>
     (\<forall>f n. k_read K f n = k_readv K f [n]) \<and>
     (\<forall>f bs. leaves (k_write K f bs) received) \<and> (\<forall>f. leaves (k_shutdown_wr K f) received) \<and>
     (\<forall>ep op f ev p. leaves (k_epoll_ctl K ep op f ev p) received)"

definition kernel_spec ::
  "'k kernel \<Rightarrow> ('k \<Rightarrow> fd \<Rightarrow> fd \<Rightarrow> (32 word \<times> ptr) option) \<Rightarrow> ('k \<Rightarrow> fd \<Rightarrow> string) \<Rightarrow> bool" where
  "kernel_spec K interest sent \<longleftrightarrow>
     epoll_spec K interest \<and> write_spec K sent \<and> readv_spec K \<and> clock_spec K \<and>
     reads_leave K interest \<and> reads_leave K sent \<and>
     (\<forall>f bs. leaves (k_write K f bs) interest) \<and>
     (\<forall>ep op f ev p. leaves (k_epoll_ctl K ep op f ev p) sent)"

text \<open>\<^verbatim>\<open>shutdown(fd, SHUT_WR)\<close>: closes the writing half of that fd, and no other call here does.\<close>

definition half_close_spec :: "'k kernel \<Rightarrow> ('k \<Rightarrow> fd \<Rightarrow> bool) \<Rightarrow> bool" where
  "half_close_spec K shut \<longleftrightarrow>
     (\<forall>f bs. leaves (k_write K f bs) shut) \<and>
     (\<forall>ep op f ev p. leaves (k_epoll_ctl K ep op f ev p) shut) \<and>
     (\<forall>f k r k'. k_shutdown_wr K f k = (r, k') \<longrightarrow> shut k' = (shut k)(f := shut k f \<or> r = Inr ()))"

text \<open>
  \<^verbatim>\<open>close(2)\<close>: closing an fd (of which no duplicate exists) drops it from every interest list. The
  other socket calls leave \<open>v\<close> alone.
\<close>

definition close_spec :: "'k kernel \<Rightarrow> ('k \<Rightarrow> fd \<Rightarrow> fd \<Rightarrow> (32 word \<times> ptr) option) \<Rightarrow> bool" where
  "close_spec K interest \<longleftrightarrow>
     (\<forall>f k. interest (snd (k_close K f k)) = (\<lambda>ep. (interest k ep)(f := None)))"

definition socket_calls_leave :: "'k kernel \<Rightarrow> ('k \<Rightarrow> 'v) \<Rightarrow> bool" where
  "socket_calls_leave K v \<longleftrightarrow>
     (\<forall>fl. leaves (k_socket K fl) v) \<and> (\<forall>f a. leaves (k_bind K f a) v) \<and>
     (\<forall>f n. leaves (k_listen K f n) v) \<and> (\<forall>f fl. leaves (k_accept4 K f fl) v) \<and>
     (\<forall>f. leaves (k_accept K f) v) \<and> (\<forall>f. leaves (k_getsockname K f) v) \<and>
     (\<forall>f l n x. leaves (k_setsockopt K f l n x) v) \<and> (\<forall>f c. leaves (k_fcntl_get K f c) v) \<and>
     (\<forall>f c x. leaves (k_fcntl_set K f c x) v)"

text \<open>
  Which fds are open: \<^verbatim>\<open>accept(2)\<close> opens an fd that was not, \<^verbatim>\<open>close(2)\<close> releases the fd even when it
  reports an error, reading and setting flags changes nothing.
\<close>

definition open_spec :: "'k kernel \<Rightarrow> ('k \<Rightarrow> fd set) \<Rightarrow> bool" where
  "open_spec K opened \<longleftrightarrow>
     (\<forall>call \<in> {k_accept4 K f fl | f fl. True} \<union> {k_accept K f | f. True}. \<forall>k r k'. call k = (r, k') \<longrightarrow>
        (case r of Inl e \<Rightarrow> opened k' = opened k
         | Inr (c, a) \<Rightarrow> c \<notin> opened k \<and> opened k' = insert c (opened k))) \<and>
     (\<forall>f k. opened (snd (k_close K f k)) = opened k - {f}) \<and>
     (\<forall>f c. leaves (k_fcntl_get K f c) opened) \<and> (\<forall>f c x. leaves (k_fcntl_set K f c x) opened)"

text \<open>The eight bytes of \<^verbatim>\<open>uint64_t one = 1\<close> on a little-endian machine.\<close>

definition uint64_one :: string where
  "uint64_one = CHR 0x01 # replicate 7 (CHR 0x00)"

text \<open>
  \<^verbatim>\<open>eventfd(2)\<close>, non-blocking: a write of one adds one to the counter, or fails with EAGAIN when
  the counter is at its maximum; a read of eight bytes takes the whole counter, or fails with
  EAGAIN when it is 0. Polling and reading the clock leave it alone. \<open>count k f\<close> is the counter
  of the eventfd \<open>f\<close>.
\<close>

definition eventfd_max :: nat where
  "eventfd_max = 2 ^ 64 - 2"

definition eventfd_spec :: "'k kernel \<Rightarrow> ('k \<Rightarrow> fd \<Rightarrow> nat option) \<Rightarrow> bool" where
  "eventfd_spec K count \<longleftrightarrow>
     (\<forall>f k n r k'. count k f = Some n \<longrightarrow> k_write K f uint64_one k = (r, k') \<longrightarrow>
        (r = Inr 8 \<and> count k' = (count k)(f \<mapsto> Suc n)) \<or>
        (r = Inl EAGAIN \<and> n = eventfd_max \<and> count k' = count k)) \<and>
     (\<forall>f k n r k'. count k f = Some n \<longrightarrow> k_read K f 8 k = (r, k') \<longrightarrow>
        (if n = 0 then r = Inl EAGAIN \<and> count k' = count k
         else (\<exists>bs. r = Inr bs \<and> length bs = 8) \<and> count k' = (count k)(f \<mapsto> 0))) \<and>
     (\<forall>ep n t. leaves (k_epoll_wait K ep n t) count) \<and> leaves (k_gettimeofday K) count"

section \<open>Lemmas\<close>

lemma syscall_eq:
  "syscall f w = (r, w') \<longleftrightarrow>
     (\<exists>k. f (w_kern w) = (r, k) \<and>
        w' = w\<lparr>w_kern := k, w_errno := (case r of Inl e \<Rightarrow> e | Inr _ \<Rightarrow> w_errno w)\<rparr>)"
  by (auto simp: syscall_def split: prod.splits)

lemma syscallE:
  assumes "syscall f w = (r, w')"
  obtains k where "f (w_kern w) = (r, k)"
    and "w' = w\<lparr>w_kern := k, w_errno := (case r of Inl e \<Rightarrow> e | Inr _ \<Rightarrow> w_errno w)\<rparr>"
  using assms by (auto simp: syscall_eq)

lemmas log_defs = LOG_DEBUG_def LOG_INFO_def LOG_ERROR_def LOG_FATAL_def

lemma LOG_FATAL_not_Inr [simp]: "LOG_FATAL msg w \<noteq> Inr x"
  by (simp add: LOG_FATAL_def)

lemma log_world_simps [simp]:
  "w_kern (LOG_DEBUG m w) = w_kern w" "w_kern (LOG_INFO m w) = w_kern w"
  "w_kern (LOG_ERROR m w) = w_kern w" "w_thread (LOG_DEBUG m w) = w_thread w"
  "w_thread (LOG_INFO m w) = w_thread w" "w_thread (LOG_ERROR m w) = w_thread w"
  by (simp_all add: log_defs)

lemma epoll_specD:
  assumes "epoll_spec K interest" and "k_epoll_ctl K ep op f ev p k = (r, k')"
  shows "(\<exists>e. r = Inl e \<and> interest k' = interest k \<and>
            (op = EPOLL_CTL_DEL \<longrightarrow> interest k ep f = None)) \<or>
         (r = Inr () \<and> (interest k ep f = None) = (op = EPOLL_CTL_ADD) \<and>
            interest k' = (interest k)(ep := (interest k ep)
              (f := if op = EPOLL_CTL_DEL then None else Some (ev, p))))"
  using assms unfolding epoll_spec_def by (cases r) fastforce+

lemma write_specD:
  assumes "write_spec K sent" and "k_write K f bs k = (r, k')"
  shows "(\<exists>e. r = Inl e \<and> sent k' = sent k) \<or>
         (\<exists>n. r = Inr n \<and> n \<le> length bs \<and> sent k' = (sent k)(f := sent k f @ take n bs))"
  using assms unfolding write_spec_def by (cases r) fastforce+

text \<open>After a wake-up is written the counter is positive, whatever the write returned.\<close>

lemma eventfd_write:
  assumes "eventfd_spec K count" and "count k f = Some n" and "k_write K f uint64_one k = (r, k')"
  shows "\<exists>m. 0 < m \<and> count k' = (count k)(f \<mapsto> m)"
proof -
  have "(r = Inr 8 \<and> count k' = (count k)(f \<mapsto> Suc n)) \<or> (r = Inl EAGAIN \<and> n = eventfd_max \<and> count k' = count k)"
    using assms unfolding eventfd_spec_def by blast
  then show ?thesis
  proof (elim disjE conjE)
    assume "n = eventfd_max" and "count k' = count k"
    then show ?thesis using assms(2) by (intro exI [of _ n]) (auto simp: eventfd_max_def fun_eq_iff)
  qed auto
qed

lemma eventfd_read:
  assumes "eventfd_spec K count" and "count k f = Some n" and "k_read K f 8 k = (r, k')"
  shows "count k' = (count k)(f \<mapsto> 0)"
proof -
  have "if n = 0 then r = Inl EAGAIN \<and> count k' = count k
        else (\<exists>bs. r = Inr bs \<and> length bs = 8) \<and> count k' = (count k)(f \<mapsto> 0)"
    using assms unfolding eventfd_spec_def by blast
  then show ?thesis using assms(2) by (auto simp: fun_eq_iff split: if_splits)
qed

lemma eventfd_leaves:
  assumes "eventfd_spec K count"
  shows "leaves (k_epoll_wait K ep n t) count" and "leaves (k_gettimeofday K) count"
  using assms by (simp_all add: eventfd_spec_def)

lemma leavesD: "leaves f v \<Longrightarrow> f k = (r, k') \<Longrightarrow> v k' = v k"
  unfolding leaves_def by (metis snd_conv)

lemma syscall_leaves: "leaves f v \<Longrightarrow> syscall f w = (r, w') \<Longrightarrow> v (w_kern w') = v (w_kern w)"
  by (auto simp: syscall_eq dest: leavesD)

lemma open_specD:
  assumes "open_spec K opened"
  shows "k_accept4 K f fl k = (Inl e, k') \<Longrightarrow> opened k' = opened k"
    and "k_accept4 K f fl k = (Inr (c, a), k') \<Longrightarrow> c \<notin> opened k \<and> opened k' = insert c (opened k)"
    and "k_accept K f k = (Inl e, k') \<Longrightarrow> opened k' = opened k"
    and "k_accept K f k = (Inr (c, a), k') \<Longrightarrow> c \<notin> opened k \<and> opened k' = insert c (opened k)"
    and "opened (snd (k_close K f k)) = opened k - {f}"
    and "leaves (k_fcntl_get K f i) opened" and "leaves (k_fcntl_set K f i x) opened"
proof -
  have acc: "(case r of Inl e \<Rightarrow> opened k' = opened k | Inr (c, a) \<Rightarrow> c \<notin> opened k \<and> opened k' = insert c (opened k))"
    if "call k = (r, k')" "call \<in> {k_accept4 K f fl | f fl. True} \<union> {k_accept K f | f. True}" for call r k k'
    using assms that unfolding open_spec_def by blast
  show "k_accept4 K f fl k = (Inl e, k') \<Longrightarrow> opened k' = opened k"
    using acc [of "k_accept4 K f fl"] by fastforce
  show "k_accept4 K f fl k = (Inr (c, a), k') \<Longrightarrow> c \<notin> opened k \<and> opened k' = insert c (opened k)"
    using acc [of "k_accept4 K f fl"] by fastforce
  show "k_accept K f k = (Inl e, k') \<Longrightarrow> opened k' = opened k"
    using acc [of "k_accept K f"] by fastforce
  show "k_accept K f k = (Inr (c, a), k') \<Longrightarrow> c \<notin> opened k \<and> opened k' = insert c (opened k)"
    using acc [of "k_accept K f"] by fastforce
qed (use assms in \<open>simp_all add: open_spec_def\<close>)

lemma socket_calls_leaveD:
  assumes "socket_calls_leave K v"
  shows "leaves (k_socket K fl) v" and "leaves (k_bind K f a) v" and "leaves (k_listen K f n) v"
    and "leaves (k_accept4 K f i) v" and "leaves (k_accept K f) v" and "leaves (k_getsockname K f) v"
    and "leaves (k_setsockopt K f i j x) v" and "leaves (k_fcntl_get K f i) v" and "leaves (k_fcntl_set K f i u) v"
  using assms by (simp_all add: socket_calls_leave_def)

lemma kernel_specD:
  assumes "kernel_spec K interest sent"
  shows "epoll_spec K interest" and "write_spec K sent" and "readv_spec K" and "clock_spec K"
    and "reads_leave K interest" and "reads_leave K sent" and "leaves (k_write K f bs) interest"
    and "leaves (k_epoll_ctl K ep op f ev p) sent"
  using assms by (simp_all add: kernel_spec_def)

lemma reads_leaveD:
  assumes "reads_leave K v"
  shows "leaves (k_read K f n) v" and "leaves (k_readv K f iov) v" and "leaves (k_gettimeofday K) v"
    and "leaves (k_shutdown_wr K f) v" and "leaves (k_timerfd_settime K f s m) v"
    and "leaves (k_setsockopt K f l i x) v" and "leaves (k_epoll_wait K ep n t) v"
  using assms by (simp_all add: reads_leave_def)

end
