(* ===== verification/Kernel_Instance.thy ===== *)
theory Kernel_Instance
  imports Kernel
begin

text \<open>
  A concrete kernel that has the behaviour the theorems ask of the operating system. It keeps
  epoll interest lists, the bytes written to and waiting on every fd, a clock that advances by
  a microsecond per reading, and a counter for fresh fds, and the counters of its eventfds. It shows that the hypotheses on the
  kernel parameter can hold, and it is what concrete runs of the model evaluate on. A write
  accepts at most \<open>si_room\<close> bytes, so partial writes occur, and none at all (EAGAIN) when it is 0.
\<close>

record sim =
  si_interest :: "fd \<Rightarrow> fd \<Rightarrow> (32 word \<times> ptr) option"
  si_sent :: "fd \<Rightarrow> string"
  si_input :: "fd \<Rightarrow> string"
  si_received :: "fd \<Rightarrow> string"
  si_room :: nat
  si_ready :: "(fd \<times> 32 word) list"
  si_clock :: int
  si_next_fd :: fd
  si_closed :: "fd \<Rightarrow> bool"
  si_counter :: "fd \<Rightarrow> nat option"
  si_gone :: "fd list"

definition sim_init :: sim where
  "sim_init = \<lparr>si_interest = (\<lambda>_ _. None), si_sent = (\<lambda>_. []), si_input = (\<lambda>_. []), si_received = (\<lambda>_. []),
     si_room = 4, si_ready = [], si_clock = 1000000, si_next_fd = 3, si_closed = (\<lambda>_. False),
     si_counter = Map.empty, si_gone = []\<rparr>"

definition sim_fresh :: "sim \<Rightarrow> (errno + fd) \<times> sim" where
  "sim_fresh k = (Inr (si_next_fd k), k\<lparr>si_next_fd := si_next_fd k + 1\<rparr>)"

definition sim_eventfd :: "sim \<Rightarrow> (errno + fd) \<times> sim" where
  "sim_eventfd k = (Inr (si_next_fd k), k\<lparr>si_next_fd := si_next_fd k + 1,
     si_counter := (si_counter k)(si_next_fd k \<mapsto> 0)\<rparr>)"

definition sim_epoll_ctl :: "fd \<Rightarrow> ctl_op \<Rightarrow> fd \<Rightarrow> 32 word \<Rightarrow> ptr \<Rightarrow> sim \<Rightarrow> (errno + unit) \<times> sim" where
  "sim_epoll_ctl ep op f ev p k =
     (if (si_interest k ep f = None) = (op = EPOLL_CTL_ADD)
      then (Inr (), k\<lparr>si_interest := (si_interest k)(ep := (si_interest k ep)
              (f := if op = EPOLL_CTL_DEL then None else Some (ev, p)))\<rparr>)
      else (Inl (if op = EPOLL_CTL_ADD then 17 else 2), k))"

text \<open>Ready fds that are watched are reported with the pointer registered for them.\<close>

definition sim_epoll_wait :: "fd \<Rightarrow> nat \<Rightarrow> int \<Rightarrow> sim \<Rightarrow> (errno + (32 word \<times> ptr) list) \<times> sim" where
  "sim_epoll_wait ep n t k =
     (let evs = List.map_filter (\<lambda>(f, m). map_option (\<lambda>(_, p). (m, p)) (si_interest k ep f)) (si_ready k)
      in (Inr (if distinct (map snd evs) then take n evs else []), k\<lparr>si_ready := []\<rparr>))"

definition sim_readv :: "fd \<Rightarrow> nat list \<Rightarrow> sim \<Rightarrow> (errno + string) \<times> sim" where
  "sim_readv f iov k =
     (case si_counter k f of
        None \<Rightarrow>
          (let n = sum_list iov; bs = take n (si_input k f)
           in (Inr bs, k\<lparr>si_input := (si_input k)(f := drop n (si_input k f)),
                 si_received := (si_received k)(f := si_received k f @ bs)\<rparr>))
      | Some c \<Rightarrow>
          if c = 0 \<or> sum_list iov < 8 then (Inl EAGAIN, k)
          else (let bs = map (\<lambda>i. char_of (c div 256 ^ i)) [0..<8]
                in (Inr bs, k\<lparr>si_counter := (si_counter k)(f \<mapsto> 0),
                      si_received := (si_received k)(f := si_received k f @ bs)\<rparr>)))"

definition sim_write :: "fd \<Rightarrow> string \<Rightarrow> sim \<Rightarrow> (errno + nat) \<times> sim" where
  "sim_write f bs k =
     (if si_counter k f \<noteq> None then
        (Inr (length bs), k\<lparr>si_sent := (si_sent k)(f := si_sent k f @ bs),
                si_counter := (si_counter k)(f := map_option Suc (si_counter k f))\<rparr>)
      else if si_room k = 0 then (Inl EAGAIN, k)
      else let n = min (length bs) (si_room k)
           in (Inr n, k\<lparr>si_sent := (si_sent k)(f := si_sent k f @ take n bs)\<rparr>))"

definition sim_gettimeofday :: "sim \<Rightarrow> (int \<times> int) \<times> sim" where
  "sim_gettimeofday k =
     ((si_clock k div 1000000, si_clock k mod 1000000), k\<lparr>si_clock := si_clock k + 1\<rparr>)"

definition sim_accept :: "sim \<Rightarrow> (errno + fd \<times> sockaddr_in) \<times> sim" where
  "sim_accept k = (Inr (si_next_fd k, \<lparr>sin_family = 2, sin_port = 5, sin_addr = 7\<rparr>),
     k\<lparr>si_next_fd := si_next_fd k + 1, si_gone := removeAll (si_next_fd k) (si_gone k)\<rparr>)"

definition sim_close :: "fd \<Rightarrow> sim \<Rightarrow> (errno + unit) \<times> sim" where
  "sim_close f k = (Inr (), k\<lparr>si_interest := (\<lambda>ep. (si_interest k ep)(f := None)), si_gone := f # si_gone k\<rparr>)"

definition sim_opened :: "sim \<Rightarrow> fd set" where
  "sim_opened k = {..<si_next_fd k} - set (si_gone k)"

definition sim_kernel :: "sim kernel" where
  "sim_kernel =
     \<lparr>k_epoll_create1 = sim_fresh, k_epoll_ctl = sim_epoll_ctl,
      k_epoll_wait = sim_epoll_wait,
      k_eventfd = sim_eventfd, k_timerfd_create = sim_fresh,
      k_timerfd_settime = (\<lambda>f s n k. (Inr (), k)),
      k_gettimeofday = sim_gettimeofday,
      k_read = (\<lambda>f n. sim_readv f [n]), k_readv = sim_readv, k_write = sim_write,
      k_close = sim_close,
      k_shutdown_wr = (\<lambda>f k. (Inr (), k\<lparr>si_closed := (si_closed k)(f := True)\<rparr>)),
      k_socket = (\<lambda>_. sim_fresh), k_bind = (\<lambda>f a k. (Inr (), k)), k_listen = (\<lambda>f n k. (Inr (), k)), k_connect = (\<lambda>f a k. (Inr (), k)),
      k_accept4 = (\<lambda>f fl. sim_accept), k_accept = (\<lambda>f. sim_accept),
      k_getsockname = (\<lambda>f k. (Inr \<lparr>sin_family = 2, sin_port = 9, sin_addr = 7\<rparr>, k)),
      k_setsockopt = (\<lambda>f l n v k. (Inr (), k)), k_fcntl_get = (\<lambda>f c k. (Inr 0, k)),
      k_fcntl_set = (\<lambda>f c v k. (Inr (), k)), k_inet_pton = (\<lambda>s. Some 0),
      k_inet_ntop = (\<lambda>a. Some ''0.0.0.0''), k_strerror = (\<lambda>e. ''error'')\<rparr>"

lemma sim_epoll_spec: "epoll_spec sim_kernel si_interest"
  by (auto simp: epoll_spec_def sim_kernel_def sim_epoll_ctl_def split: if_splits) (metis option.exhaust surj_pair)

lemma sim_write_spec: "write_spec sim_kernel si_sent"
  by (auto simp: write_spec_def sim_kernel_def sim_write_def Let_def split: if_splits)

lemma sim_readv_spec: "readv_spec sim_kernel"
  by (auto simp: readv_spec_def sim_kernel_def sim_readv_def Let_def split: option.splits if_splits)

lemma sim_receive_spec: "receive_spec sim_kernel si_received"
  by (auto simp: receive_spec_def leaves_def sim_kernel_def sim_readv_def sim_write_def sim_epoll_ctl_def Let_def
      split: option.splits if_splits)

lemma sim_clock_spec: "clock_spec sim_kernel"
  by (auto simp: clock_spec_def sim_kernel_def sim_gettimeofday_def)

lemma sim_kernel_spec: "kernel_spec sim_kernel si_interest si_sent"
  unfolding kernel_spec_def
  using sim_epoll_spec sim_write_spec sim_readv_spec sim_clock_spec
  by (simp add: reads_leave_def leaves_def sim_kernel_def sim_readv_def sim_gettimeofday_def
      sim_write_def sim_epoll_ctl_def sim_epoll_wait_def Let_def split: option.splits)

lemma sim_eventfd_spec: "eventfd_spec sim_kernel si_counter"
  by (auto simp: eventfd_spec_def leaves_def sim_kernel_def sim_write_def sim_readv_def sim_epoll_wait_def
      sim_gettimeofday_def uint64_one_def Let_def fun_eq_iff split: if_splits)

lemma sim_half_close_spec: "half_close_spec sim_kernel si_closed"
  by (auto simp: half_close_spec_def leaves_def sim_kernel_def sim_write_def sim_epoll_ctl_def Let_def)

lemma sim_epoll_total: "epoll_total sim_kernel si_interest"
  by (simp add: epoll_total_def sim_kernel_def sim_epoll_ctl_def)

lemma sim_close_spec: "close_spec sim_kernel si_interest"
  by (simp add: close_spec_def sim_kernel_def sim_close_def)

lemma sim_open_spec: "open_spec sim_kernel sim_opened"
  by (auto simp: open_spec_def sim_kernel_def sim_accept_def sim_close_def sim_opened_def leaves_def)

lemma sim_socket_calls_leave:
  "socket_calls_leave sim_kernel si_interest" "socket_calls_leave sim_kernel si_sent"
  "socket_calls_leave sim_kernel si_closed"
  by (simp_all add: socket_calls_leave_def leaves_def sim_kernel_def sim_fresh_def sim_accept_def)

lemma sim_epoll_wait_spec: "epoll_wait_spec sim_kernel si_interest"
proof -
  have watched: "\<exists>f m. si_interest k ep f = Some (m, p)"
    if "(ev, p) \<in> set (List.map_filter (\<lambda>(f, m). map_option (\<lambda>(_, p). (m, p)) (si_interest k ep f)) xs)"
    for k ep ev p xs
    using that by (induction xs) (auto split: option.splits)
  show ?thesis
    unfolding epoll_wait_spec_def
    by (auto simp: sim_kernel_def sim_epoll_wait_def Let_def distinct_take take_map [symmetric]
        dest!: in_set_takeD intro: watched split: if_splits)
qed

end
