(* ===== verification/Buffer.thy ===== *)
theory Buffer
  imports Kernel_Instance
begin

text \<open>
  \<^verbatim>\<open>src/net/Buffer.cc\<close>: the input and output buffer of a connection. The model keeps the whole
  vector, both indices at their 64-bit width, and every way an operation can fail: the
  \<^verbatim>\<open>assert\<close> of \<^verbatim>\<open>hasWritten\<close>, \<^verbatim>\<open>std::length_error\<close> of \<^verbatim>\<open>resize\<close>, and accesses outside the
  vector. \<open>Buffer_contents\<close> is the abstraction: the bytes between the two indices, a FIFO
  queue that every operation implements (locale \<open>byte_queue\<close>).
\<close>

record buffer =
  buf_data :: "char list"
  readerIndex :: size_t
  writerIndex :: size_t

definition kCheapPrepend :: size_t where
  "kCheapPrepend = 8"

definition kInitialSize :: size_t where
  "kInitialSize = 1024"

text \<open>\<^verbatim>\<open>std::vector<char>::max_size()\<close>, the size no object exceeds.\<close>

definition max_object_size :: nat where
  "max_object_size = 2 ^ 63 - 1"

definition vector_make :: "size_t \<Rightarrow> char list res" where
  "vector_make n =
     (if unat n \<le> max_object_size then Inr (replicate (unat n) (CHR 0x00)) else Inl LengthError)"

definition vector_resize :: "size_t \<Rightarrow> char list \<Rightarrow> char list res" where
  "vector_resize n xs =
     (if unat n \<le> max_object_size
      then Inr (take (unat n) xs @ replicate (unat n - length xs) (CHR 0x00))
      else Inl LengthError)"

definition Buffer_new :: "size_t \<Rightarrow> buffer res" where
  "Buffer_new initialSize =
     rbind (vector_make (kCheapPrepend + initialSize)) (\<lambda>v.
       Inr \<lparr>buf_data = v, readerIndex = kCheapPrepend, writerIndex = kCheapPrepend\<rparr>)"

definition readableBytes :: "buffer \<Rightarrow> size_t" where
  "readableBytes b = writerIndex b - readerIndex b"

definition writableBytes :: "buffer \<Rightarrow> size_t" where
  "writableBytes b = of_nat (length (buf_data b)) - writerIndex b"

definition prependableBytes :: "buffer \<Rightarrow> size_t" where
  "prependableBytes b = readerIndex b"

text \<open>\<^verbatim>\<open>peek\<close> and \<^verbatim>\<open>beginWrite\<close> as offsets from \<^verbatim>\<open>begin()\<close>.\<close>

definition Buffer_peek :: "buffer \<Rightarrow> nat" where
  "Buffer_peek b = unat (readerIndex b)"

definition beginWrite :: "buffer \<Rightarrow> nat" where
  "beginWrite b = unat (writerIndex b)"

definition retrieveAll :: "buffer \<Rightarrow> buffer" where
  "retrieveAll b = b\<lparr>readerIndex := kCheapPrepend, writerIndex := kCheapPrepend\<rparr>"

definition retrieve :: "size_t \<Rightarrow> buffer \<Rightarrow> buffer" where
  "retrieve len b =
     (if len < readableBytes b then b\<lparr>readerIndex := readerIndex b + len\<rparr> else retrieveAll b)"

definition retrieveAsString :: "size_t \<Rightarrow> buffer \<Rightarrow> (string \<times> buffer) res" where
  "retrieveAsString len b =
     (let readable = readableBytes b; n = min len readable
      in rbind (read_block (Buffer_peek b) (unat n) (buf_data b)) (\<lambda>result.
           Inr (result, retrieve n b)))"

definition retrieveAllAsString :: "buffer \<Rightarrow> (string \<times> buffer) res" where
  "retrieveAllAsString b = retrieveAsString (readableBytes b) b"

definition makeSpace :: "size_t \<Rightarrow> buffer \<Rightarrow> buffer res" where
  "makeSpace len b =
     (if writableBytes b + prependableBytes b < len + kCheapPrepend
      then rbind (vector_resize (writerIndex b + len) (buf_data b)) (\<lambda>v. Inr (b\<lparr>buf_data := v\<rparr>))
      else let readable = readableBytes b
           in rbind (std_copy (unat (readerIndex b)) (unat (writerIndex b))
                       (unat kCheapPrepend) (buf_data b)) (\<lambda>v.
                Inr (b\<lparr>buf_data := v, readerIndex := kCheapPrepend,
                       writerIndex := kCheapPrepend + readable\<rparr>)))"

definition ensureWritableBytes :: "size_t \<Rightarrow> buffer \<Rightarrow> buffer res" where
  "ensureWritableBytes len b = (if writableBytes b < len then makeSpace len b else Inr b)"

definition hasWritten :: "size_t \<Rightarrow> buffer \<Rightarrow> buffer res" where
  "hasWritten len b =
     (if len \<le> writableBytes b then Inr (b\<lparr>writerIndex := writerIndex b + len\<rparr>)
      else Inl (AssertFailed ''len <= writableBytes()''))"

text \<open>\<^verbatim>\<open>append(data, len)\<close>: \<open>data\<close> stands for the \<open>len\<close> bytes the pointer designates.\<close>

definition Buffer_append :: "string \<Rightarrow> buffer \<Rightarrow> buffer res" where
  "Buffer_append data b =
     (let len = of_nat (length data)
      in rbind (ensureWritableBytes len b) (\<lambda>b1.
         rbind (write_block (beginWrite b1) data (buf_data b1)) (\<lambda>v.
         hasWritten len (b1\<lparr>buf_data := v\<rparr>))))"

definition extrabuf_size :: nat where
  "extrabuf_size = 65536"

text \<open>
  \<^verbatim>\<open>readFd\<close>: \<^verbatim>\<open>readv\<close> fills the writable tail of the vector first and the stack buffer
  \<^verbatim>\<open>extrabuf\<close> with the rest. The result is the returned count, or the saved \<^verbatim>\<open>errno\<close>.
\<close>

definition readFd_iov :: "buffer \<Rightarrow> nat list" where
  "readFd_iov b =
     (let writable = unat (writableBytes b)
      in if writable < extrabuf_size then [writable, extrabuf_size] else [writable])"

definition readFd_store :: "string \<Rightarrow> buffer \<Rightarrow> buffer res" where
  "readFd_store bs b =
     (let writable = writableBytes b; n = of_nat (length bs) :: size_t
      in rbind (write_block (beginWrite b) (take (unat writable) bs) (buf_data b)) (\<lambda>v.
           let b1 = b\<lparr>buf_data := v\<rparr>
           in if n \<le> writable then Inr (b1\<lparr>writerIndex := writerIndex b1 + n\<rparr>)
              else Buffer_append (take (unat (n - writable)) (drop (unat writable) bs))
                     (b1\<lparr>writerIndex := of_nat (length (buf_data b1))\<rparr>)))"

definition readFd ::
  "'k kernel \<Rightarrow> fd \<Rightarrow> buffer \<Rightarrow> ('k, 'z) world_scheme \<Rightarrow>
     ((errno + nat) \<times> buffer \<times> ('k, 'z) world_scheme) res" where
  "readFd K f b w =
     (case syscall (k_readv K f (readFd_iov b)) w of
        (Inl e, w1) \<Rightarrow> Inr (Inl e, b, w1)
      | (Inr bs, w1) \<Rightarrow> rbind (readFd_store bs b) (\<lambda>b1. Inr (Inr (length bs), b1, w1)))"

section \<open>Abstraction and invariant\<close>

definition Buffer_contents :: "buffer \<Rightarrow> string" where
  "Buffer_contents b =
     subarray (unat (readerIndex b)) (unat (writerIndex b) - unat (readerIndex b)) (buf_data b)"

definition buffer_ok :: "buffer \<Rightarrow> bool" where
  "buffer_ok b \<longleftrightarrow>
     8 \<le> unat (readerIndex b) \<and> unat (readerIndex b) \<le> unat (writerIndex b) \<and>
     unat (writerIndex b) \<le> length (buf_data b) \<and> length (buf_data b) \<le> max_object_size"

section \<open>Index arithmetic under the invariant\<close>

lemma unat_size_t_of_nat: "n < 2 ^ 64 \<Longrightarrow> unat (of_nat n :: size_t) = n"
  by (simp add: unat_of_nat)

lemma max_object_lt: "n \<le> max_object_size \<Longrightarrow> n < 2 ^ 64"
  by (simp add: max_object_size_def)

lemma unat_kCheapPrepend [simp]: "unat kCheapPrepend = 8"
  by (simp add: kCheapPrepend_def)

lemma buffer_ok_bounds:
  assumes "buffer_ok b"
  shows "8 \<le> unat (readerIndex b)" and "unat (readerIndex b) \<le> unat (writerIndex b)"
    and "unat (writerIndex b) \<le> length (buf_data b)" and "length (buf_data b) \<le> max_object_size"
    and "length (buf_data b) < 2 ^ 63"
  using assms by (auto simp: buffer_ok_def max_object_size_def)

lemma unat_readableBytes:
  "buffer_ok b \<Longrightarrow> unat (readableBytes b) = unat (writerIndex b) - unat (readerIndex b)"
  by (simp add: buffer_ok_def readableBytes_def unat_sub word_le_nat_alt)

lemma unat_writableBytes:
  "buffer_ok b \<Longrightarrow> unat (writableBytes b) = length (buf_data b) - unat (writerIndex b)"
  using buffer_ok_bounds [of b]
  by (simp add: writableBytes_def unat_sub word_le_nat_alt unat_size_t_of_nat)

lemma unat_plus_size_t: "unat a + unat b < 2 ^ 64 \<Longrightarrow> unat (a + b :: size_t) = unat a + unat b"
  by (simp add: unat_word_ariths)

lemma length_contents:
  "buffer_ok b \<Longrightarrow> length (Buffer_contents b) = unat (readableBytes b)"
  by (simp add: Buffer_contents_def buffer_ok_def unat_readableBytes)

lemmas buffer_index_simps = unat_readableBytes unat_writableBytes word_less_nat_alt word_le_nat_alt

section \<open>Growing and compacting\<close>

lemma vector_resize_grow:
  assumes "length xs \<le> unat n" and "vector_resize n xs = Inr v"
  shows "v = xs @ replicate (unat n - length xs) (CHR 0x00)" and "unat n \<le> max_object_size"
  using assms by (auto simp: vector_resize_def split: if_splits)

lemma makeSpace_test:
  assumes "buffer_ok b" and "unat len \<le> max_object_size"
  shows "writableBytes b + prependableBytes b < len + kCheapPrepend \<longleftrightarrow>
         length (buf_data b) - unat (writerIndex b) + unat (readerIndex b) < unat len + 8"
proof -
  have "unat (writableBytes b + prependableBytes b) =
        length (buf_data b) - unat (writerIndex b) + unat (readerIndex b)"
    using assms(1)
    by (subst unat_plus_size_t)
      (auto simp: unat_writableBytes prependableBytes_def buffer_ok_def max_object_size_def)
  moreover have "unat (len + kCheapPrepend) = unat len + 8"
    using assms(2) by (subst unat_plus_size_t) (simp_all add: max_object_size_def)
  ultimately show ?thesis by (simp add: word_less_nat_alt)
qed

lemma makeSpace_grows:
  assumes ok: "buffer_ok b" and len: "unat len \<le> max_object_size"
    and need: "length (buf_data b) < unat (writerIndex b) + unat len"
    and grow: "writableBytes b + prependableBytes b < len + kCheapPrepend"
  shows "makeSpace len b =
    (if unat (writerIndex b) + unat len \<le> max_object_size
     then Inr (b\<lparr>buf_data := buf_data b @ replicate
            (unat (writerIndex b) + unat len - length (buf_data b)) (CHR 0x00)\<rparr>)
     else Inl LengthError)"
proof -
  have "unat (writerIndex b + len) = unat (writerIndex b) + unat len"
    using ok len by (intro unat_plus_size_t) (simp add: buffer_ok_def max_object_size_def)
  with grow need show ?thesis by (simp add: makeSpace_def vector_resize_def)
qed

lemma makeSpace_compacts:
  assumes ok: "buffer_ok b" and len: "unat len \<le> max_object_size"
    and need: "length (buf_data b) < unat (writerIndex b) + unat len"
    and room: "\<not> writableBytes b + prependableBytes b < len + kCheapPrepend"
  obtains b' where "makeSpace len b = Inr b'" and "buffer_ok b'"
    and "Buffer_contents b' = Buffer_contents b" and "length (buf_data b') = length (buf_data b)"
    and "unat (writerIndex b') + unat len \<le> length (buf_data b')"
proof -
  let ?r = "unat (readerIndex b)" and ?w = "unat (writerIndex b)" and ?L = "length (buf_data b)"
  define v where "v = overwrite 8 (subarray ?r (?w - ?r) (buf_data b)) (buf_data b)"
  define b' where "b' = b\<lparr>buf_data := v, readerIndex := kCheapPrepend,
                           writerIndex := kCheapPrepend + readableBytes b\<rparr>"
  note bounds = buffer_ok_bounds [OF ok]
  have fits: "unat len + 8 \<le> ?L - ?w + ?r"
    using room makeSpace_test [OF ok len] by simp
  then have r8: "8 < ?r" using need bounds by linarith
  have copy: "std_copy ?r ?w 8 (buf_data b) = Inr v"
    using bounds r8 by (simp add: std_copy_def v_def copy_within_forward)
  have lv: "length v = ?L" using bounds r8 by (simp add: v_def)
  have uw: "unat (kCheapPrepend + readableBytes b) = 8 + (?w - ?r)"
    using bounds by (subst unat_plus_size_t) (simp_all add: unat_readableBytes ok max_object_size_def)
  have "makeSpace len b = Inr b'"
    using room copy by (simp add: makeSpace_def b'_def Let_def)
  moreover have "buffer_ok b'" using bounds r8 lv uw by (auto simp: b'_def buffer_ok_def)
  moreover have "Buffer_contents b' = Buffer_contents b"
    using bounds r8 subarray_overwrite_same [of 8 "subarray ?r (?w - ?r) (buf_data b)" "buf_data b"]
    by (simp add: b'_def Buffer_contents_def uw v_def)
  moreover have "unat (writerIndex b') + unat len \<le> length (buf_data b')"
    using fits bounds r8 lv uw by (simp add: b'_def)
  ultimately show thesis using that lv by (simp add: b'_def)
qed

text \<open>
  \<^verbatim>\<open>ensureWritableBytes\<close> on a well-formed buffer: it fails only by the vector's length limit,
  and otherwise gives the room asked for without changing the queued bytes; it grows the
  vector only when moving the bytes to the front would not do.
\<close>

lemma ensureWritableBytes_cases:
  assumes ok: "buffer_ok b" and len: "unat len \<le> max_object_size"
  obtains (room) b' where "ensureWritableBytes len b = Inr b'" and "buffer_ok b'"
      and "Buffer_contents b' = Buffer_contents b"
      and "unat (writerIndex b') + unat len \<le> length (buf_data b')"
      and "length (buf_data b') = length (buf_data b) \<or>
           length (buf_data b') = unat (writerIndex b) + unat len"
    | (too_long) "ensureWritableBytes len b = Inl LengthError"
      and "max_object_size < unat (writerIndex b) + unat len"
proof -
  let ?w = "unat (writerIndex b)" and ?L = "length (buf_data b)"
  note bounds = buffer_ok_bounds [OF ok]
  have test: "writableBytes b < len \<longleftrightarrow> ?L < ?w + unat len"
    using bounds by (auto simp: word_less_nat_alt unat_writableBytes [OF ok])
  consider (enough) "\<not> writableBytes b < len"
    | (compact) "writableBytes b < len" "\<not> writableBytes b + prependableBytes b < len + kCheapPrepend"
    | (grow) "writableBytes b < len" "writableBytes b + prependableBytes b < len + kCheapPrepend"
    by blast
  then show thesis
  proof cases
    case enough
    then show thesis using room [of b] ok test by (simp add: ensureWritableBytes_def)
  next
    case compact
    then have need: "?L < ?w + unat len" using test by simp
    show thesis
      using makeSpace_compacts [OF ok len need compact(2)] compact(1) room
      by (metis ensureWritableBytes_def)
  next
    case grow
    then have need: "?L < ?w + unat len" using test by simp
    let ?b = "b\<lparr>buf_data := buf_data b @ replicate (?w + unat len - ?L) (CHR 0x00)\<rparr>"
    have eq: "ensureWritableBytes len b = (if ?w + unat len \<le> max_object_size then Inr ?b else Inl LengthError)"
      using makeSpace_grows [OF ok len need grow(2)] grow(1) by (simp add: ensureWritableBytes_def)
    show thesis
    proof (cases "?w + unat len \<le> max_object_size")
      case True
      then show thesis using eq room [of ?b] bounds need
        by (simp add: buffer_ok_def Buffer_contents_def subarray_append_prefix)
    next
      case False
      then show thesis using eq too_long by simp
    qed
  qed
qed

section \<open>The operations as queue operations\<close>

lemma Buffer_new_ok:
  assumes "unat n + 8 \<le> max_object_size"
  obtains b where "Buffer_new n = Inr b" and "buffer_ok b" and "Buffer_contents b = []"
proof -
  have "unat (kCheapPrepend + n) = 8 + unat n"
    using assms by (subst unat_plus_size_t) (simp_all add: max_object_size_def)
  then show thesis
    using that assms
    by (simp add: Buffer_new_def vector_make_def buffer_ok_def Buffer_contents_def)
qed

lemma retrieveAll_ok:
  assumes "buffer_ok b"
  shows "buffer_ok (retrieveAll b)" and "Buffer_contents (retrieveAll b) = []"
  using assms by (simp_all add: retrieveAll_def buffer_ok_def Buffer_contents_def)

lemma retrieve_ok:
  assumes ok: "buffer_ok b"
  shows "buffer_ok (retrieve len b)"
    and "Buffer_contents (retrieve len b) = drop (unat len) (Buffer_contents b)"
proof -
  note bounds = buffer_ok_bounds [OF ok]
  have "buffer_ok (retrieve len b) \<and>
        Buffer_contents (retrieve len b) = drop (unat len) (Buffer_contents b)"
  proof (cases "len < readableBytes b")
    case True
    then have lt: "unat len < unat (writerIndex b) - unat (readerIndex b)"
      by (simp add: word_less_nat_alt unat_readableBytes [OF ok])
    then have "unat (readerIndex b + len) = unat (readerIndex b) + unat len"
      using bounds by (intro unat_plus_size_t) (simp add: max_object_size_def)
    with True lt bounds show ?thesis
      by (simp add: retrieve_def buffer_ok_def Buffer_contents_def subarray_drop)
  next
    case False
    then have "length (Buffer_contents b) \<le> unat len"
      by (simp add: length_contents ok word_less_nat_alt)
    with False show ?thesis by (simp add: retrieve_def retrieveAll_ok ok)
  qed
  then show "buffer_ok (retrieve len b)"
    and "Buffer_contents (retrieve len b) = drop (unat len) (Buffer_contents b)" by auto
qed

lemma unat_min_word: "unat (min a b :: size_t) = min (unat a) (unat b)"
  by (simp add: min_def word_le_nat_alt)

lemma retrieveAsString_ok:
  assumes ok: "buffer_ok b"
  shows "retrieveAsString len b =
         Inr (take (unat len) (Buffer_contents b), retrieve (min len (readableBytes b)) b)"
proof -
  let ?r = "unat (readerIndex b)" and ?w = "unat (writerIndex b)"
  note bounds = buffer_ok_bounds [OF ok]
  have n: "unat (min len (readableBytes b)) = min (unat len) (?w - ?r)"
    by (simp add: unat_min_word unat_readableBytes ok)
  have "read_block ?r (min (unat len) (?w - ?r)) (buf_data b) = Inr (take (unat len) (Buffer_contents b))"
    using bounds by (auto simp: read_block_def Buffer_contents_def subarray_def min_def)
  then show ?thesis by (simp add: retrieveAsString_def Buffer_peek_def n Let_def)
qed

lemma retrieveAsString_rest:
  assumes ok: "buffer_ok b"
  shows "drop (unat (min len (readableBytes b))) (Buffer_contents b) = drop (unat len) (Buffer_contents b)"
  by (auto simp: unat_min_word length_contents [OF ok] min_def word_le_nat_alt)

lemma contents_extend:
  assumes ok: "buffer_ok b" and fits: "unat (writerIndex b) + length bs \<le> length (buf_data b)"
  defines "b' \<equiv> b\<lparr>buf_data := overwrite (unat (writerIndex b)) bs (buf_data b),
                    writerIndex := writerIndex b + of_nat (length bs)\<rparr>"
  shows "buffer_ok b'" and "Buffer_contents b' = Buffer_contents b @ bs"
    and "unat (writerIndex b') = unat (writerIndex b) + length bs"
proof -
  let ?r = "unat (readerIndex b)" and ?w = "unat (writerIndex b)"
  let ?v = "overwrite ?w bs (buf_data b)"
  note bounds = buffer_ok_bounds [OF ok]
  have len: "unat (of_nat (length bs) :: size_t) = length bs"
    using bounds fits by (intro unat_size_t_of_nat) simp
  have w': "unat (writerIndex b + of_nat (length bs)) = ?w + length bs"
    using bounds fits len by (subst unat_plus_size_t) simp_all
  then show "unat (writerIndex b') = ?w + length bs" by (simp add: b'_def)
  show "buffer_ok b'" using bounds fits w' by (auto simp: b'_def buffer_ok_def)
  have "Buffer_contents b' = subarray ?r (?w - ?r) ?v @ subarray (?r + (?w - ?r)) (length bs) ?v"
    using bounds unfolding subarray_append by (simp add: b'_def Buffer_contents_def w')
  also have "subarray ?r (?w - ?r) ?v = Buffer_contents b"
    using bounds fits by (simp add: Buffer_contents_def subarray_overwrite_below)
  also have "subarray (?r + (?w - ?r)) (length bs) ?v = bs"
    using bounds fits by (simp add: subarray_overwrite_same)
  finally show "Buffer_contents b' = Buffer_contents b @ bs" .
qed

lemma Buffer_append_ok:
  assumes ok: "buffer_ok b" and data: "length data \<le> max_object_size"
  obtains (appended) b' where "Buffer_append data b = Inr b'" and "buffer_ok b'"
      and "Buffer_contents b' = Buffer_contents b @ data"
    | (too_long) "Buffer_append data b = Inl LengthError"
      and "max_object_size < unat (writerIndex b) + length data"
proof -
  let ?len = "of_nat (length data) :: size_t"
  have len: "unat ?len = length data" by (rule unat_size_t_of_nat [OF max_object_lt [OF data]])
  then have lenle: "unat ?len \<le> max_object_size" using data by simp
  show thesis
  proof (rule ensureWritableBytes_cases [OF ok lenle], goal_cases)
    case (1 b1)
    let ?v = "overwrite (unat (writerIndex b1)) data (buf_data b1)"
    have fits: "unat (writerIndex b1) + length data \<le> length (buf_data b1)" using 1(4) len by simp
    have "buffer_ok (b1\<lparr>buf_data := ?v\<rparr>)" using 1(2) fits by (simp add: buffer_ok_def)
    then have "?len \<le> writableBytes (b1\<lparr>buf_data := ?v\<rparr>)"
      using fits len by (simp add: word_le_nat_alt unat_writableBytes)
    then have "Buffer_append data b =
        Inr (b1\<lparr>buf_data := ?v, writerIndex := writerIndex b1 + ?len\<rparr>)"
      using 1(1) fits by (simp add: Buffer_append_def Let_def beginWrite_def write_block_def hasWritten_def)
    then show thesis
      using contents_extend [OF 1(2) fits] 1(3) by (intro appended) simp_all
  next
    case 2
    then show thesis using too_long len by (simp add: Buffer_append_def Let_def)
  qed
qed

lemma Buffer_append_total:
  assumes "buffer_ok b" and "unat (writerIndex b) + length data \<le> max_object_size"
  shows "\<exists>b'. Buffer_append data b = Inr b'"
  by (rule Buffer_append_ok [OF assms(1), of data]) (use assms(2) in auto)

lemma readFd_store_ok:
  assumes ok: "buffer_ok b" and bs: "length bs \<le> sum_list (readFd_iov b)"
  obtains (stored) b' where "readFd_store bs b = Inr b'" and "buffer_ok b'"
      and "Buffer_contents b' = Buffer_contents b @ bs"
    | (too_long) "readFd_store bs b = Inl LengthError"
      and "max_object_size < unat (writerIndex b) + length bs"
proof -
  let ?w = "unat (writerIndex b)" and ?W = "length (buf_data b) - unat (writerIndex b)"
  note bounds = buffer_ok_bounds [OF ok]
  have W: "unat (writableBytes b) = ?W" by (rule unat_writableBytes [OF ok])
  have small: "length bs \<le> ?W + 65536"
    using bs by (simp add: readFd_iov_def W extrabuf_size_def Let_def split: if_splits)
  then have n: "unat (of_nat (length bs) :: size_t) = length bs"
    using bounds by (intro unat_size_t_of_nat) simp
  show thesis
  proof (cases "length bs \<le> ?W")
    case True
    then have fits: "?w + length bs \<le> length (buf_data b)" using bounds by linarith
    have "readFd_store bs b = Inr (b\<lparr>buf_data := overwrite ?w bs (buf_data b),
            writerIndex := writerIndex b + of_nat (length bs)\<rparr>)"
      using True fits by (simp add: readFd_store_def Let_def W beginWrite_def write_block_def
          word_le_nat_alt n)
    then show thesis using contents_extend [OF ok fits] by (intro stored) simp_all
  next
    case False
    let ?bs = "take ?W bs" and ?rest = "drop ?W bs"
    let ?v = "overwrite ?w ?bs (buf_data b)"
    let ?b1 = "b\<lparr>buf_data := ?v, writerIndex := of_nat (length (buf_data b))\<rparr>"
    have lbs: "length ?bs = ?W" using False by simp
    have fits: "?w + length ?bs \<le> length (buf_data b)" using bounds lbs by linarith
    have idx: "writerIndex b + of_nat (length ?bs) = of_nat (length (buf_data b))"
      using bounds lbs
      by (intro word_unat_eq_iff [THEN iffD2]) (simp add: contents_extend(3) [OF ok fits, simplified]
          unat_size_t_of_nat)
    have b1: "buffer_ok ?b1" "Buffer_contents ?b1 = Buffer_contents b @ ?bs"
      "unat (writerIndex ?b1) = length (buf_data b)"
      using contents_extend [OF ok fits] idx lbs bounds by simp_all
    have sub: "unat (of_nat (length bs) - writableBytes b) = length bs - ?W"
      using False by (subst unat_sub) (simp_all add: word_le_nat_alt n W)
    have eq: "readFd_store bs b = Buffer_append ?rest ?b1"
      using False fits
      by (simp add: readFd_store_def Let_def W beginWrite_def write_block_def word_le_nat_alt n sub)
    have "length ?rest \<le> max_object_size" using small by (simp add: max_object_size_def)
    then show thesis
    proof (rule Buffer_append_ok [OF b1(1)], goal_cases)
      case (1 b')
      then show thesis using eq b1(2) by (intro stored [of b']) simp_all
    next
      case 2
      then show thesis using eq b1(3) bounds False by (intro too_long) simp_all
    qed
  qed
qed

section \<open>The queue interface\<close>

text \<open>
  What a connection relies on: appending queues bytes at the back, retrieving removes them
  from the front, and both keep the buffer well-formed. Failure to append is allowed
  (\<^verbatim>\<open>std::length_error\<close>); nothing else may fail.
\<close>

locale byte_queue =
  fixes put :: "string \<Rightarrow> 'b \<Rightarrow> 'b res"
    and skip :: "size_t \<Rightarrow> 'b \<Rightarrow> 'b"
    and get :: "size_t \<Rightarrow> 'b \<Rightarrow> (string \<times> 'b) res"
    and count :: "'b \<Rightarrow> size_t"
    and queued :: "'b \<Rightarrow> string"
    and invar :: "'b \<Rightarrow> bool"
  assumes put_invar: "invar b \<Longrightarrow> length d \<le> max_object_size \<Longrightarrow> put d b = Inr b' \<Longrightarrow> invar b'"
    and put_queued: "invar b \<Longrightarrow> length d \<le> max_object_size \<Longrightarrow> put d b = Inr b' \<Longrightarrow>
          queued b' = queued b @ d"
    and put_error: "invar b \<Longrightarrow> length d \<le> max_object_size \<Longrightarrow> put d b = Inl e \<Longrightarrow> e = LengthError"
    and skip_invar: "invar b \<Longrightarrow> invar (skip n b)"
    and skip_queued: "invar b \<Longrightarrow> queued (skip n b) = drop (unat n) (queued b)"
    and get_eq: "invar b \<Longrightarrow> \<exists>b'. get n b = Inr (take (unat n) (queued b), b') \<and> invar b' \<and>
          queued b' = drop (unat n) (queued b)"
    and count_queued: "invar b \<Longrightarrow> unat (count b) = length (queued b)"
begin

lemma get_invar: "invar b \<Longrightarrow> get n b = Inr (s, b') \<Longrightarrow> invar b'"
  using get_eq [of b n] by auto

lemma get_queued: "invar b \<Longrightarrow> get n b = Inr (s, b') \<Longrightarrow> s @ queued b' = queued b"
  using get_eq [of b n] by auto

lemma get_all: "invar b \<Longrightarrow> get (count b) b = Inr (s, b') \<Longrightarrow> s = queued b \<and> queued b' = []"
  using get_eq [of b "count b"] by (auto simp: count_queued)

lemma skip_all: "invar b \<Longrightarrow> queued (skip (count b) b) = []"
  by (simp add: skip_queued count_queued)

lemma put_then_get:
  assumes "invar b" and "length d \<le> max_object_size" and "queued b = []"
    and "put d b = Inr b1" and "get (count b1) b1 = Inr (s, b2)"
  shows "s = d"
  using get_all [OF put_invar [OF assms(1,2,4)] assms(5)] put_queued [OF assms(1,2,4)] assms(3)
  by simp

lemma count_zero: "invar b \<Longrightarrow> count b = 0 \<longleftrightarrow> queued b = []"
  using count_queued [of b] by (auto simp: unat_eq_0 [symmetric])

end

interpretation buf: byte_queue Buffer_append retrieve retrieveAsString readableBytes
  Buffer_contents buffer_ok
proof unfold_locales
  fix b b' :: buffer and d n e
  assume ok: "buffer_ok b"
  show "Buffer_append d b = Inr b' \<Longrightarrow> length d \<le> max_object_size \<Longrightarrow> buffer_ok b'"
    and "Buffer_append d b = Inr b' \<Longrightarrow> length d \<le> max_object_size \<Longrightarrow>
      Buffer_contents b' = Buffer_contents b @ d"
    and "Buffer_append d b = Inl e \<Longrightarrow> length d \<le> max_object_size \<Longrightarrow> e = LengthError"
    by (cases rule: Buffer_append_ok [OF ok, of d]; simp)+
qed (auto simp: retrieve_ok retrieveAsString_ok retrieveAsString_rest length_contents)

section \<open>Runs of buffer operations\<close>

datatype buffer_op =
    OpAppend string
  | OpRetrieve size_t
  | OpRetrieveAll
  | OpRetrieveAsString size_t
  | OpRetrieveAllAsString
  | OpEnsureWritableBytes size_t

text \<open>One call on the buffer; the string is what the call returns.\<close>

fun buffer_step :: "buffer_op \<Rightarrow> buffer \<Rightarrow> (string \<times> buffer) res" where
  "buffer_step (OpAppend d) b = rbind (Buffer_append d b) (\<lambda>b'. Inr ([], b'))"
| "buffer_step (OpRetrieve n) b = Inr ([], retrieve n b)"
| "buffer_step OpRetrieveAll b = Inr ([], retrieveAll b)"
| "buffer_step (OpRetrieveAsString n) b = retrieveAsString n b"
| "buffer_step OpRetrieveAllAsString b = retrieveAllAsString b"
| "buffer_step (OpEnsureWritableBytes n) b = rbind (ensureWritableBytes n b) (\<lambda>b'. Inr ([], b'))"

text \<open>The same call on a plain queue of bytes.\<close>

fun queue_step :: "buffer_op \<Rightarrow> string \<Rightarrow> string \<times> string" where
  "queue_step (OpAppend d) q = ([], q @ d)"
| "queue_step (OpRetrieve n) q = ([], drop (unat n) q)"
| "queue_step OpRetrieveAll q = ([], [])"
| "queue_step (OpRetrieveAsString n) q = (take (unat n) q, drop (unat n) q)"
| "queue_step OpRetrieveAllAsString q = (q, [])"
| "queue_step (OpEnsureWritableBytes n) q = ([], q)"

fun buffer_run :: "buffer_op list \<Rightarrow> buffer \<Rightarrow> (string list \<times> buffer) res" where
  "buffer_run [] b = Inr ([], b)"
| "buffer_run (x # xs) b =
     rbind (buffer_step x b) (\<lambda>(out, b1). rbind (buffer_run xs b1) (\<lambda>(outs, b2). Inr (out # outs, b2)))"

fun queue_run :: "buffer_op list \<Rightarrow> string \<Rightarrow> string list \<times> string" where
  "queue_run [] q = ([], q)"
| "queue_run (x # xs) q =
     (let (out, q1) = queue_step x q; (outs, q2) = queue_run xs q1 in (out # outs, q2))"

text \<open>Sizes a C++ caller can pass: no object is larger than \<^verbatim>\<open>PTRDIFF_MAX\<close>.\<close>

fun buffer_op_ok :: "buffer_op \<Rightarrow> bool" where
  "buffer_op_ok (OpAppend d) \<longleftrightarrow> length d \<le> max_object_size"
| "buffer_op_ok (OpEnsureWritableBytes n) \<longleftrightarrow> unat n \<le> max_object_size"
| "buffer_op_ok _ \<longleftrightarrow> True"

text \<open>The room a call may ask the vector for.\<close>

fun buffer_op_bytes :: "buffer_op \<Rightarrow> nat" where
  "buffer_op_bytes (OpAppend d) = length d"
| "buffer_op_bytes (OpEnsureWritableBytes n) = unat n"
| "buffer_op_bytes _ = 0"

lemma retrieveAllAsString_ok:
  "buffer_ok b \<Longrightarrow> retrieveAllAsString b = Inr (Buffer_contents b, retrieve (readableBytes b) b)"
  by (simp add: retrieveAllAsString_def retrieveAsString_ok length_contents)

lemma ensureWritableBytes_ok:
  assumes "buffer_ok b" and "unat n \<le> max_object_size" and "ensureWritableBytes n b = Inr b'"
  shows "buffer_ok b' \<and> Buffer_contents b' = Buffer_contents b"
  by (rule ensureWritableBytes_cases [OF assms(1,2)]) (use assms(3) in auto)

lemma ensureWritableBytes_error:
  assumes "buffer_ok b" and "unat n \<le> max_object_size" and "ensureWritableBytes n b = Inl e"
  shows "e = LengthError"
  by (rule ensureWritableBytes_cases [OF assms(1,2)]) (use assms(3) in auto)

lemma buffer_step_refines:
  assumes "buffer_ok b" and "buffer_op_ok x" and "buffer_step x b = Inr (out, b')"
  shows "buffer_ok b' \<and> queue_step x (Buffer_contents b) = (out, Buffer_contents b')"
  using assms
  by (cases x)
    (auto simp: rbind_eq_Inr retrieve_ok retrieveAll_ok retrieveAsString_ok retrieveAsString_rest
      retrieveAllAsString_ok length_contents dest: ensureWritableBytes_ok
      intro: buf.put_invar buf.put_queued [symmetric])

lemma buffer_step_error:
  assumes "buffer_ok b" and "buffer_op_ok x" and "buffer_step x b = Inl e"
  shows "e = LengthError"
  using assms
  by (cases x)
    (auto simp: rbind_eq_Inl retrieveAsString_ok retrieveAllAsString_ok
      intro: buf.put_error ensureWritableBytes_error)

lemma buffer_run_refines:
  assumes "buffer_ok b" and "list_all buffer_op_ok xs" and "buffer_run xs b = Inr (outs, b')"
  shows "buffer_ok b' \<and> queue_run xs (Buffer_contents b) = (outs, Buffer_contents b')"
  using assms
proof (induction xs arbitrary: b outs)
  case (Cons x xs)
  then obtain out b1 outs1 where step: "buffer_step x b = Inr (out, b1)"
    and run: "buffer_run xs b1 = Inr (outs1, b')" and outs: "outs = out # outs1"
    by (auto simp: rbind_eq_Inr)
  have b1: "buffer_ok b1 \<and> queue_step x (Buffer_contents b) = (out, Buffer_contents b1)"
    using buffer_step_refines Cons.prems step by auto
  with Cons.IH [OF _ _ run] Cons.prems show ?case by (simp add: outs)
qed simp

lemma buffer_run_error:
  assumes "buffer_ok b" and "list_all buffer_op_ok xs" and "buffer_run xs b = Inl e"
  shows "e = LengthError"
  using assms
proof (induction xs arbitrary: b)
  case (Cons x xs)
  show ?case
  proof (cases "buffer_step x b")
    case (Inl a)
    then show ?thesis using buffer_step_error [OF Cons.prems(1) _ Inl] Cons.prems by simp
  next
    case (Inr p)
    obtain out b1 where p: "p = (out, b1)" by (cases p)
    then have "buffer_ok b1" using buffer_step_refines [OF Cons.prems(1), of x out b1] Cons.prems Inr by simp
    then show ?thesis using Cons Inr p by (auto simp: rbind_eq_Inl)
  qed
qed simp


section \<open>Running without failure\<close>

lemma unat_plus_le: "unat (a + b :: size_t) \<le> unat a + unat b"
  by (simp add: unat_word_ariths)

lemma ensureWritableBytes_writer:
  assumes "buffer_ok b" and "ensureWritableBytes n b = Inr b'"
  shows "unat (writerIndex b') \<le> unat (writerIndex b)"
proof -
  have "unat (kCheapPrepend + readableBytes b) \<le> 8 + (unat (writerIndex b) - unat (readerIndex b))"
    using unat_plus_le [of kCheapPrepend "readableBytes b"] by (simp add: unat_readableBytes assms(1))
  then show ?thesis
    using assms(2) buffer_ok_bounds(1,2) [OF assms(1)]
    by (auto simp: ensureWritableBytes_def makeSpace_def Let_def rbind_eq_Inr split: if_splits)
qed

lemma Buffer_append_writer:
  assumes ok: "buffer_ok b" and "Buffer_append d b = Inr b'" and "length d \<le> max_object_size"
  shows "unat (writerIndex b') \<le> unat (writerIndex b) + length d"
proof -
  obtain b1 where b1: "ensureWritableBytes (of_nat (length d)) b = Inr b1"
    and w: "writerIndex b' = writerIndex b1 + of_nat (length d)"
    using assms(2) by (auto simp: Buffer_append_def Let_def hasWritten_def rbind_eq_Inr split: if_splits)
  then show ?thesis
    using ensureWritableBytes_writer [OF ok b1] unat_plus_le [of "writerIndex b1" "of_nat (length d)"]
      unat_size_t_of_nat [OF max_object_lt [OF assms(3)]] by simp
qed

lemma retrieve_writer: "buffer_ok b \<Longrightarrow> unat (writerIndex (retrieve n b)) \<le> unat (writerIndex b)"
  by (auto simp: retrieve_def retrieveAll_def buffer_ok_def)

lemma buffer_step_writer:
  assumes "buffer_ok b" and "buffer_op_ok x" and "buffer_step x b = Inr (out, b')"
  shows "unat (writerIndex b') \<le> unat (writerIndex b) + buffer_op_bytes x"
  using assms buffer_ok_bounds(1,2) [OF assms(1)]
  by (cases x)
    (auto simp: rbind_eq_Inr retrieveAsString_ok retrieveAllAsString_ok retrieveAll_def
      intro: retrieve_writer Buffer_append_writer
      dest: ensureWritableBytes_writer [OF assms(1)])

lemma buffer_step_total:
  assumes "buffer_ok b" and "unat (writerIndex b) + buffer_op_bytes x \<le> max_object_size"
  shows "\<exists>out b'. buffer_step x b = Inr (out, b')"
proof (cases x)
  case (OpAppend d)
  then show ?thesis using Buffer_append_total [OF assms(1), of d] assms(2) by auto
next
  case (OpEnsureWritableBytes n)
  have n: "unat n \<le> max_object_size" using assms(2) OpEnsureWritableBytes by simp
  show ?thesis
    by (rule ensureWritableBytes_cases [OF assms(1) n]) (use OpEnsureWritableBytes assms(2) in auto)
qed (auto simp: retrieveAsString_ok retrieveAllAsString_ok assms(1))

lemma buffer_op_ok_bytes: "buffer_op_bytes x \<le> max_object_size \<Longrightarrow> buffer_op_ok x"
  by (cases x) simp_all

lemma buffer_run_total:
  assumes "buffer_ok b" and "unat (writerIndex b) + sum_list (map buffer_op_bytes xs) \<le> max_object_size"
  shows "\<exists>outs b'. buffer_run xs b = Inr (outs, b')"
  using assms
proof (induction xs arbitrary: b)
  case (Cons x xs)
  then have le: "unat (writerIndex b) + buffer_op_bytes x \<le> max_object_size" by simp
  then have ok: "buffer_op_ok x" by (intro buffer_op_ok_bytes) simp
  from buffer_step_total [OF Cons.prems(1) le] obtain out b1 where
    step: "buffer_step x b = Inr (out, b1)" by blast
  have "buffer_ok b1" using buffer_step_refines [OF Cons.prems(1) ok step] by simp
  moreover have "unat (writerIndex b1) + sum_list (map buffer_op_bytes xs) \<le> max_object_size"
    using buffer_step_writer [OF Cons.prems(1) ok step] Cons.prems(2) by simp
  ultimately obtain outs b2 where "buffer_run xs b1 = Inr (outs, b2)" using Cons.IH by blast
  then show ?case using step by simp
qed simp

lemma Buffer_new_writer: "Buffer_new n = Inr b \<Longrightarrow> unat (writerIndex b) = 8"
  by (auto simp: Buffer_new_def rbind_eq_Inr)

lemma buffer_ops_ok:
  "sum_list (map buffer_op_bytes xs) \<le> max_object_size \<Longrightarrow> list_all buffer_op_ok xs"
  by (induction xs) (auto intro: buffer_op_ok_bytes)


section \<open>Properties\<close>

text \<open>
  C2: A fresh buffer is a FIFO queue of bytes. Any sequence of appends, retrievals and
  reservations on a buffer of \<open>n\<close> initial bytes runs to the end (as long as all the room
  asked for fits into a \<^verbatim>\<open>std::vector\<close>), returns what the same calls on an unbounded queue
  return, leaves the queue's bytes between the indices, and keeps the indices in order.
\<close>

theorem buffer_is_fifo_queue:
  assumes "unat n + 8 \<le> max_object_size"
    and "sum_list (map buffer_op_bytes xs) + 8 \<le> max_object_size"
  shows "\<exists>b outs b'. Buffer_new n = Inr b \<and> buffer_run xs b = Inr (outs, b') \<and> buffer_ok b' \<and>
    queue_run xs [] = (outs, Buffer_contents b')"
proof -
  obtain b where b: "Buffer_new n = Inr b" "buffer_ok b" "Buffer_contents b = []"
    by (rule Buffer_new_ok [OF assms(1)])
  then obtain outs b' where run: "buffer_run xs b = Inr (outs, b')"
    using buffer_run_total [OF b(2), of xs] Buffer_new_writer [OF b(1)] assms(2) by auto
  have "list_all buffer_op_ok xs" using buffer_ops_ok [of xs] assms(2) by simp
  from buffer_run_refines [OF b(2) this run] show ?thesis using b run by auto
qed

theorem buffer_is_fifo_queue_witness:
  "\<exists>b outs b'. Buffer_new 4 = Inr b \<and>
    buffer_run [OpAppend ''hello'', OpRetrieveAsString 2, OpAppend '' world'', OpRetrieveAllAsString] b =
      Inr (outs, b') \<and> buffer_ok b' \<and>
    outs = [[], ''he'', [], ''llo world''] \<and> Buffer_contents b' = []"
  using buffer_is_fifo_queue [of 4
      "[OpAppend ''hello'', OpRetrieveAsString 2, OpAppend '' world'', OpRetrieveAllAsString]"]
  by (auto simp: max_object_size_def)



text \<open>
  C12: \<^verbatim>\<open>readFd\<close> appends exactly the bytes \<^verbatim>\<open>readv\<close> delivered, in order, whether they fit
  into the vector or spill over into the stack buffer, and returns their number; when the
  call fails it reports its \<^verbatim>\<open>errno\<close> and leaves the buffer alone. It can only fail by the
  length limit of the vector.
\<close>

theorem readFd_appends_input:
  assumes "readv_spec K" and "buffer_ok b"
  shows "case k_readv K f (readFd_iov b) (w_kern w) of
      (Inl e, k) \<Rightarrow> \<exists>w'. readFd K f b w = Inr (Inl e, b, w') \<and> w_errno w' = e \<and> w_kern w' = k
    | (Inr bs, k) \<Rightarrow> (\<exists>b' w'. readFd K f b w = Inr (Inr (length bs), b', w') \<and> buffer_ok b' \<and>
          Buffer_contents b' = Buffer_contents b @ bs \<and> w_kern w' = k) \<or>
        readFd K f b w = Inl LengthError \<and> max_object_size < unat (writerIndex b) + length bs"
proof (cases "k_readv K f (readFd_iov b) (w_kern w)")
  case (Pair r k)
  show ?thesis
  proof (cases r)
    case (Inl e)
    then show ?thesis using Pair by (simp add: readFd_def syscall_def)
  next
    case (Inr bs)
    then have "length bs \<le> sum_list (readFd_iov b)" using assms(1) Pair unfolding readv_spec_def by blast
    then show ?thesis
      by (rule readFd_store_ok [OF assms(2)]) (simp_all add: readFd_def syscall_def Pair Inr)
  qed
qed

theorem readFd_appends_input_witness:
  "\<exists>b' w'. readFd sim_kernel 5 \<lparr>buf_data = replicate 10 (CHR ''x''), readerIndex = 8, writerIndex = 9\<rparr>
      \<lparr>w_kern = sim_init\<lparr>si_input := (\<lambda>_. ''hello'')\<rparr>, w_errno = 0, w_log = [], w_thread = 1\<rparr>
     = Inr (Inr 5, b', w') \<and> Buffer_contents b' = ''xhello''"
proof -
  let ?b = "\<lparr>buf_data = replicate 10 (CHR ''x''), readerIndex = 8, writerIndex = 9\<rparr> :: buffer"
  let ?w = "\<lparr>w_kern = sim_init\<lparr>si_input := (\<lambda>_. ''hello'')\<rparr>, w_errno = 0, w_log = [], w_thread = 1\<rparr> :: sim world"
  have ok: "buffer_ok ?b" by (simp add: buffer_ok_def max_object_size_def)
  have iov: "readFd_iov ?b = [1, 65536]"
    by (simp add: readFd_iov_def writableBytes_def extrabuf_size_def Let_def)
  have kern: "k_readv sim_kernel 5 (readFd_iov ?b) (w_kern ?w) =
      (Inr ''hello'', sim_init\<lparr>si_input := (\<lambda>_. ''hello'')(5 := []), si_received := (\<lambda>_. [])(5 := ''hello'')\<rparr>)"
    unfolding iov by (simp add: sim_kernel_def sim_readv_def Let_def sim_init_def)
  have "Buffer_contents ?b = ''x''" by (simp add: Buffer_contents_def subarray_def)
  then show ?thesis
    using readFd_appends_input [OF sim_readv_spec ok, of 5 ?w] unfolding kern
    by (auto simp: max_object_size_def)
qed

text \<open>
  C25: \<^verbatim>\<open>ensureWritableBytes\<close> makes the room it is asked for and moves no byte out of order;
  the vector grows only when the free space in front of and behind the data, less the
  reserved prefix, is too small, and then to exactly the writer index plus the request.
\<close>

theorem ensureWritableBytes_room:
  assumes "buffer_ok b" and "unat (writerIndex b) + unat len \<le> max_object_size"
  shows "\<exists>b'. ensureWritableBytes len b = Inr b' \<and> buffer_ok b' \<and>
    Buffer_contents b' = Buffer_contents b \<and> unat len \<le> unat (writableBytes b') \<and>
    length (buf_data b') =
      (if length (Buffer_contents b) + unat len + 8 \<le> length (buf_data b) \<or>
          unat (writerIndex b) + unat len \<le> length (buf_data b)
       then length (buf_data b) else unat (writerIndex b) + unat len)"
proof -
  have len: "unat len \<le> max_object_size" using assms(2) by simp
  note bounds = buffer_ok_bounds [OF assms(1)]
  have lc: "length (Buffer_contents b) = unat (writerIndex b) - unat (readerIndex b)"
    by (simp add: length_contents unat_readableBytes assms(1))
  have test: "writableBytes b < len \<longleftrightarrow> length (buf_data b) < unat (writerIndex b) + unat len"
    using bounds by (auto simp: word_less_nat_alt unat_writableBytes [OF assms(1)])
  show ?thesis
  proof (cases "writableBytes b < len")
    case False
    then have "ensureWritableBytes len b = Inr b" by (simp add: ensureWritableBytes_def)
    moreover have "unat (writerIndex b) + unat len \<le> length (buf_data b)" using False test by simp
    ultimately show ?thesis using assms(1) bounds by (auto simp: unat_writableBytes)
  next
    case True
    then have need: "length (buf_data b) < unat (writerIndex b) + unat len" using test by simp
    show ?thesis
    proof (cases "writableBytes b + prependableBytes b < len + kCheapPrepend")
      case grow: True
      let ?b = "b\<lparr>buf_data := buf_data b @ replicate
            (unat (writerIndex b) + unat len - length (buf_data b)) (CHR 0x00)\<rparr>"
      have "\<not> length (Buffer_contents b) + unat len + 8 \<le> length (buf_data b)"
        using grow bounds lc unfolding makeSpace_test [OF assms(1) len] by linarith
      moreover have "ensureWritableBytes len b = Inr ?b"
        using makeSpace_grows [OF assms(1) len need grow] True assms(2) by (simp add: ensureWritableBytes_def)
      moreover have "buffer_ok ?b" using assms need by (simp add: buffer_ok_def)
      moreover have "Buffer_contents ?b = Buffer_contents b"
        using bounds by (simp add: Buffer_contents_def subarray_append_prefix)
      ultimately show ?thesis using need by (auto simp: unat_writableBytes)
    next
      case False
      have "length (Buffer_contents b) + unat len + 8 \<le> length (buf_data b)"
        using False bounds lc unfolding makeSpace_test [OF assms(1) len] by linarith
      moreover obtain b' where "makeSpace len b = Inr b'" "buffer_ok b'"
        "Buffer_contents b' = Buffer_contents b" "length (buf_data b') = length (buf_data b)"
        "unat (writerIndex b') + unat len \<le> length (buf_data b')"
        by (rule makeSpace_compacts [OF assms(1) len need False])
      ultimately show ?thesis using True by (auto simp: ensureWritableBytes_def unat_writableBytes)
    qed
  qed
qed

theorem ensureWritableBytes_room_witness:
  "\<exists>b'. ensureWritableBytes 3 \<lparr>buf_data = ''12345678abcdef'', readerIndex = 12, writerIndex = 14\<rparr> = Inr b' \<and>
     Buffer_contents b' = ''ef'' \<and> 3 \<le> unat (writableBytes b') \<and> length (buf_data b') = 14"
  using ensureWritableBytes_room
    [of "\<lparr>buf_data = ''12345678abcdef'', readerIndex = 12, writerIndex = 14\<rparr>" 3]
  by (auto simp: buffer_ok_def max_object_size_def Buffer_contents_def subarray_def)


end
