(* ===== verification/Channel.thy ===== *)
theory Channel
  imports Timestamp
begin

text \<open>
  \<^verbatim>\<open>src/net/Channel.cc\<close>: one fd's interest mask, the events the last poll reported, its state
  in the poller and its four callbacks. Channels are objects the kernel and the poller point
  to, so they live in a heap (\<open>chans\<close>) under their address. A callback is a bound member
  function: \<open>event_callback\<close> has one constructor per \<^verbatim>\<open>std::bind\<close> of the sources, and what a
  callback does is the argument \<open>exec\<close> of the dispatch. The mutators that talk to the poller
  (\<^verbatim>\<open>enableReading\<close> etc.) are in theory EPollPoller, which defines what they call.
\<close>

unbundle bit_operations_syntax

definition EPOLLIN :: "32 word" where "EPOLLIN = 0x001"
definition EPOLLPRI :: "32 word" where "EPOLLPRI = 0x002"
definition EPOLLOUT :: "32 word" where "EPOLLOUT = 0x004"
definition EPOLLERR :: "32 word" where "EPOLLERR = 0x008"
definition EPOLLHUP :: "32 word" where "EPOLLHUP = 0x010"
definition EPOLLRDHUP :: "32 word" where "EPOLLRDHUP = 0x2000"

lemmas epoll_bits = EPOLLIN_def EPOLLPRI_def EPOLLOUT_def EPOLLERR_def EPOLLHUP_def EPOLLRDHUP_def

definition kNoneEvent :: "32 word" where
  "kNoneEvent = 0"

definition kReadEvent :: "32 word" where
  "kReadEvent = EPOLLIN OR EPOLLPRI"

definition kWriteEvent :: "32 word" where
  "kWriteEvent = EPOLLOUT"

definition kNew :: int where "kNew = -1"
definition kAdded :: int where "kAdded = 1"
definition kDeleted :: int where "kDeleted = 2"

lemmas index_defs = kNew_def kAdded_def kDeleted_def

datatype event_callback =
    cb_EventLoop_handleRead ptr
  | cb_TimerQueue_handleRead ptr
  | cb_Acceptor_handleRead ptr
  | cb_TcpConnection_handleRead ptr
  | cb_TcpConnection_handleWrite ptr
  | cb_TcpConnection_handleClose ptr
  | cb_TcpConnection_handleError ptr
  | cb_user nat

record channel =
  chan_loop :: "ptr option"
  chan_fd :: fd
  chan_events :: "32 word"
  chan_revents :: "32 word"
  chan_index :: int
  readCallback :: "event_callback option"
  writeCallback :: "event_callback option"
  closeCallback :: "event_callback option"
  errorCallback :: "event_callback option"

text \<open>Both constructors: \<^verbatim>\<open>Channel(fd)\<close> passes no loop.\<close>

definition Channel_new :: "ptr option \<Rightarrow> fd \<Rightarrow> channel" where
  "Channel_new loop f =
     \<lparr>chan_loop = loop, chan_fd = f, chan_events = kNoneEvent, chan_revents = kNoneEvent,
      chan_index = kNew, readCallback = None, writeCallback = None, closeCallback = None,
      errorCallback = None\<rparr>"

definition set_revents :: "32 word \<Rightarrow> channel \<Rightarrow> channel" where
  "set_revents revt c = c\<lparr>chan_revents := revt\<rparr>"

definition isNoneEvent :: "channel \<Rightarrow> bool" where
  "isNoneEvent c \<longleftrightarrow> chan_events c = kNoneEvent"

definition isWriting :: "channel \<Rightarrow> bool" where
  "isWriting c \<longleftrightarrow> chan_events c AND kWriteEvent \<noteq> 0"

definition isReading :: "channel \<Rightarrow> bool" where
  "isReading c \<longleftrightarrow> chan_events c AND kReadEvent \<noteq> 0"

definition set_index :: "int \<Rightarrow> channel \<Rightarrow> channel" where
  "set_index index c = c\<lparr>chan_index := index\<rparr>"

definition setReadCallback :: "event_callback \<Rightarrow> channel \<Rightarrow> channel" where
  "setReadCallback cb c = c\<lparr>readCallback := Some cb\<rparr>"

definition setWriteCallback :: "event_callback \<Rightarrow> channel \<Rightarrow> channel" where
  "setWriteCallback cb c = c\<lparr>writeCallback := Some cb\<rparr>"

definition setCloseCallback :: "event_callback \<Rightarrow> channel \<Rightarrow> channel" where
  "setCloseCallback cb c = c\<lparr>closeCallback := Some cb\<rparr>"

definition setErrorCallback :: "event_callback \<Rightarrow> channel \<Rightarrow> channel" where
  "setErrorCallback cb c = c\<lparr>errorCallback := Some cb\<rparr>"

text \<open>
  The poller of each event loop (\<^verbatim>\<open>EPollPoller\<close> with the \<^verbatim>\<open>channels_\<close> map it inherits from
  \<^verbatim>\<open>Poller\<close>); of the \<^verbatim>\<open>events_\<close> array only the size outlives a call of \<^verbatim>\<open>poll\<close>.
\<close>

record epoll_poller =
  ep_channels :: "fd \<Rightarrow> ptr option"
  ep_fd :: fd
  ep_events_size :: nat

record 'k reactor = "'k world" +
  chans :: "ptr \<Rightarrow> channel option"
  pollers :: "ptr \<Rightarrow> epoll_poller option"

definition chan_at :: "ptr \<Rightarrow> ('k, 'z) reactor_scheme \<Rightarrow> channel res" where
  "chan_at p w = deref ''dangling Channel*'' (chans w p)"

definition upd_chan ::
  "ptr \<Rightarrow> (channel \<Rightarrow> channel) \<Rightarrow> ('k, 'z) reactor_scheme \<Rightarrow> ('k, 'z) reactor_scheme" where
  "upd_chan p f w = w\<lparr>chans := (chans w)(p := map_option f (chans w p))\<rparr>"

definition call_if_set ::
  "(event_callback \<Rightarrow> 'w \<Rightarrow> 'w res) \<Rightarrow> event_callback option \<Rightarrow> 'w \<Rightarrow> 'w res" where
  "call_if_set exec cb w = (case cb of None \<Rightarrow> Inr w | Some f \<Rightarrow> exec f w)"

text \<open>
  One guarded callback of the dispatch: the guard and the callback are read from the channel
  object at that moment, so a callback that destroyed the channel makes the next read dangle.
\<close>

definition dispatch ::
  "(event_callback \<Rightarrow> ('k, 'z) reactor_scheme \<Rightarrow> ('k, 'z) reactor_scheme res) \<Rightarrow>
   (32 word \<Rightarrow> bool) \<Rightarrow> (channel \<Rightarrow> event_callback option) \<Rightarrow> ptr \<Rightarrow>
   ('k, 'z) reactor_scheme \<Rightarrow> ('k, 'z) reactor_scheme res" where
  "dispatch exec guard sel p w =
     rbind (chan_at p w) (\<lambda>c. if guard (chan_revents c) then call_if_set exec (sel c) w else Inr w)"

definition handleEventWithGuard ::
  "(event_callback \<Rightarrow> ('k, 'z) reactor_scheme \<Rightarrow> ('k, 'z) reactor_scheme res) \<Rightarrow> ptr \<Rightarrow>
   ('k, 'z) reactor_scheme \<Rightarrow> ('k, 'z) reactor_scheme res" where
  "handleEventWithGuard exec p w =
     rbind (dispatch exec (\<lambda>r. r AND EPOLLHUP \<noteq> 0 \<and> \<not> r AND EPOLLIN \<noteq> 0) closeCallback p w) (\<lambda>w1.
     rbind (dispatch exec (\<lambda>r. r AND EPOLLERR \<noteq> 0) errorCallback p w1) (\<lambda>w2.
     rbind (dispatch exec (\<lambda>r. r AND (EPOLLIN OR EPOLLPRI OR EPOLLRDHUP) \<noteq> 0) readCallback p w2) (\<lambda>w3.
     dispatch exec (\<lambda>r. r AND EPOLLOUT \<noteq> 0) writeCallback p w3)))"

definition Channel_handleEvent ::
  "(event_callback \<Rightarrow> ('k, 'z) reactor_scheme \<Rightarrow> ('k, 'z) reactor_scheme res) \<Rightarrow> ptr \<Rightarrow>
   ('k, 'z) reactor_scheme \<Rightarrow> ('k, 'z) reactor_scheme res" where
  "Channel_handleEvent exec p w = handleEventWithGuard exec p w"

text \<open>The callbacks a mask asks for, in the order the dispatch calls them.\<close>

definition callbacks_for :: "32 word \<Rightarrow> channel \<Rightarrow> event_callback list" where
  "callbacks_for r c =
     List.map_filter id
       [if r AND EPOLLHUP \<noteq> 0 \<and> r AND EPOLLIN = 0 then closeCallback c else None,
        if r AND EPOLLERR \<noteq> 0 then errorCallback c else None,
        if r AND (EPOLLIN OR EPOLLPRI OR EPOLLRDHUP) \<noteq> 0 then readCallback c else None,
        if r AND EPOLLOUT \<noteq> 0 then writeCallback c else None]"

section \<open>Lemmas\<close>

lemma upd_chan_simps [simp]:
  "chans (upd_chan p f w) = (chans w)(p := map_option f (chans w p))"
  "pollers (upd_chan p f w) = pollers w" "w_kern (upd_chan p f w) = w_kern w"
  "w_log (upd_chan p f w) = w_log w" "w_thread (upd_chan p f w) = w_thread w"
  "w_errno (upd_chan p f w) = w_errno w"
  by (simp_all add: upd_chan_def)

lemma set_index_simps [simp]:
  "chan_loop (set_index i c) = chan_loop c" "chan_fd (set_index i c) = chan_fd c"
  "chan_events (set_index i c) = chan_events c" "chan_index (set_index i c) = i"
  "chan_revents (set_index i c) = chan_revents c"
  by (simp_all add: set_index_def)

lemma set_revents_simps [simp]:
  "chan_loop (set_revents r c) = chan_loop c" "chan_fd (set_revents r c) = chan_fd c"
  "chan_events (set_revents r c) = chan_events c" "chan_index (set_revents r c) = chan_index c"
  "chan_revents (set_revents r c) = r"
  by (simp_all add: set_revents_def)

lemma index_distinct [simp]:
  "kNew \<noteq> kAdded" "kNew \<noteq> kDeleted" "kAdded \<noteq> kNew" "kAdded \<noteq> kDeleted"
  "kDeleted \<noteq> kNew" "kDeleted \<noteq> kAdded"
  by (simp_all add: index_defs)

lemma keeps_dispatch:
  assumes "\<And>cb. keeps I (exec cb)"
  shows "keeps I (dispatch exec g sel p)"
  using assms unfolding keeps_def dispatch_def call_if_set_def chan_at_def
  by (auto simp: rbind_eq_Inr split: option.splits if_splits)

lemma keeps_handleEvent [keeps_intros]:
  assumes "\<And>cb. keeps I (exec cb)"
  shows "keeps I (Channel_handleEvent exec p)"
  unfolding Channel_handleEvent_def handleEventWithGuard_def
  by (intro keeps_rbind keeps_dispatch assms)

text \<open>What the dispatch reads of a channel: the reported events and the four callbacks.\<close>

definition dispatch_view :: "channel \<Rightarrow> 32 word \<times> event_callback option list" where
  "dispatch_view c = (chan_revents c, [closeCallback c, errorCallback c, readCallback c, writeCallback c])"

definition channel_view :: "ptr \<Rightarrow> ('k, 'z) reactor_scheme \<Rightarrow> (32 word \<times> event_callback option list) option" where
  "channel_view p w = map_option dispatch_view (chans w p)"

lemma dispatch_stable:
  assumes "channel_view p w = Some (dispatch_view c)" and "sel \<in> {closeCallback, errorCallback, readCallback, writeCallback}"
  shows "dispatch exec g sel p w = rfold exec (List.map_filter id [if g (chan_revents c) then sel c else None]) w"
proof -
  obtain d where "chans w p = Some d" "dispatch_view d = dispatch_view c" using assms(1) by (auto simp: channel_view_def)
  then show ?thesis
    using assms(2) by (auto simp: dispatch_def chan_at_def dispatch_view_def call_if_set_def List.map_filter_def split: option.splits)
qed

lemma callbacks_for_split:
  "callbacks_for r c = List.map_filter id [if r AND EPOLLHUP \<noteq> 0 \<and> \<not> r AND EPOLLIN \<noteq> 0 then closeCallback c else None]
     @ List.map_filter id [if r AND EPOLLERR \<noteq> 0 then errorCallback c else None]
     @ List.map_filter id [if r AND (EPOLLIN OR EPOLLPRI OR EPOLLRDHUP) \<noteq> 0 then readCallback c else None]
     @ List.map_filter id [if r AND EPOLLOUT \<noteq> 0 then writeCallback c else None]"
  by (simp add: callbacks_for_def List.map_filter_def)

lemma handleEvent_rfold:
  assumes chan: "chans w p = Some c"
    and frame: "\<And>cb w w'. exec cb w = Inr w' \<Longrightarrow> channel_view p w' = channel_view p w"
  shows "Channel_handleEvent exec p w = rfold exec (callbacks_for (chan_revents c) c) w"
proof -
  let ?v = "Some (dispatch_view c)"
  have keep: "channel_view p w' = channel_view p w" if "rfold exec cbs w = Inr w'" for cbs w w'
    using that by (induction cbs arbitrary: w) (auto simp: rbind_eq_Inr dest!: frame)
  have seq: "rbind (dispatch exec g sel p w) F =
      rbind (rfold exec (List.map_filter id [if g (chan_revents c) then sel c else None]) w) G"
    if w: "channel_view p w = ?v" and sel: "sel \<in> {closeCallback, errorCallback, readCallback, writeCallback}"
      and FG: "\<And>w'. channel_view p w' = ?v \<Longrightarrow> F w' = G w'" for g sel w F G
    using FG keep w
    by (cases "rfold exec (List.map_filter id [if g (chan_revents c) then sel c else None]) w")
      (simp_all add: dispatch_stable [OF w sel])
  have start: "channel_view p w = ?v" using chan by (simp add: channel_view_def)
  show ?thesis
    unfolding Channel_handleEvent_def handleEventWithGuard_def callbacks_for_split rfold_append
    by (rule seq [OF start], simp, rule seq, assumption, simp, rule seq, assumption, simp, rule dispatch_stable, assumption, simp)
qed

section \<open>Properties\<close>

text \<open>
  C19: The dispatch of an event is the table the comments of \<^verbatim>\<open>handleEventWithGuard\<close> give: as long as no
  callback replaces the callbacks or the reported events of this very channel, \<^verbatim>\<open>handleEvent\<close> runs
  exactly the callbacks the mask asks for, each once, in the order close, error, read, write, and stops at
  the first that fails. Callbacks may change the channel's interest mask and everything else.
\<close>

theorem handleEvent_follows_mask:
  assumes "chans w p = Some c" and "\<forall>cb w w'. exec cb w = Inr w' \<longrightarrow> channel_view p w' = channel_view p w"
  shows "Channel_handleEvent exec p w = rfold exec (callbacks_for (chan_revents c) c) w"
  by (rule handleEvent_rfold [OF assms(1)]) (use assms(2) in blast)

text \<open>A channel that is told of a hang-up and of an error: close, then error, and nothing else.\<close>

definition hangup_channel :: channel where
  "hangup_channel = set_revents (EPOLLHUP OR EPOLLERR)
     (setErrorCallback (cb_user 4) (setCloseCallback (cb_user 3) (setWriteCallback (cb_user 2)
       (setReadCallback (cb_user 1) (Channel_new None 5)))))"

definition hangup_world :: "unit reactor" where
  "hangup_world = \<lparr>w_kern = (), w_errno = 0, w_log = [], w_thread = 1, chans = [9 \<mapsto> hangup_channel], pollers = Map.empty\<rparr>"

definition log_callback :: "event_callback \<Rightarrow> unit reactor \<Rightarrow> unit reactor res" where
  "log_callback cb w = Inr (LOG_INFO (case cb of cb_user n \<Rightarrow> nat_to_string n | _ \<Rightarrow> ''-'') w)"

theorem handleEvent_follows_mask_witness:
  "\<exists>w'. Channel_handleEvent log_callback 9 hangup_world = Inr w' \<and> w_log w' = [(INFO, ''3''), (INFO, ''4'')]"
proof -
  have c: "chans hangup_world 9 = Some hangup_channel" by (simp add: hangup_world_def)
  have frame: "\<forall>cb w w'. log_callback cb w = Inr w' \<longrightarrow> channel_view 9 w' = channel_view 9 w"
    by (auto simp: log_callback_def channel_view_def log_defs)
  have "callbacks_for (chan_revents hangup_channel) hangup_channel = [cb_user 3, cb_user 4]" by code_simp
  moreover have "nat_to_string 3 = ''3''" "nat_to_string 4 = ''4''" by code_simp+
  ultimately have "Channel_handleEvent log_callback 9 hangup_world =
      Inr (LOG_INFO ''4'' (LOG_INFO ''3'' hangup_world))"
    unfolding handleEvent_follows_mask [OF c frame] by (simp add: log_callback_def)
  then show ?thesis by (simp add: log_defs hangup_world_def)
qed

end
