(* ===== verification/EPollPoller.thy ===== *)
theory EPollPoller
  imports Channel Kernel_Instance
begin

text \<open>
  \<^verbatim>\<open>src/net/Poller.cc\<close>, \<^verbatim>\<open>src/net/EPollPoller.cc\<close>, the two forwarding methods of
  \<^verbatim>\<open>src/net/EventLoop.cc\<close> and the mutators of \<^verbatim>\<open>src/net/Channel.cc\<close> that end in them. A loop
  \<open>l\<close> has the poller \<open>pollers w l\<close>. The invariant \<open>reactor_ok\<close> ties three views together: the
  state \<^verbatim>\<open>index_\<close> of every channel, the map \<^verbatim>\<open>channels_\<close>, and the interest list of the kernel.
\<close>

definition kInitEventListSize :: nat where
  "kInitEventListSize = 16"

definition kPollTimeMs :: int where
  "kPollTimeMs = 10000"

definition errnoMessage :: "'k kernel \<Rightarrow> string \<Rightarrow> ('k, 'z) world_scheme \<Rightarrow> string" where
  "errnoMessage K action w = action @ '' failed: '' @ k_strerror K (w_errno w)"

definition operationToString :: "ctl_op \<Rightarrow> string" where
  "operationToString operation =
     (case operation of EPOLL_CTL_ADD \<Rightarrow> ''ADD'' | EPOLL_CTL_DEL \<Rightarrow> ''DEL'' | EPOLL_CTL_MOD \<Rightarrow> ''MOD'')"

definition poller_at :: "ptr \<Rightarrow> ('k, 'z) reactor_scheme \<Rightarrow> epoll_poller res" where
  "poller_at l w = deref ''dangling Poller*'' (pollers w l)"

definition upd_poller ::
  "ptr \<Rightarrow> (epoll_poller \<Rightarrow> epoll_poller) \<Rightarrow> ('k, 'z) reactor_scheme \<Rightarrow> ('k, 'z) reactor_scheme" where
  "upd_poller l f w = w\<lparr>pollers := (pollers w)(l := map_option f (pollers w l))\<rparr>"

definition EPollPoller_new ::
  "'k kernel \<Rightarrow> ptr \<Rightarrow> ('k, 'z) reactor_scheme \<Rightarrow> ('k, 'z) reactor_scheme res" where
  "EPollPoller_new K l w =
     (case syscall (k_epoll_create1 K) w of
        (Inl e, w1) \<Rightarrow> LOG_FATAL (errnoMessage K ''epoll_create1'' w1) w1
      | (Inr epollfd, w1) \<Rightarrow>
          Inr (w1\<lparr>pollers := (pollers w1)(l \<mapsto> \<lparr>ep_channels = Map.empty, ep_fd = epollfd,
                    ep_events_size = kInitEventListSize\<rparr>)\<rparr>))"

definition EPollPoller_destroy ::
  "'k kernel \<Rightarrow> ptr \<Rightarrow> ('k, 'z) reactor_scheme \<Rightarrow> ('k, 'z) reactor_scheme res" where
  "EPollPoller_destroy K l w =
     rbind (poller_at l w) (\<lambda>po.
       (case syscall (k_close K (ep_fd po)) w of
          (Inl e, w1) \<Rightarrow> Inr ((LOG_ERROR (errnoMessage K ''close epollfd'' w1) w1)\<lparr>pollers := (pollers w1)(l := None)\<rparr>)
        | (Inr _, w1) \<Rightarrow> Inr (w1\<lparr>pollers := (pollers w1)(l := None)\<rparr>)))"

definition hasChannel :: "ptr \<Rightarrow> ptr \<Rightarrow> ('k, 'z) reactor_scheme \<Rightarrow> bool res" where
  "hasChannel l p w =
     rbind (poller_at l w) (\<lambda>po. rbind (chan_at p w) (\<lambda>c.
       Inr (case ep_channels po (chan_fd c) of None \<Rightarrow> False | Some q \<Rightarrow> q = p)))"

text \<open>\<^verbatim>\<open>update\<close>: one \<^verbatim>\<open>epoll_ctl\<close>; a failure to delete is logged, any other aborts.\<close>

definition EPollPoller_update ::
  "'k kernel \<Rightarrow> ptr \<Rightarrow> ctl_op \<Rightarrow> ptr \<Rightarrow> ('k, 'z) reactor_scheme \<Rightarrow> ('k, 'z) reactor_scheme res" where
  "EPollPoller_update K l operation p w =
     rbind (poller_at l w) (\<lambda>po. rbind (chan_at p w) (\<lambda>c.
       (case syscall (k_epoll_ctl K (ep_fd po) operation (chan_fd c) (chan_events c) p) w of
          (Inr _, w1) \<Rightarrow> Inr w1
        | (Inl e, w1) \<Rightarrow>
            let message = ''epoll_ctl '' @ operationToString operation @ '' fd '' @
                          to_string (chan_fd c) @ '' '' @ k_strerror K (w_errno w1)
            in if operation = EPOLL_CTL_DEL then Inr (LOG_ERROR message w1)
               else LOG_FATAL message w1)))"

definition EPollPoller_updateChannel ::
  "'k kernel \<Rightarrow> ptr \<Rightarrow> ptr \<Rightarrow> ('k, 'z) reactor_scheme \<Rightarrow> ('k, 'z) reactor_scheme res" where
  "EPollPoller_updateChannel K l p w =
     rbind (chan_at p w) (\<lambda>c.
       let index = chan_index c; f = chan_fd c
       in if index = kNew \<or> index = kDeleted then
            let w1 = (if index = kNew
                      then upd_poller l (\<lambda>po. po\<lparr>ep_channels := (ep_channels po)(f \<mapsto> p)\<rparr>) w
                      else w)
            in rbind (EPollPoller_update K l EPOLL_CTL_ADD p w1) (\<lambda>w2.
                 Inr (upd_chan p (set_index kAdded) w2))
          else if index = kAdded then
            if isNoneEvent c then
              rbind (EPollPoller_update K l EPOLL_CTL_DEL p w) (\<lambda>w1.
                Inr (upd_chan p (set_index kDeleted) w1))
            else EPollPoller_update K l EPOLL_CTL_MOD p w
          else Inr w)"

definition EPollPoller_removeChannel ::
  "'k kernel \<Rightarrow> ptr \<Rightarrow> ptr \<Rightarrow> ('k, 'z) reactor_scheme \<Rightarrow> ('k, 'z) reactor_scheme res" where
  "EPollPoller_removeChannel K l p w =
     rbind (chan_at p w) (\<lambda>c.
       let w1 = upd_poller l (\<lambda>po. po\<lparr>ep_channels := (ep_channels po)(chan_fd c := None)\<rparr>) w
       in rbind (if chan_index c = kAdded then EPollPoller_update K l EPOLL_CTL_DEL p w1 else Inr w1)
            (\<lambda>w2. Inr (upd_chan p (set_index kNew) w2)))"

text \<open>\<^verbatim>\<open>fillActiveChannels\<close> writes each reported mask into the channel the kernel points at.\<close>

fun fillActiveChannels ::
  "(32 word \<times> ptr) list \<Rightarrow> ptr list \<Rightarrow> ('k, 'z) reactor_scheme \<Rightarrow> (ptr list \<times> ('k, 'z) reactor_scheme) res" where
  "fillActiveChannels [] activeChannels w = Inr (activeChannels, w)"
| "fillActiveChannels ((events, p) # rest) activeChannels w =
     rbind (chan_at p w) (\<lambda>c.
       fillActiveChannels rest (activeChannels @ [p]) (upd_chan p (set_revents events) w))"

definition EPollPoller_poll ::
  "'k kernel \<Rightarrow> ptr \<Rightarrow> int \<Rightarrow> ptr list \<Rightarrow> ('k, 'z) reactor_scheme \<Rightarrow>
     (timestamp \<times> ptr list \<times> ('k, 'z) reactor_scheme) res" where
  "EPollPoller_poll K l timeoutMs activeChannels w =
     rbind (poller_at l w) (\<lambda>po.
       (case syscall (k_epoll_wait K (ep_fd po) (ep_events_size po) timeoutMs) w of (r, w1) \<Rightarrow>
        (case Timestamp_now K w1 of (now, w2) \<Rightarrow>
         (case r of
            Inr evs \<Rightarrow>
              if 0 < length evs then
                rbind (fillActiveChannels evs activeChannels w2) (\<lambda>(active, w3).
                  Inr (now, active,
                       if length evs = ep_events_size po
                       then upd_poller l (\<lambda>po. po\<lparr>ep_events_size := ep_events_size po * 2\<rparr>) w3
                       else w3))
              else Inr (now, activeChannels, LOG_DEBUG ''epoll_wait timeout'' w2)
          | Inl e \<Rightarrow>
              Inr (now, activeChannels,
                   if w_errno w2 \<noteq> EINTR then LOG_ERROR (errnoMessage K ''epoll_wait'' w2) w2 else w2)))))"

section \<open>EventLoop's forwarding and the channel's mutators\<close>

definition EventLoop_updateChannel ::
  "'k kernel \<Rightarrow> ptr \<Rightarrow> ptr \<Rightarrow> ('k, 'z) reactor_scheme \<Rightarrow> ('k, 'z) reactor_scheme res" where
  "EventLoop_updateChannel K l p w = EPollPoller_updateChannel K l p w"

definition EventLoop_removeChannel ::
  "'k kernel \<Rightarrow> ptr \<Rightarrow> ptr \<Rightarrow> ('k, 'z) reactor_scheme \<Rightarrow> ('k, 'z) reactor_scheme res" where
  "EventLoop_removeChannel K l p w = EPollPoller_removeChannel K l p w"

definition Channel_update ::
  "'k kernel \<Rightarrow> ptr \<Rightarrow> ('k, 'z) reactor_scheme \<Rightarrow> ('k, 'z) reactor_scheme res" where
  "Channel_update K p w =
     rbind (chan_at p w) (\<lambda>c.
       case chan_loop c of None \<Rightarrow> Inr w | Some l \<Rightarrow> EventLoop_updateChannel K l p w)"

definition Channel_remove ::
  "'k kernel \<Rightarrow> ptr \<Rightarrow> ('k, 'z) reactor_scheme \<Rightarrow> ('k, 'z) reactor_scheme res" where
  "Channel_remove K p w =
     rbind (chan_at p w) (\<lambda>c.
       case chan_loop c of None \<Rightarrow> Inr w | Some l \<Rightarrow> EventLoop_removeChannel K l p w)"

definition change_events :: "(32 word \<Rightarrow> 32 word) \<Rightarrow> channel \<Rightarrow> channel" where
  "change_events f c = c\<lparr>chan_events := f (chan_events c)\<rparr>"

definition enableReading ::
  "'k kernel \<Rightarrow> ptr \<Rightarrow> ('k, 'z) reactor_scheme \<Rightarrow> ('k, 'z) reactor_scheme res" where
  "enableReading K p w = Channel_update K p (upd_chan p (change_events (\<lambda>e. e OR kReadEvent)) w)"

definition disableReading ::
  "'k kernel \<Rightarrow> ptr \<Rightarrow> ('k, 'z) reactor_scheme \<Rightarrow> ('k, 'z) reactor_scheme res" where
  "disableReading K p w = Channel_update K p (upd_chan p (change_events (\<lambda>e. e AND NOT kReadEvent)) w)"

definition enableWriting ::
  "'k kernel \<Rightarrow> ptr \<Rightarrow> ('k, 'z) reactor_scheme \<Rightarrow> ('k, 'z) reactor_scheme res" where
  "enableWriting K p w = Channel_update K p (upd_chan p (change_events (\<lambda>e. e OR kWriteEvent)) w)"

definition disableWriting ::
  "'k kernel \<Rightarrow> ptr \<Rightarrow> ('k, 'z) reactor_scheme \<Rightarrow> ('k, 'z) reactor_scheme res" where
  "disableWriting K p w = Channel_update K p (upd_chan p (change_events (\<lambda>e. e AND NOT kWriteEvent)) w)"

definition disableAll ::
  "'k kernel \<Rightarrow> ptr \<Rightarrow> ('k, 'z) reactor_scheme \<Rightarrow> ('k, 'z) reactor_scheme res" where
  "disableAll K p w = Channel_update K p (upd_chan p (change_events (\<lambda>e. kNoneEvent)) w)"

lemmas channel_mutator_defs =
  enableReading_def disableReading_def enableWriting_def disableWriting_def disableAll_def

section \<open>The invariant\<close>

definition enrolled :: "channel \<Rightarrow> bool" where
  "enrolled c \<longleftrightarrow> chan_index c = kAdded \<or> chan_index c = kDeleted"

text \<open>What the kernel should hold for fd \<open>f\<close>: the mask and address of its added channel.\<close>

definition expected_interest ::
  "epoll_poller \<Rightarrow> (ptr \<Rightarrow> channel option) \<Rightarrow> fd \<Rightarrow> (32 word \<times> ptr) option" where
  "expected_interest po cs f =
     (case ep_channels po f of
        None \<Rightarrow> None
      | Some p \<Rightarrow> (case cs p of
          None \<Rightarrow> None
        | Some c \<Rightarrow> if chan_index c = kAdded then Some (chan_events c, p) else None))"

definition poller_ok ::
  "('k \<Rightarrow> fd \<Rightarrow> fd \<Rightarrow> (32 word \<times> ptr) option) \<Rightarrow> ('k, 'z) reactor_scheme \<Rightarrow> ptr \<Rightarrow> epoll_poller \<Rightarrow> bool" where
  "poller_ok interest w l po \<longleftrightarrow>
     (\<forall>f p. ep_channels po f = Some p \<longleftrightarrow>
        (\<exists>c. chans w p = Some c \<and> chan_loop c = Some l \<and> chan_fd c = f \<and> enrolled c)) \<and>
     interest (w_kern w) (ep_fd po) = expected_interest po (chans w)"

definition reactor_ok ::
  "('k \<Rightarrow> fd \<Rightarrow> fd \<Rightarrow> (32 word \<times> ptr) option) \<Rightarrow> ('k, 'z) reactor_scheme \<Rightarrow> bool" where
  "reactor_ok interest w \<longleftrightarrow>
     (\<forall>l po. pollers w l = Some po \<longrightarrow> poller_ok interest w l po) \<and>
     (\<forall>l l' po po'. pollers w l = Some po \<longrightarrow> pollers w l' = Some po' \<longrightarrow> ep_fd po = ep_fd po' \<longrightarrow> l = l') \<and>
     (\<forall>p c. chans w p = Some c \<longrightarrow> chan_index c = kNew \<or> enrolled c)"

text \<open>
  A channel may be registered when no other channel of its loop holds the same fd: the owner
  of an fd closes it only after its channel left the poller.
\<close>

definition may_register :: "('k, 'z) reactor_scheme \<Rightarrow> ptr \<Rightarrow> bool" where
  "may_register w p \<longleftrightarrow>
     (\<forall>c l po. chans w p = Some c \<longrightarrow> chan_loop c = Some l \<longrightarrow> pollers w l = Some po \<longrightarrow>
        ep_channels po (chan_fd c) = None \<or> ep_channels po (chan_fd c) = Some p)"

section \<open>Simplification\<close>

lemma upd_poller_simps [simp]:
  "pollers (upd_poller l f w) = (pollers w)(l := map_option f (pollers w l))"
  "chans (upd_poller l f w) = chans w" "w_kern (upd_poller l f w) = w_kern w"
  "w_thread (upd_poller l f w) = w_thread w" "w_log (upd_poller l f w) = w_log w"
  by (simp_all add: upd_poller_def)

lemma change_events_simps [simp]:
  "chan_loop (change_events g c) = chan_loop c" "chan_fd (change_events g c) = chan_fd c"
  "chan_index (change_events g c) = chan_index c"
  "chan_events (change_events g c) = g (chan_events c)"
  "chan_revents (change_events g c) = chan_revents c"
  by (simp_all add: change_events_def)

lemma enrolled_simps [simp]:
  "enrolled (change_events g c) = enrolled c" "enrolled (set_index kAdded c)"
  "enrolled (set_index kDeleted c)" "\<not> enrolled (set_index kNew c)"
  by (simp_all add: enrolled_def)

lemma log_reactor_simps [simp]:
  "chans (LOG_ERROR m w) = chans w" "pollers (LOG_ERROR m w) = pollers w"
  "chans (LOG_DEBUG m w) = chans w" "pollers (LOG_DEBUG m w) = pollers w"
  "chans (LOG_INFO m w) = chans w" "pollers (LOG_INFO m w) = pollers w"
  by (simp_all add: log_defs)

section \<open>What registration leaves alone\<close>

text \<open>
  Registering a channel changes the kernel, \<^verbatim>\<open>errno\<close>, the log, channels and pollers; the fields
  of a larger world stay as they are.
\<close>

definition reactor_frame :: "('k, 'z) reactor_scheme \<Rightarrow> ('k, 'z) reactor_scheme \<Rightarrow> bool" where
  "reactor_frame w w' \<longleftrightarrow> w_thread w' = w_thread w \<and> reactor.more w' = reactor.more w"

definition ctl_leaves :: "'k kernel \<Rightarrow> ('k \<Rightarrow> 'v) \<Rightarrow> bool" where
  "ctl_leaves K v \<longleftrightarrow> (\<forall>ep op f ev p. leaves (k_epoll_ctl K ep op f ev p) v)"

lemma reactor_frame_refl [simp]: "reactor_frame w w"
  by (simp add: reactor_frame_def)

lemma reactor_frame_trans: "reactor_frame w w1 \<Longrightarrow> reactor_frame w1 w2 \<Longrightarrow> reactor_frame w w2"
  by (simp add: reactor_frame_def)

lemma reactor_frame_upd [simp]:
  "reactor_frame w (upd_chan p f w') = reactor_frame w w'"
  "reactor_frame (upd_chan p f w) w' = reactor_frame w w'"
  "reactor_frame w (upd_poller l g w') = reactor_frame w w'"
  "reactor_frame (upd_poller l g w) w' = reactor_frame w w'"
  "reactor_frame w (LOG_ERROR m w') = reactor_frame w w'"
  by (simp_all add: reactor_frame_def upd_chan_def upd_poller_def log_defs)

lemma syscall_reactor_frame: "syscall f w = (r, w') \<Longrightarrow> reactor_frame w w'"
  by (auto simp: syscall_eq reactor_frame_def)

lemma EPollPoller_update_frame:
  assumes "EPollPoller_update K l operation p w = Inr w'"
  shows "reactor_frame w w'" and "ctl_leaves K v \<Longrightarrow> v (w_kern w') = v (w_kern w)"
proof -
  obtain po c where po: "poller_at l w = Inr po" "chan_at p w = Inr c"
    using assms by (auto simp: EPollPoller_update_def rbind_eq_Inr)
  obtain r w1 where sys: "syscall (k_epoll_ctl K (ep_fd po) operation (chan_fd c) (chan_events c) p) w = (r, w1)"
    by (cases "syscall (k_epoll_ctl K (ep_fd po) operation (chan_fd c) (chan_events c) p) w")
  then have w': "w' = w1 \<or> (\<exists>m. w' = LOG_ERROR m w1)"
    using assms po by (cases r) (auto simp: EPollPoller_update_def Let_def split: if_splits)
  show "reactor_frame w w'" using w' syscall_reactor_frame [OF sys] by auto
  show "v (w_kern w') = v (w_kern w)" if "ctl_leaves K v"
    using w' syscall_leaves [OF _ sys, of v] that by (auto simp: ctl_leaves_def)
qed

lemma EPollPoller_updateChannel_frame:
  assumes "EPollPoller_updateChannel K l p w = Inr w'"
  shows "reactor_frame w w'" and "ctl_leaves K v \<Longrightarrow> v (w_kern w') = v (w_kern w)"
  using assms
  by (auto simp: EPollPoller_updateChannel_def rbind_eq_Inr Let_def split: if_splits
      dest: EPollPoller_update_frame(1) EPollPoller_update_frame(2) [where v = v])

lemma EPollPoller_removeChannel_frame:
  assumes "EPollPoller_removeChannel K l p w = Inr w'"
  shows "reactor_frame w w'" and "ctl_leaves K v \<Longrightarrow> v (w_kern w') = v (w_kern w)"
  using assms
  by (auto simp: EPollPoller_removeChannel_def rbind_eq_Inr Let_def split: if_splits
      dest: EPollPoller_update_frame(1) EPollPoller_update_frame(2) [where v = v])

lemma Channel_update_frame:
  assumes "Channel_update K p (upd_chan p f w) = Inr w'"
  shows "reactor_frame w w'" and "ctl_leaves K v \<Longrightarrow> v (w_kern w') = v (w_kern w)"
proof -
  have "w' = upd_chan p f w \<or> (\<exists>l. EPollPoller_updateChannel K l p (upd_chan p f w) = Inr w')"
    using assms by (auto simp: Channel_update_def EventLoop_updateChannel_def rbind_eq_Inr split: option.splits)
  then show "reactor_frame w w'" and "ctl_leaves K v \<Longrightarrow> v (w_kern w') = v (w_kern w)"
    using EPollPoller_updateChannel_frame(1) [of K _ p "upd_chan p f w" w']
      EPollPoller_updateChannel_frame(2) [of K _ p "upd_chan p f w" w' v] by auto
qed

lemma Channel_remove_frame:
  assumes "Channel_remove K p w = Inr w'"
  shows "reactor_frame w w'" and "ctl_leaves K v \<Longrightarrow> v (w_kern w') = v (w_kern w)"
  using assms
  by (auto simp: Channel_remove_def EventLoop_removeChannel_def rbind_eq_Inr split: option.splits
      dest: EPollPoller_removeChannel_frame(1) EPollPoller_removeChannel_frame(2) [where v = v])

text \<open>What no registration changes of a channel: its loop, its fd and its callbacks.\<close>

definition chan_core :: "channel \<Rightarrow> ptr option \<times> fd \<times> event_callback option list" where
  "chan_core c = (chan_loop c, chan_fd c, [readCallback c, writeCallback c, closeCallback c, errorCallback c])"

lemma chan_core_simps [simp]:
  "chan_core (set_index i c) = chan_core c" "chan_core (change_events g c) = chan_core c"
  "chan_core (set_revents r c) = chan_core c"
  by (simp_all add: chan_core_def set_index_def change_events_def set_revents_def)

lemma EPollPoller_update_chans: "EPollPoller_update K l operation p w = Inr w' \<Longrightarrow> chans w' = chans w"
  by (auto simp: EPollPoller_update_def rbind_eq_Inr syscall_def Let_def split: prod.splits sum.splits if_splits)

lemma upd_chan_core:
  "(\<And>c. chan_core (f c) = chan_core c) \<Longrightarrow> map_option chan_core (chans (upd_chan p f w) q) = map_option chan_core (chans w q)"
  by (cases "chans w p") auto

lemma updateChannel_core:
  assumes "EPollPoller_updateChannel K l p w = Inr w'"
  shows "map_option chan_core (chans w' q) = map_option chan_core (chans w q)"
  using assms
  by (auto simp: EPollPoller_updateChannel_def rbind_eq_Inr Let_def upd_chan_core split: if_splits
      dest!: EPollPoller_update_chans simp del: upd_chan_simps(1))

lemma Channel_update_core:
  assumes "Channel_update K p (upd_chan p (change_events g) w) = Inr w'"
  shows "map_option chan_core (chans w' q) = map_option chan_core (chans w q)"
proof -
  have "map_option chan_core (chans w' q) = map_option chan_core (chans (upd_chan p (change_events g) w) q)"
    using assms
    by (auto simp: Channel_update_def EventLoop_updateChannel_def rbind_eq_Inr split: option.splits dest: updateChannel_core
        simp del: upd_chan_simps(1))
  then show ?thesis by (simp add: upd_chan_core del: upd_chan_simps(1))
qed

lemma Channel_remove_core:
  assumes "Channel_remove K p w = Inr w'"
  shows "map_option chan_core (chans w' q) = map_option chan_core (chans w q)"
  using assms
  by (auto simp: Channel_remove_def EventLoop_removeChannel_def EPollPoller_removeChannel_def rbind_eq_Inr Let_def
      upd_chan_core split: option.splits if_splits dest!: EPollPoller_update_chans simp del: upd_chan_simps(1))

lemma reactor_ok_kern:
  assumes "reactor_ok interest w" and "chans w' = chans w" and "pollers w' = pollers w"
    and "interest (w_kern w') = interest (w_kern w)"
  shows "reactor_ok interest w'"
  using assms by (simp add: reactor_ok_def poller_ok_def)

section \<open>Preservation\<close>

lemma reactor_okD:
  assumes "reactor_ok interest w" and "pollers w l = Some po"
  shows "ep_channels po f = Some p \<longleftrightarrow>
           (\<exists>c. chans w p = Some c \<and> chan_loop c = Some l \<and> chan_fd c = f \<and> enrolled c)"
    and "interest (w_kern w) (ep_fd po) f = expected_interest po (chans w) f"
  using assms by (auto simp: reactor_ok_def poller_ok_def)

lemma reactor_ok_ep_inj:
  "reactor_ok interest w \<Longrightarrow> pollers w l = Some po \<Longrightarrow> pollers w l' = Some po' \<Longrightarrow>
   ep_fd po = ep_fd po' \<Longrightarrow> l = l'"
  by (auto simp: reactor_ok_def)

text \<open>A change that concerns one channel of one loop, made consistently in all three views.\<close>

lemma poller_ok_elsewhere:
  assumes ok: "reactor_ok interest w" and c: "chans w p = Some c" "chan_loop c = Some l"
    and c': "chan_loop c' = Some l" and w': "chans w' = (chans w)(p \<mapsto> c')"
    and l2: "pollers w l2 = Some po2" "l2 \<noteq> l"
    and kern: "interest (w_kern w') (ep_fd po2) = interest (w_kern w) (ep_fd po2)"
  shows "poller_ok interest w' l2 po2"
proof -
  have other: "ep_channels po2 f \<noteq> Some p" for f
    using reactor_okD(1) [OF ok l2(1), of f p] c l2(2) by auto
  have "ep_channels po2 f = Some q \<longleftrightarrow>
      (\<exists>c. chans w' q = Some c \<and> chan_loop c = Some l2 \<and> chan_fd c = f \<and> enrolled c)" for f q
    using reactor_okD(1) [OF ok l2(1), of f q] other [of f] l2(2) c' by (cases "q = p") (auto simp: w')
  moreover have "interest (w_kern w') (ep_fd po2) f = expected_interest po2 (chans w') f" for f
    using reactor_okD(2) [OF ok l2(1), of f] other [of f]
    by (auto simp: kern w' expected_interest_def split: option.splits)
  ultimately show ?thesis unfolding poller_ok_def by blast
qed

lemma reactor_ok_change:
  assumes ok: "reactor_ok interest w"
    and c: "chans w p = Some c" "chan_loop c = Some l" "pollers w l = Some po"
    and c': "chan_loop c' = Some l" "chan_fd c' = chan_fd c" "chan_index c' = kNew \<or> enrolled c'"
    and w': "chans w' = (chans w)(p \<mapsto> c')" "pollers w' = (pollers w)(l \<mapsto> po')" "ep_fd po' = ep_fd po"
    and map: "ep_channels po' = (ep_channels po)(chan_fd c := if enrolled c' then Some p else None)"
    and free: "ep_channels po (chan_fd c) = None \<or> ep_channels po (chan_fd c) = Some p"
    and kern: "interest (w_kern w') = (interest (w_kern w))(ep_fd po :=
       (interest (w_kern w) (ep_fd po))(chan_fd c :=
          if chan_index c' = kAdded then Some (chan_events c', p) else None))"
  shows "reactor_ok interest w'"
proof -
  note here = reactor_okD [OF ok c(3)]
  have at_l: "poller_ok interest w' l po'"
    unfolding poller_ok_def
  proof (intro conjI allI ext)
    fix f q
    show "ep_channels po' f = Some q \<longleftrightarrow>
        (\<exists>c. chans w' q = Some c \<and> chan_loop c = Some l \<and> chan_fd c = f \<and> enrolled c)"
      using here(1) [of f q] free c c' by (cases "q = p"; cases "f = chan_fd c") (auto simp: w'(1) map)
    show "interest (w_kern w') (ep_fd po') f = expected_interest po' (chans w') f"
    proof (cases "f = chan_fd c")
      case True
      then show ?thesis using c'(3)
        by (auto simp: w' kern map expected_interest_def enrolled_def)
    next
      case False
      then have "ep_channels po f \<noteq> Some p" using here(1) [of f p] c(1) by auto
      then show ?thesis using False here(2) [of f]
        by (auto simp: w' kern map expected_interest_def split: option.splits)
    qed
  qed
  have at_other: "poller_ok interest w' l2 po2" if l2: "pollers w l2 = Some po2" "l2 \<noteq> l" for l2 po2
  proof (rule poller_ok_elsewhere [OF ok c(1,2) c'(1) w'(1) l2])
    have "ep_fd po2 \<noteq> ep_fd po" using reactor_ok_ep_inj [OF ok l2(1) c(3)] l2(2) by auto
    then show "interest (w_kern w') (ep_fd po2) = interest (w_kern w) (ep_fd po2)" by (simp add: kern)
  qed
  have inj: "la = lb"
    if ab: "pollers w' la = Some pa" "pollers w' lb = Some pb" "ep_fd pa = ep_fd pb" for la lb pa pb
  proof -
    obtain qa qb where "pollers w la = Some qa" "ep_fd qa = ep_fd pa" "pollers w lb = Some qb" "ep_fd qb = ep_fd pb"
      using ab(1,2) c(3) w'(2,3) by (metis fun_upd_apply option.inject)
    then show ?thesis using reactor_ok_ep_inj [OF ok] ab(3) by metis
  qed
  have idx: "\<forall>q d. chans w' q = Some d \<longrightarrow> chan_index d = kNew \<or> enrolled d"
    using ok c'(3) by (auto simp: w'(1) reactor_ok_def)
  have "poller_ok interest w' l2 po2" if "pollers w' l2 = Some po2" for l2 po2
    using that at_l at_other [of l2 po2] by (cases "l2 = l") (simp_all add: w'(2))
  then show ?thesis unfolding reactor_ok_def using inj idx by blast
qed

lemma EPollPoller_updateE:
  assumes upd: "EPollPoller_update K l operation p w = Inr w'" and spec: "epoll_spec K interest"
    and c: "chans w p = Some c" and po: "pollers w l = Some po"
  obtains "chans w' = chans w" and "pollers w' = pollers w" and "w_thread w' = w_thread w"
    and "(interest (w_kern w) (ep_fd po) (chan_fd c) = None) = (operation = EPOLL_CTL_ADD)"
    and "interest (w_kern w') = (interest (w_kern w))(ep_fd po :=
           (interest (w_kern w) (ep_fd po))(chan_fd c :=
              if operation = EPOLL_CTL_DEL then None else Some (chan_events c, p)))"
  | "chans w' = chans w" and "pollers w' = pollers w" and "w_thread w' = w_thread w"
    and "operation = EPOLL_CTL_DEL" and "interest (w_kern w) (ep_fd po) (chan_fd c) = None"
    and "interest (w_kern w') = interest (w_kern w)"
proof -
  obtain r w1 where sys: "syscall (k_epoll_ctl K (ep_fd po) operation (chan_fd c) (chan_events c) p) w = (r, w1)"
    by (cases "syscall (k_epoll_ctl K (ep_fd po) operation (chan_fd c) (chan_events c) p) w")
  then obtain k where k: "k_epoll_ctl K (ep_fd po) operation (chan_fd c) (chan_events c) p (w_kern w) = (r, k)"
    and w1: "w1 = w\<lparr>w_kern := k, w_errno := (case r of Inl e \<Rightarrow> e | Inr _ \<Rightarrow> w_errno w)\<rparr>"
    by (rule syscallE)
  have w': "w' = w1 \<or> (\<exists>m. w' = LOG_ERROR m w1 \<and> operation = EPOLL_CTL_DEL) \<and> r \<noteq> Inr ()"
    and r: "r = Inr () \<or> operation = EPOLL_CTL_DEL"
    using upd c po sys
    by (cases r; auto simp: EPollPoller_update_def poller_at_def chan_at_def Let_def split: if_splits)+
  have same: "chans w' = chans w" "pollers w' = pollers w" "w_thread w' = w_thread w" "w_kern w' = k"
    using w' w1 by auto
  show thesis
    using epoll_specD [OF spec k] r same by (elim disjE conjE exE) (simp_all add: that)
qed

lemma upd_chan_same: "chans w p = Some c \<Longrightarrow> f c = c \<Longrightarrow> upd_chan p f w = w"
  by (simp add: upd_chan_def fun_upd_idem)

text \<open>One \<^verbatim>\<open>epoll_ctl\<close> for a channel that is, or has just been, entered in \<^verbatim>\<open>channels_\<close>, and its new \<^verbatim>\<open>index_\<close>.\<close>

lemma update_change:
  assumes spec: "epoll_spec K interest" and ok: "reactor_ok interest w"
    and c: "chans w p = Some c" "chan_loop c = Some l" "pollers w l = Some po"
    and free: "ep_channels po (chan_fd c) = None \<or> ep_channels po (chan_fd c) = Some p"
    and w1: "chans w1 = (chans w)(p \<mapsto> d)" "pollers w1 = (pollers w)(l \<mapsto> po1)" "w_kern w1 = w_kern w"
    and d: "chan_loop d = Some l" "chan_fd d = chan_fd c"
    and po1: "ep_fd po1 = ep_fd po" "ep_channels po1 = (ep_channels po)(chan_fd c \<mapsto> p)"
    and i: "i = (if operation = EPOLL_CTL_DEL then kDeleted else kAdded)"
    and del: "operation = EPOLL_CTL_DEL \<Longrightarrow> interest (w_kern w) (ep_fd po) (chan_fd c) \<noteq> None"
    and upd: "EPollPoller_update K l operation p w1 = Inr w2" and w': "w' = upd_chan p (set_index i) w2"
  shows "reactor_ok interest w' \<and> chans w' = (chans w)(p \<mapsto> set_index i d) \<and> w_thread w' = w_thread w1 \<and>
    dom (pollers w') = dom (pollers w)"
proof -
  have at: "chans w1 p = Some d" "pollers w1 l = Some po1" using w1 by simp_all
  show ?thesis
  proof (rule EPollPoller_updateE [OF upd spec at], goal_cases)
    case 1
    have "reactor_ok interest w'"
      by (rule reactor_ok_change [OF ok c, of "set_index i d" w' po1])
        (use 1 c free w1 d po1 in \<open>simp_all add: w' i\<close>)
    then show ?case using 1 w1 c(3) by (auto simp: w')
  qed (use del w1 d po1 in simp)
qed

lemma updateChannel_ok:
  assumes spec: "epoll_spec K interest" and ok: "reactor_ok interest w"
    and c: "chans w p = Some c" "chan_loop c = Some l" and may: "may_register w p"
    and upd: "EPollPoller_updateChannel K l p (upd_chan p (change_events g) w) = Inr w'"
  obtains po c' where "pollers w l = Some po" and "chans w' = (chans w)(p \<mapsto> c')"
    and "chan_events c' = g (chan_events c)" and "chan_loop c' = Some l" and "chan_fd c' = chan_fd c"
    and "chan_index c' = (if chan_index c = kAdded \<and> g (chan_events c) = 0 then kDeleted else kAdded)"
    and "w_thread w' = w_thread w" and "dom (pollers w') = dom (pollers w)"
    and "reactor_ok interest w'"
proof -
  let ?e = "change_events g c" and ?w = "upd_chan p (change_events g) w"
  have idx: "chan_index c = kNew \<or> chan_index c = kAdded \<or> chan_index c = kDeleted"
    using ok c(1) by (auto simp: reactor_ok_def enrolled_def)
  then obtain po where po: "pollers w l = Some po"
    using upd c by (auto simp: EPollPoller_updateChannel_def chan_at_def Let_def rbind_eq_Inr
        EPollPoller_update_def poller_at_def split: if_splits)
  have free: "ep_channels po (chan_fd c) = None \<or> ep_channels po (chan_fd c) = Some p"
    using may c po by (auto simp: may_register_def)
  note here = reactor_okD [OF ok po]
  have in_map: "ep_channels po = (ep_channels po)(chan_fd c \<mapsto> p)" if "chan_index c \<noteq> kNew"
    using here(1) c that idx by (auto simp: enrolled_def fun_eq_iff)
  note change = update_change [OF spec ok c po free, of _ ?e]
  note split_upd = upd [unfolded EPollPoller_updateChannel_def chan_at_def]
  define i where "i = (if chan_index c = kAdded \<and> g (chan_events c) = 0 then kDeleted else kAdded)"
  have "reactor_ok interest w' \<and> chans w' = (chans w)(p \<mapsto> set_index i ?e) \<and> w_thread w' = w_thread w \<and>
    dom (pollers w') = dom (pollers w)"
  proof (cases "chan_index c = kNew \<or> chan_index c = kDeleted")
    case True
    let ?po = "if chan_index c = kNew then po\<lparr>ep_channels := (ep_channels po)(chan_fd c \<mapsto> p)\<rparr> else po"
    let ?w1 = "if chan_index c = kNew
      then upd_poller l (\<lambda>po. po\<lparr>ep_channels := (ep_channels po)(chan_fd c \<mapsto> p)\<rparr>) ?w else ?w"
    obtain w2 where "EPollPoller_update K l EPOLL_CTL_ADD p ?w1 = Inr w2" "w' = upd_chan p (set_index kAdded) w2"
      using split_upd True c by (auto simp: Let_def rbind_eq_Inr split: if_splits)
    then show ?thesis
      using change [of ?w1 ?po _ EPOLL_CTL_ADD w2 w'] True c po in_map by (auto simp: i_def index_defs fun_upd_idem)
  next
    case False
    then have added: "chan_index c = kAdded" using idx by blast
    let ?op = "if g (chan_events c) = 0 then EPOLL_CTL_DEL else EPOLL_CTL_MOD"
    obtain w2 where w2: "EPollPoller_update K l ?op p ?w = Inr w2"
      "w' = (if g (chan_events c) = 0 then upd_chan p (set_index kDeleted) w2 else w2)"
      using split_upd added c by (auto simp: Let_def rbind_eq_Inr isNoneEvent_def kNoneEvent_def index_defs split: if_splits)
    have "chans w2 = chans ?w" by (rule EPollPoller_updateE [OF w2(1) spec, of ?e po]) (use c po in simp_all)
    then have w': "w' = upd_chan p (set_index i) w2"
      using w2(2) c added upd_chan_same [of w2 p ?e "set_index kAdded"] by (simp add: i_def set_index_def change_events_def)
    have "ep_channels po (chan_fd c) = Some p" using here(1) c added by (auto simp: enrolled_def)
    then have "interest (w_kern w) (ep_fd po) (chan_fd c) \<noteq> None"
      using here(2) [of "chan_fd c"] added c by (simp add: expected_interest_def)
    then show ?thesis
      using change [of ?w po i ?op w2 w'] w2(1) w' added c po in_map
      by (cases "g (chan_events c) = 0") (simp_all add: i_def index_defs fun_upd_idem)
  qed
  then show thesis using that [OF po, of "set_index i ?e"] c(2) by (simp add: i_def)
qed

lemma removeChannel_ok:
  assumes spec: "epoll_spec K interest" and ok: "reactor_ok interest w"
    and c: "chans w p = Some c" "chan_loop c = Some l" and po: "pollers w l = Some po"
    and may: "may_register w p" and rem: "EPollPoller_removeChannel K l p w = Inr w'"
  shows "reactor_ok interest w'" and "chans w' = (chans w)(p \<mapsto> set_index kNew c)"
    and "w_thread w' = w_thread w" and "dom (pollers w') = dom (pollers w)"
proof -
  let ?po = "po\<lparr>ep_channels := (ep_channels po)(chan_fd c := None)\<rparr>"
  let ?w1 = "upd_poller l (\<lambda>po. po\<lparr>ep_channels := (ep_channels po)(chan_fd c := None)\<rparr>) w"
  let ?c = "set_index kNew c"
  have free: "ep_channels po (chan_fd c) = None \<or> ep_channels po (chan_fd c) = Some p"
    using may c po by (auto simp: may_register_def)
  note here = reactor_okD [OF ok po]
  have c1: "chans ?w1 p = Some c" "pollers ?w1 l = Some ?po" using c po by simp_all
  have ep: "ep_fd ?po = ep_fd po" by simp
  obtain w2 where w2: "(if chan_index c = kAdded then EPollPoller_update K l EPOLL_CTL_DEL p ?w1 else Inr ?w1) = Inr w2"
    and w': "w' = upd_chan p (set_index kNew) w2"
    using rem c by (auto simp: EPollPoller_removeChannel_def chan_at_def Let_def rbind_eq_Inr)
  have gone: "chans w2 = chans w \<and> pollers w2 = (pollers w)(l \<mapsto> ?po) \<and> w_thread w2 = w_thread w \<and>
     interest (w_kern w2) = (interest (w_kern w))(ep_fd po := (interest (w_kern w) (ep_fd po))(chan_fd c := None))"
  proof (cases "chan_index c = kAdded")
    case True
    then have "ep_channels po (chan_fd c) = Some p"
      using here(1) [of "chan_fd c" p] c by (auto simp: enrolled_def)
    then have "interest (w_kern w) (ep_fd po) (chan_fd c) \<noteq> None"
      using here(2) [of "chan_fd c"] c True by (simp add: expected_interest_def)
    moreover have "EPollPoller_update K l EPOLL_CTL_DEL p ?w1 = Inr w2" using w2 True by simp
    ultimately show ?thesis
      by (rule_tac EPollPoller_updateE [OF _ spec c1]) (use po in \<open>auto\<close>)
  next
    case False
    have "interest (w_kern w) (ep_fd po) (chan_fd c) = None"
      using here(2) [of "chan_fd c"] free c False by (auto simp: expected_interest_def)
    then show ?thesis using w2 False po by (auto simp: fun_upd_idem)
  qed
  show "reactor_ok interest w'"
    by (rule reactor_ok_change [OF ok c po, of ?c w' ?po]) (use gone c free in \<open>auto simp: w'\<close>)
  show "chans w' = (chans w)(p \<mapsto> ?c)" and "w_thread w' = w_thread w"
    and "dom (pollers w') = dom (pollers w)"
    using gone c po by (auto simp: w')
qed

text \<open>Changes to a channel that no poller knows, or to fields no poller looks at.\<close>

lemma reactor_ok_unbound:
  assumes ok: "reactor_ok interest w"
    and c': "chan_index c' = kNew \<or> enrolled c'"
    and same: "\<forall>c. chans w p = Some c \<longrightarrow>
       (chan_loop c = None \<or> pollers w (the (chan_loop c)) = None \<or> \<not> enrolled c) \<and> chan_loop c' = chan_loop c"
    and free: "chan_loop c' = None \<or> \<not> enrolled c' \<or> pollers w (the (chan_loop c')) = None"
  shows "reactor_ok interest (w\<lparr>chans := (chans w)(p \<mapsto> c')\<rparr>)"
proof -
  have out: "ep_channels po f \<noteq> Some p" if "pollers w l = Some po" for l po f
    using reactor_okD(1) [OF ok that, of f p] same that by auto
  have "poller_ok interest (w\<lparr>chans := (chans w)(p \<mapsto> c')\<rparr>) l po" if l: "pollers w l = Some po" for l po
    unfolding poller_ok_def
  proof (intro conjI allI ext)
    fix f q
    show "ep_channels po f = Some q \<longleftrightarrow> (\<exists>c. chans (w\<lparr>chans := (chans w)(p \<mapsto> c')\<rparr>) q = Some c \<and>
        chan_loop c = Some l \<and> chan_fd c = f \<and> enrolled c)"
      using reactor_okD(1) [OF ok l, of f q] out [OF l, of f] free l by (cases "q = p") auto
    show "interest (w_kern (w\<lparr>chans := (chans w)(p \<mapsto> c')\<rparr>)) (ep_fd po) f =
        expected_interest po (chans (w\<lparr>chans := (chans w)(p \<mapsto> c')\<rparr>)) f"
      using reactor_okD(2) [OF ok l, of f] out [OF l, of f]
      by (auto simp: expected_interest_def split: option.splits)
  qed
  then show ?thesis using ok c' by (auto simp: reactor_ok_def)
qed

lemma reactor_ok_revents:
  assumes ok: "reactor_ok interest w" and c: "chans w p = Some c"
    and c': "chan_loop c' = chan_loop c" "chan_fd c' = chan_fd c" "chan_index c' = chan_index c"
      "chan_events c' = chan_events c"
  shows "reactor_ok interest (w\<lparr>chans := (chans w)(p \<mapsto> c')\<rparr>)"
proof -
  have en: "enrolled c' = enrolled c" using c' by (simp add: enrolled_def)
  have "poller_ok interest (w\<lparr>chans := (chans w)(p \<mapsto> c')\<rparr>) l po" if l: "pollers w l = Some po" for l po
    unfolding poller_ok_def
  proof (intro conjI allI ext)
    fix f q
    show "ep_channels po f = Some q \<longleftrightarrow> (\<exists>c. chans (w\<lparr>chans := (chans w)(p \<mapsto> c')\<rparr>) q = Some c \<and>
        chan_loop c = Some l \<and> chan_fd c = f \<and> enrolled c)"
      using reactor_okD(1) [OF ok l, of f q] c c' en by (cases "q = p") auto
    show "interest (w_kern (w\<lparr>chans := (chans w)(p \<mapsto> c')\<rparr>)) (ep_fd po) f =
        expected_interest po (chans (w\<lparr>chans := (chans w)(p \<mapsto> c')\<rparr>)) f"
      using reactor_okD(2) [OF ok l, of f] c c' by (auto simp: expected_interest_def split: option.splits)
  qed
  then show ?thesis using ok c c' en by (auto simp: reactor_ok_def)
qed

text \<open>
  Descriptors are unique in a process: a channel is alone on its fd. Its loop's poller then has
  no other channel for it, and once it is not enrolled the object may go and the fd be closed.
\<close>

definition fd_private :: "('k, 'z) reactor_scheme \<Rightarrow> ptr \<Rightarrow> bool" where
  "fd_private w p \<longleftrightarrow>
     (\<forall>c q d. chans w p = Some c \<longrightarrow> chans w q = Some d \<longrightarrow> chan_fd d = chan_fd c \<longrightarrow> q = p)"

lemma fd_privateD:
  "fd_private w p \<Longrightarrow> chans w p = Some c \<Longrightarrow> chans w q = Some d \<Longrightarrow> chan_fd d = chan_fd c \<Longrightarrow> q = p"
  by (simp add: fd_private_def)

lemma fd_private_alt:
  "fd_private w p \<longleftrightarrow> (\<forall>f q. map_option chan_fd (chans w p) = Some f \<longrightarrow>
     map_option chan_fd (chans w q) = Some f \<longrightarrow> q = p)"
  by (cases "chans w p") (auto simp: fd_private_def)

lemma fd_private_cong:
  "(\<And>q. map_option chan_fd (chans w' q) = map_option chan_fd (chans w q)) \<Longrightarrow> fd_private w' p = fd_private w p"
  by (simp add: fd_private_alt)

lemma may_register_private:
  assumes "reactor_ok interest w" and "fd_private w p"
  shows "may_register w p"
  unfolding may_register_def
proof (intro allI impI)
  fix c l po
  assume c: "chans w p = Some c" and po: "pollers w l = Some po"
  have "q = p" if q: "ep_channels po (chan_fd c) = Some q" for q
  proof -
    obtain d :: channel where "chans w q = Some d" "chan_fd d = chan_fd c"
      using reactor_okD(1) [OF assms(1) po, of "chan_fd c" q] q by blast
    then show ?thesis by (rule fd_privateD [OF assms(2) c])
  qed
  then show "ep_channels po (chan_fd c) = None \<or> ep_channels po (chan_fd c) = Some p"
    by (cases "ep_channels po (chan_fd c)") simp_all
qed

lemma reactor_ok_forget:
  assumes ok: "reactor_ok interest w" and c: "\<And>c. chans w p = Some c \<Longrightarrow> \<not> enrolled c"
  shows "reactor_ok interest (w\<lparr>chans := (chans w)(p := None)\<rparr>)"
proof -
  have out: "ep_channels po f \<noteq> Some p" if "pollers w l = Some po" for l po f
    using reactor_okD(1) [OF ok that, of f p] c by auto
  have "poller_ok interest (w\<lparr>chans := (chans w)(p := None)\<rparr>) l po" if l: "pollers w l = Some po" for l po
    unfolding poller_ok_def
  proof (intro conjI allI ext)
    fix f q
    show "ep_channels po f = Some q \<longleftrightarrow> (\<exists>c. chans (w\<lparr>chans := (chans w)(p := None)\<rparr>) q = Some c \<and>
        chan_loop c = Some l \<and> chan_fd c = f \<and> enrolled c)"
      using reactor_okD(1) [OF ok l, of f q] out [OF l, of f] by (cases "q = p") auto
    show "interest (w_kern (w\<lparr>chans := (chans w)(p := None)\<rparr>)) (ep_fd po) f =
        expected_interest po (chans (w\<lparr>chans := (chans w)(p := None)\<rparr>)) f"
      using reactor_okD(2) [OF ok l, of f] out [OF l, of f]
      by (auto simp: expected_interest_def split: option.splits)
  qed
  then show ?thesis using ok by (auto simp: reactor_ok_def)
qed

lemma reactor_ok_closed:
  assumes ok: "reactor_ok interest w" and free: "\<And>q d. chans w q = Some d \<Longrightarrow> chan_fd d = f \<Longrightarrow> \<not> enrolled d"
    and same: "chans w' = chans w" "pollers w' = pollers w"
    and kern: "interest (w_kern w') = (\<lambda>ep. (interest (w_kern w) ep)(f := None))"
  shows "reactor_ok interest w'"
proof (rule reactor_ok_kern [of interest "w\<lparr>w_kern := w_kern w'\<rparr>"])
  have none: "ep_channels po f = None" if "pollers w l = Some po" for l po
    using reactor_okD(1) [OF ok that, of f] free by (metis option.exhaust)
  have "poller_ok interest (w\<lparr>w_kern := w_kern w'\<rparr>) l po" if "pollers w l = Some po" for l po
    using ok that none [OF that] by (auto simp: reactor_ok_def poller_ok_def kern expected_interest_def fun_eq_iff)
  then show "reactor_ok interest (w\<lparr>w_kern := w_kern w'\<rparr>)" using ok by (simp add: reactor_ok_def)
qed (simp_all add: same)

section \<open>The mutators\<close>

lemma Channel_update_bound:
  assumes spec: "epoll_spec K interest" and ok: "reactor_ok interest w" and may: "may_register w p"
    and c: "chans w p = Some c" "chan_loop c = Some l"
    and upd: "Channel_update K p (upd_chan p (change_events g) w) = Inr w'"
  obtains c' where "chans w' = (chans w)(p \<mapsto> c')"
    and "chan_events c' = g (chan_events c)" and "chan_loop c' = Some l" and "chan_fd c' = chan_fd c"
    and "chan_index c' = (if chan_index c = kAdded \<and> g (chan_events c) = 0 then kDeleted else kAdded)"
    and "w_thread w' = w_thread w" and "reactor_ok interest w'" and "dom (pollers w') = dom (pollers w)"
proof -
  have "EPollPoller_updateChannel K l p (upd_chan p (change_events g) w) = Inr w'"
    using upd c by (simp add: Channel_update_def chan_at_def EventLoop_updateChannel_def)
  from updateChannel_ok [OF spec ok c may this] show thesis by (metis that)
qed

lemma Channel_update_keeps:
  assumes spec: "epoll_spec K interest" and ok: "reactor_ok interest w" and may: "may_register w p"
    and upd: "Channel_update K p (upd_chan p (change_events g) w) = Inr w'"
  shows "reactor_ok interest w'"
proof -
  obtain c where c: "chans w p = Some c"
    using upd by (cases "chans w p") (auto simp: Channel_update_def chan_at_def)
  show ?thesis
  proof (cases "chan_loop c")
    case None
    then have "w' = w\<lparr>chans := (chans w)(p \<mapsto> change_events g c)\<rparr>"
      using upd c by (simp add: Channel_update_def chan_at_def upd_chan_def)
    moreover have "chan_index c = kNew \<or> enrolled c" using ok c by (auto simp: reactor_ok_def)
    ultimately show ?thesis
      using reactor_ok_unbound [OF ok, of "change_events g c" p] c None by simp
  next
    case (Some l)
    from Channel_update_bound [OF spec ok may c Some upd] show ?thesis by metis
  qed
qed

lemma Channel_remove_keeps:
  assumes spec: "epoll_spec K interest" and ok: "reactor_ok interest w" and may: "may_register w p"
    and rem: "Channel_remove K p w = Inr w'" and there: "\<forall>c l. chans w p = Some c \<longrightarrow> chan_loop c = Some l \<longrightarrow> pollers w l \<noteq> None"
  shows "reactor_ok interest w'"
proof -
  obtain c where c: "chans w p = Some c"
    using rem by (cases "chans w p") (auto simp: Channel_remove_def chan_at_def)
  show ?thesis
  proof (cases "chan_loop c")
    case None
    then show ?thesis using rem c ok by (simp add: Channel_remove_def chan_at_def)
  next
    case (Some l)
    then obtain po where "pollers w l = Some po" using there c by auto
    then show ?thesis
      using removeChannel_ok(1) [OF spec ok c Some _ may] rem c Some
      by (simp add: Channel_remove_def chan_at_def EventLoop_removeChannel_def)
  qed
qed

text \<open>The mask the kernel watches for the channel at \<open>p\<close>.\<close>

definition watched_mask ::
  "('k \<Rightarrow> fd \<Rightarrow> fd \<Rightarrow> (32 word \<times> ptr) option) \<Rightarrow> ('k, 'z) reactor_scheme \<Rightarrow> ptr \<Rightarrow> 32 word option" where
  "watched_mask interest w p =
     (case chans w p of None \<Rightarrow> None | Some c \<Rightarrow>
       (case chan_loop c of None \<Rightarrow> None | Some l \<Rightarrow>
         (case pollers w l of None \<Rightarrow> None | Some po \<Rightarrow>
           (case interest (w_kern w) (ep_fd po) (chan_fd c) of
              None \<Rightarrow> None | Some (m, q) \<Rightarrow> if q = p then Some m else None))))"

lemma watched_mask_eq:
  assumes ok: "reactor_ok interest w" and c: "chans w p = Some c" "chan_loop c = Some l"
    and po: "pollers w l = Some po"
  shows "watched_mask interest w p = (if chan_index c = kAdded then Some (chan_events c) else None)"
proof (cases "chan_index c = kAdded")
  case True
  then have "ep_channels po (chan_fd c) = Some p"
    using reactor_okD(1) [OF ok po, of "chan_fd c" p] c by (auto simp: enrolled_def)
  then show ?thesis
    using reactor_okD(2) [OF ok po, of "chan_fd c"] c po True
    by (simp add: watched_mask_def expected_interest_def)
next
  case False
  then show ?thesis
    using reactor_okD(2) [OF ok po, of "chan_fd c"] c po
    by (auto simp: watched_mask_def expected_interest_def split: option.splits if_splits)
qed

section \<open>Registration never aborts\<close>

lemma EPollPoller_update_total:
  assumes "epoll_total K interest" and "chans w p = Some c" and "pollers w l = Some po"
    and "(interest (w_kern w) (ep_fd po) (chan_fd c) = None) = (operation = EPOLL_CTL_ADD)"
  shows "\<exists>w'. EPollPoller_update K l operation p w = Inr w'"
proof -
  obtain r k where k: "k_epoll_ctl K (ep_fd po) operation (chan_fd c) (chan_events c) p (w_kern w) = (r, k)"
    using surj_pair by metis
  have "fst (k_epoll_ctl K (ep_fd po) operation (chan_fd c) (chan_events c) p (w_kern w)) = Inr ()"
    by (rule assms(1) [unfolded epoll_total_def, rule_format, OF assms(4)])
  with k have "r = Inr ()" by simp
  then show ?thesis using assms(2,3) k by (simp add: EPollPoller_update_def poller_at_def chan_at_def syscall_def)
qed

text \<open>Under the invariant every \<^verbatim>\<open>epoll_ctl\<close> the poller issues has its precondition.\<close>

lemma Channel_update_total:
  assumes total: "epoll_total K interest" and ok: "reactor_ok interest w" and may: "may_register w p"
    and c: "chans w p = Some c" and there: "\<And>l. chan_loop c = Some l \<Longrightarrow> pollers w l \<noteq> None"
  shows "\<exists>w'. Channel_update K p (upd_chan p (change_events g) w) = Inr w'"
proof (cases "chan_loop c")
  case None
  then show ?thesis using c by (simp add: Channel_update_def chan_at_def)
next
  case (Some l)
  then obtain po where po: "pollers w l = Some po" using there by auto
  let ?w = "upd_chan p (change_events g) w" and ?e = "change_events g c"
  have idx: "chan_index c = kNew \<or> chan_index c = kAdded \<or> chan_index c = kDeleted"
    using ok c by (auto simp: reactor_ok_def enrolled_def)
  have mine: "ep_channels po (chan_fd c) = Some p" if "chan_index c \<noteq> kNew"
    using reactor_okD(1) [OF ok po, of "chan_fd c" p] c Some idx that by (auto simp: enrolled_def)
  have none: "interest (w_kern w) (ep_fd po) (chan_fd c) = None" if "chan_index c \<noteq> kAdded"
    using reactor_okD(2) [OF ok po, of "chan_fd c"] may c Some po that
    by (auto simp: may_register_def expected_interest_def split: option.splits)
  have some: "interest (w_kern w) (ep_fd po) (chan_fd c) \<noteq> None" if "chan_index c = kAdded"
    using reactor_okD(2) [OF ok po, of "chan_fd c"] mine that c by (simp add: expected_interest_def)
  have upd: "\<exists>w'. EPollPoller_update K l operation p v = Inr w'"
    if "chans v p = Some ?e" "pollers v l = Some po'" "ep_fd po' = ep_fd po" "w_kern v = w_kern w"
      "(operation = EPOLL_CTL_ADD) = (chan_index c \<noteq> kAdded)" for v po' operation
    by (rule EPollPoller_update_total [OF total that(1,2)]) (use that none some in auto)
  let ?v = "upd_poller l (\<lambda>po. po\<lparr>ep_channels := (ep_channels po)(chan_fd c \<mapsto> p)\<rparr>) ?w"
  obtain a where a: "EPollPoller_update K l EPOLL_CTL_ADD p ?v = Inr a" if "chan_index c \<noteq> kAdded"
    using upd [of ?v "po\<lparr>ep_channels := (ep_channels po)(chan_fd c \<mapsto> p)\<rparr>" EPOLL_CTL_ADD] c po by auto
  obtain a' where a': "EPollPoller_update K l EPOLL_CTL_ADD p ?w = Inr a'" if "chan_index c \<noteq> kAdded"
    using upd [of ?w po EPOLL_CTL_ADD] c po by auto
  obtain d where d: "EPollPoller_update K l EPOLL_CTL_DEL p ?w = Inr d" if "chan_index c = kAdded"
    using upd [of ?w po EPOLL_CTL_DEL] c po by auto
  obtain m where m: "EPollPoller_update K l EPOLL_CTL_MOD p ?w = Inr m" if "chan_index c = kAdded"
    using upd [of ?w po EPOLL_CTL_MOD] c po by auto
  show ?thesis
    using idx a a' d m c Some
    by (auto simp: Channel_update_def chan_at_def EventLoop_updateChannel_def EPollPoller_updateChannel_def Let_def)
qed

lemma Channel_remove_total:
  assumes c: "chans w p = Some c" and there: "\<And>l. chan_loop c = Some l \<Longrightarrow> pollers w l \<noteq> None"
  shows "\<exists>w'. Channel_remove K p w = Inr w'"
proof (cases "chan_loop c")
  case (Some l)
  then obtain po where po: "pollers w l = Some po" using there by auto
  let ?w = "upd_poller l (\<lambda>po. po\<lparr>ep_channels := (ep_channels po)(chan_fd c := None)\<rparr>) w"
  have "\<exists>w'. EPollPoller_update K l EPOLL_CTL_DEL p ?w = Inr w'"
    using c po by (auto simp: EPollPoller_update_def poller_at_def chan_at_def Let_def split: prod.splits sum.splits)
  then show ?thesis
    using c Some by (auto simp: Channel_remove_def chan_at_def EventLoop_removeChannel_def EPollPoller_removeChannel_def Let_def)
qed (use c in \<open>simp add: Channel_remove_def chan_at_def\<close>)

text \<open>
  How an owner retires its channel: disable every event, remove the channel from the poller. After
  that no poller and no interest list knows it.
\<close>

lemma retire_channel:
  assumes spec: "epoll_spec K interest" and total: "epoll_total K interest" and ok: "reactor_ok interest w"
    and fd: "fd_private w p" and c: "chans w p = Some c" "chan_loop c = Some l" and po: "pollers w l = Some po"
  obtains w1 w2 c2 where "disableAll K p w = Inr w1" and "Channel_remove K p w1 = Inr w2"
    and "reactor_ok interest w2" and "chans w2 = (chans w)(p \<mapsto> c2)" and "chan_fd c2 = chan_fd c"
    and "\<not> enrolled c2" and "dom (pollers w2) = dom (pollers w)" and "reactor_frame w w2"
proof -
  have may: "may_register w p" by (rule may_register_private [OF ok fd])
  obtain w1 where w1: "disableAll K p w = Inr w1"
    using Channel_update_total [OF total ok may c(1), of "\<lambda>e. kNoneEvent"] c po by (auto simp: disableAll_def)
  note upd = w1 [unfolded disableAll_def]
  obtain c1 where c1: "chans w1 = (chans w)(p \<mapsto> c1)" "chan_loop c1 = Some l" "chan_fd c1 = chan_fd c"
    "reactor_ok interest w1" "dom (pollers w1) = dom (pollers w)"
    by (rule Channel_update_bound [OF spec ok may c upd]) blast
  have fd1: "fd_private w1 p"
    using fd c(1) c1(1,3) fd_private_cong [of w1 w p] by simp
  have may1: "may_register w1 p" by (rule may_register_private [OF c1(4) fd1])
  obtain po1 where po1: "pollers w1 l = Some po1" using c1(5) po by blast
  have p1: "chans w1 p = Some c1" using c1(1) by simp
  obtain w2 where w2: "Channel_remove K p w1 = Inr w2"
    using Channel_remove_total [OF p1] c1(2) po1 by auto
  then have "EPollPoller_removeChannel K l p w1 = Inr w2"
    using p1 c1(2) by (simp add: Channel_remove_def chan_at_def EventLoop_removeChannel_def)
  note r = removeChannel_ok [OF spec c1(4) p1 c1(2) po1 may1 this]
  have frame: "reactor_frame w w2"
    by (rule reactor_frame_trans [OF Channel_update_frame(1) [OF upd] Channel_remove_frame(1) [OF w2]])
  show thesis
  proof (rule that [OF w1 w2 r(1) _ _ _ _ frame])
    show "chans w2 = (chans w)(p \<mapsto> set_index kNew c1)" using r(2) c1(1) by simp
  qed (use r(4) c1 in simp_all)
qed

section \<open>Polling\<close>

lemma upd_chan_revents_eq:
  "chans w p = Some c \<Longrightarrow> upd_chan p (set_revents m) w = w\<lparr>chans := (chans w)(p \<mapsto> set_revents m c)\<rparr>"
  by (simp add: upd_chan_def)

lemma fillActiveChannels_ok:
  assumes "\<And>p. p \<in> snd ` set evs \<Longrightarrow> chans w p \<noteq> None" and "reactor_ok interest w"
    and "distinct (map snd evs)"
  shows "\<exists>w'. fillActiveChannels evs active w = Inr (active @ map snd evs, w') \<and> reactor_ok interest w' \<and>
    pollers w' = pollers w \<and> w_kern w' = w_kern w \<and> reactor_frame w w' \<and>
    (\<forall>q. q \<notin> snd ` set evs \<longrightarrow> chans w' q = chans w q) \<and>
    (\<forall>(m, p) \<in> set evs. chans w' p = map_option (set_revents m) (chans w p))"
  using assms
proof (induction evs arbitrary: active w)
  case (Cons ev evs)
  obtain m p where ev: "ev = (m, p)" by (cases ev)
  obtain c where c: "chans w p = Some c" using Cons.prems(1) [of p] ev by auto
  let ?w = "upd_chan p (set_revents m) w"
  have ok: "reactor_ok interest ?w"
    unfolding upd_chan_revents_eq [OF c] by (rule reactor_ok_revents [OF Cons.prems(2) c]) simp_all
  have there: "chans ?w q \<noteq> None" if "q \<in> snd ` set evs" for q
    using Cons.prems(1) [of q] that by auto
  have pn: "p \<notin> snd ` set evs" and dist: "distinct (map snd evs)" using Cons.prems(3) ev by auto
  from Cons.IH [OF there ok dist, of "active @ [p]"] obtain w' where w':
    "fillActiveChannels evs (active @ [p]) ?w = Inr ((active @ [p]) @ map snd evs, w')" "reactor_ok interest w'"
    "pollers w' = pollers w" "w_kern w' = w_kern w" "reactor_frame w w'"
    "\<forall>q. q \<notin> snd ` set evs \<longrightarrow> chans w' q = chans ?w q"
    "\<forall>(m, p) \<in> set evs. chans w' p = map_option (set_revents m) (chans ?w p)" by auto
  have "fillActiveChannels (ev # evs) active w = Inr (active @ map snd (ev # evs), w')"
    using w'(1) c by (simp add: ev chan_at_def)
  moreover have "\<forall>q. q \<notin> snd ` set (ev # evs) \<longrightarrow> chans w' q = chans w q" using w'(6) ev by auto
  moreover have "chans w' q = map_option (set_revents n) (chans w q)" if "(n, q) \<in> set (ev # evs)" for n q
  proof (cases "q = p")
    case True
    then have "n = m" using that pn ev by force
    then show ?thesis using w'(6) pn True by simp
  next
    case False
    then have "(n, q) \<in> set evs" using that ev by auto
    then show ?thesis using w'(7) False by auto
  qed
  ultimately show ?case using w' by blast
qed auto

lemma reactor_ok_resize:
  assumes "reactor_ok interest w"
  shows "reactor_ok interest (upd_poller l (\<lambda>po. po\<lparr>ep_events_size := n po\<rparr>) w)"
proof -
  have same: "\<exists>po0. pollers w k = Some po0 \<and> ep_channels po = ep_channels po0 \<and> ep_fd po = ep_fd po0"
    if "pollers (upd_poller l (\<lambda>po. po\<lparr>ep_events_size := n po\<rparr>) w) k = Some po" for k po
    using that by (auto split: if_splits)
  have "poller_ok interest (upd_poller l (\<lambda>po. po\<lparr>ep_events_size := n po\<rparr>) w) k po"
    if k: "pollers (upd_poller l (\<lambda>po. po\<lparr>ep_events_size := n po\<rparr>) w) k = Some po" for k po
  proof -
    obtain po0 where po0: "pollers w k = Some po0" "ep_channels po = ep_channels po0" "ep_fd po = ep_fd po0"
      using same [OF k] by blast
    then have "poller_ok interest w k po0" using assms by (simp add: reactor_ok_def)
    then show ?thesis using po0 by (simp add: poller_ok_def expected_interest_def fun_eq_iff)
  qed
  moreover have "l1 = l2"
    if "pollers (upd_poller l (\<lambda>po. po\<lparr>ep_events_size := n po\<rparr>) w) l1 = Some po1"
      "pollers (upd_poller l (\<lambda>po. po\<lparr>ep_events_size := n po\<rparr>) w) l2 = Some po2" "ep_fd po1 = ep_fd po2" for l1 l2 po1 po2
    using same [OF that(1)] same [OF that(2)] that(3) reactor_ok_ep_inj [OF assms] by metis
  moreover have "\<forall>p c. chans w p = Some c \<longrightarrow> chan_index c = kNew \<or> enrolled c"
    using assms by (simp add: reactor_ok_def)
  ultimately show ?thesis unfolding reactor_ok_def upd_poller_simps(2) by blast
qed

text \<open>A pointer the kernel reports for a loop's epoll instance is an added channel of that loop.\<close>

lemma watched_channel:
  assumes "reactor_ok interest w" and "pollers w l = Some po"
    and "interest (w_kern w) (ep_fd po) f = Some (m, p)"
  shows "\<exists>c. chans w p = Some c \<and> chan_loop c = Some l \<and> chan_index c = kAdded \<and> chan_fd c = f"
  using reactor_okD(1) [OF assms(1,2), of f p] reactor_okD(2) [OF assms(1,2), of f] assms(3)
  by (auto simp: expected_interest_def split: option.splits if_splits)

section \<open>Properties\<close>

text \<open>A loop with one channel whose fd the kernel does not watch yet.\<close>

definition sample_reactor :: "sim reactor" where
  "sample_reactor =
     \<lparr>w_kern = sim_init, w_errno = 0, w_log = [], w_thread = 1,
      chans = [11 \<mapsto> Channel_new (Some 1) 7],
      pollers = [1 \<mapsto> \<lparr>ep_channels = Map.empty, ep_fd = 3, ep_events_size = 16\<rparr>]\<rparr>"

text \<open>The same loop after the channel enabled reading, with input waiting and room for one event.\<close>

definition ready_reactor :: "sim reactor" where
  "ready_reactor = sample_reactor\<lparr>
     w_kern := sim_init\<lparr>si_interest := (\<lambda>_ _. None)(3 := [7 \<mapsto> (kReadEvent, 11)]), si_ready := [(7, EPOLLIN)]\<rparr>,
     chans := [11 \<mapsto> (Channel_new (Some 1) 7)\<lparr>chan_events := kReadEvent, chan_index := kAdded\<rparr>],
     pollers := [1 \<mapsto> \<lparr>ep_channels = [7 \<mapsto> 11], ep_fd = 3, ep_events_size = 1\<rparr>]\<rparr>"

lemma sample_reactors_ok:
  "reactor_ok si_interest sample_reactor" "reactor_ok si_interest ready_reactor"
  "may_register sample_reactor 11" "may_register ready_reactor 11"
  by (auto simp: reactor_ok_def poller_ok_def sample_reactor_def ready_reactor_def expected_interest_def
      enrolled_def sim_init_def Channel_new_def may_register_def fun_eq_iff split: if_splits)

text \<open>
  C6: The mask of a channel reaches the kernel. After any of the five mutators of a channel the
  reactor invariant holds, and the kernel watches the channel's fd for exactly the new mask, or
  not at all if a registered channel lost its last event. (A channel that is not registered is
  registered even with an empty mask.)
\<close>

theorem channel_mask_reaches_kernel:
  assumes "epoll_spec K interest" and "reactor_ok interest w" and "may_register w p"
    and "chans w p = Some c" and "chan_loop c = Some l"
    and "(change, g) \<in> set [(enableReading K p, \<lambda>e. e OR kReadEvent),
           (disableReading K p, \<lambda>e. e AND NOT kReadEvent), (enableWriting K p, \<lambda>e. e OR kWriteEvent),
           (disableWriting K p, \<lambda>e. e AND NOT kWriteEvent), (disableAll K p, \<lambda>e. kNoneEvent)]"
    and "change w = Inr w'"
  shows "reactor_ok interest w' \<and>
    watched_mask interest w' p =
      (if chan_index c = kAdded \<and> g (chan_events c) = 0 then None else Some (g (chan_events c)))"
proof -
  have upd: "Channel_update K p (upd_chan p (change_events g) w) = Inr w'"
    using assms(6,7) by (auto simp: channel_mutator_defs)
  obtain po where po: "pollers w l = Some po"
    using upd assms(1-5) by (auto simp: Channel_update_def chan_at_def EventLoop_updateChannel_def elim: updateChannel_ok)
  show ?thesis
  proof (rule Channel_update_bound [OF assms(1-5) upd], goal_cases)
    case (1 c')
    then obtain po' where "pollers w' l = Some po'" using po by blast
    with 1 show ?case by (simp add: watched_mask_eq)
  qed
qed

theorem channel_mask_reaches_kernel_witness:
  "\<exists>w'. disableAll sim_kernel 11 ready_reactor = Inr w' \<and> watched_mask si_interest w' 11 = None"
proof -
  have "\<not> isl (disableAll sim_kernel 11 ready_reactor)" by code_simp
  then obtain w' where w': "disableAll sim_kernel 11 ready_reactor = Inr w'"
    by (cases "disableAll sim_kernel 11 ready_reactor") auto
  show ?thesis
    using channel_mask_reaches_kernel [where g = "\<lambda>e. kNoneEvent" and l = 1 and change = "disableAll sim_kernel 11", OF sim_epoll_spec sample_reactors_ok(2,4) _ _ _ w'] w'
    by (auto simp: ready_reactor_def Channel_new_def kNoneEvent_def)
qed

text \<open>
  Registration never aborts the process: on a reactor that satisfies the invariant every
  \<^verbatim>\<open>epoll_ctl\<close> the poller issues for one of the five mutators has its precondition, so the
  fatal branch of \<^verbatim>\<open>EPollPoller::update\<close> is unreachable unless the kernel lacks memory.
\<close>

lemma mutators_never_abort:
  assumes "epoll_total K interest" and "reactor_ok interest w" and "may_register w p"
    and "chans w p = Some c" and "\<forall>l. chan_loop c = Some l \<longrightarrow> pollers w l \<noteq> None"
    and "change \<in> set [enableReading K p, disableReading K p, enableWriting K p, disableWriting K p, disableAll K p]"
  shows "\<exists>w'. change w = Inr w'"
  using Channel_update_total [OF assms(1-4)] assms(5,6) by (auto simp: channel_mutator_defs)

lemma mutators_never_abort_sample:
  "\<exists>w'. enableReading sim_kernel 11 sample_reactor = Inr w'"
  by (rule mutators_never_abort [OF sim_epoll_total sample_reactors_ok(1,3), of "Channel_new (Some 1) 7"])
    (simp_all add: sample_reactor_def Channel_new_def)

text \<open>
  C20: Removing a channel from its poller forgets it everywhere: the invariant holds, the poller
  has no entry for the channel, and the kernel watches nothing for its fd, so no later poll can
  report it.
\<close>

theorem removed_channel_forgotten:
  assumes "epoll_spec K interest" and "reactor_ok interest w" and "may_register w p"
    and "chans w p = Some c" and "chan_loop c = Some l" and "pollers w l = Some po"
    and "Channel_remove K p w = Inr w'"
  shows "reactor_ok interest w' \<and> hasChannel l p w' = Inr False \<and>
    (\<exists>po'. pollers w' l = Some po' \<and> (\<forall>f m. interest (w_kern w') (ep_fd po') f \<noteq> Some (m, p)))"
proof -
  have "EPollPoller_removeChannel K l p w = Inr w'"
    using assms(4,5,7) by (simp add: Channel_remove_def chan_at_def EventLoop_removeChannel_def)
  from removeChannel_ok [OF assms(1,2,4,5,6,3) this] obtain po' where ok: "reactor_ok interest w'"
    "chans w' p = Some (set_index kNew c)" and po': "pollers w' l = Some po'"
    using assms(6) by auto
  have "ep_channels po' f \<noteq> Some p" for f
    using reactor_okD(1) [OF ok(1) po', of f p] ok(2) by auto
  then have "hasChannel l p w' = Inr False"
    using po' ok(2) by (auto simp: hasChannel_def poller_at_def chan_at_def split: option.splits)
  moreover have "interest (w_kern w') (ep_fd po') f \<noteq> Some (m, p)" for f m
    using watched_channel [OF ok(1) po', of f m p] ok(2) by auto
  ultimately show ?thesis using ok(1) po' by blast
qed

theorem removed_channel_forgotten_witness:
  "\<exists>w'. Channel_remove sim_kernel 11 ready_reactor = Inr w' \<and> hasChannel 1 11 w' = Inr False"
proof -
  have "\<not> isl (Channel_remove sim_kernel 11 ready_reactor)" by code_simp
  then obtain w' where w': "Channel_remove sim_kernel 11 ready_reactor = Inr w'"
    by (cases "Channel_remove sim_kernel 11 ready_reactor") auto
  show ?thesis
    using removed_channel_forgotten [where l = 1, OF sim_epoll_spec sample_reactors_ok(2,4) _ _ _ w'] w'
    by (auto simp: ready_reactor_def Channel_new_def)
qed

text \<open>
  What \<^verbatim>\<open>poll\<close> does with the events of a successful wait, and the state before it looks at them.
\<close>

lemma poll_waits:
  assumes "reads_leave K interest" and "reactor_ok interest w"
    and wait: "syscall (k_epoll_wait K epfd n timeoutMs) w = (r, w1)" and now: "Timestamp_now K w1 = (now, w2)"
  shows "reactor_ok interest w2" and "interest (w_kern w2) = interest (w_kern w)"
    and "chans w2 = chans w" and "pollers w2 = pollers w"
proof -
  have w1: "interest (w_kern w1) = interest (w_kern w)" "chans w1 = chans w" "pollers w1 = pollers w"
    using syscall_leaves [OF reads_leaveD(7) [OF assms(1)] wait] wait by (auto simp: syscall_eq)
  show w2: "interest (w_kern w2) = interest (w_kern w)" "chans w2 = chans w" "pollers w2 = pollers w"
    using now w1 leavesD [OF reads_leaveD(3) [OF assms(1)]]
    by (auto simp: Timestamp_now_def split: prod.splits)
  show "reactor_ok interest w2" by (rule reactor_ok_kern [OF assms(2) w2(2,3,1)])
qed

lemma fill_waited_events:
  assumes "epoll_wait_spec K interest" and "reactor_ok interest w" and "pollers w l = Some po"
    and wait: "syscall (k_epoll_wait K (ep_fd po) n timeoutMs) w = (Inr evs, w1)"
    and w2: "reactor_ok interest w2" "chans w2 = chans w"
  shows "distinct (map snd evs)"
    and "\<exists>w3. fillActiveChannels evs active w2 = Inr (active @ map snd evs, w3) \<and>
      reactor_ok interest w3 \<and> pollers w3 = pollers w2 \<and> w_kern w3 = w_kern w2 \<and>
      (\<forall>q. q \<notin> snd ` set evs \<longrightarrow> chans w3 q = chans w q) \<and>
      (\<forall>(m, p) \<in> set evs. \<exists>c. chans w p = Some c \<and> chan_loop c = Some l \<and> chan_index c = kAdded \<and>
         chans w3 p = Some (set_revents m c))"
proof -
  show evs: "distinct (map snd evs)"
    using assms(1) wait unfolding epoll_wait_spec_def by (auto simp: syscall_eq)
  have "\<exists>f m. interest (w_kern w) (ep_fd po) f = Some (m, p)" if "p \<in> snd ` set evs" for p
    using that assms(1) wait unfolding epoll_wait_spec_def by (auto simp: syscall_eq) (metis imageI snd_conv)
  then have live: "\<exists>c. chans w p = Some c \<and> chan_loop c = Some l \<and> chan_index c = kAdded" if "p \<in> snd ` set evs" for p
    using that watched_channel [OF assms(2,3)] by blast
  obtain w3 where fill: "fillActiveChannels evs active w2 = Inr (active @ map snd evs, w3)"
    "reactor_ok interest w3" "pollers w3 = pollers w2" "w_kern w3 = w_kern w2"
    "\<forall>q. q \<notin> snd ` set evs \<longrightarrow> chans w3 q = chans w q"
    "\<forall>(m, p) \<in> set evs. chans w3 p = map_option (set_revents m) (chans w p)"
    using fillActiveChannels_ok [OF _ w2(1) evs, of active] live w2(2) by fastforce
  moreover have "\<exists>c. chans w p = Some c \<and> chan_loop c = Some l \<and> chan_index c = kAdded \<and> chans w3 p = Some (set_revents m c)"
    if "(m, p) \<in> set evs" for m p
    using live [of p] that fill(6) by force
  ultimately show "\<exists>w3. fillActiveChannels evs active w2 = Inr (active @ map snd evs, w3) \<and>
      reactor_ok interest w3 \<and> pollers w3 = pollers w2 \<and> w_kern w3 = w_kern w2 \<and>
      (\<forall>q. q \<notin> snd ` set evs \<longrightarrow> chans w3 q = chans w q) \<and>
      (\<forall>(m, p) \<in> set evs. \<exists>c. chans w p = Some c \<and> chan_loop c = Some l \<and> chan_index c = kAdded \<and>
         chans w3 p = Some (set_revents m c))"
    by blast
qed



end
