(* ===== verification/EventLoop.thy ===== *)
theory EventLoop
  imports EPollPoller
begin

text \<open>
  \<^verbatim>\<open>src/net/EventLoop.cc\<close> without its timers: the task queue, the wake-up through an eventfd,
  one iteration of the loop and the loop itself. A \<^verbatim>\<open>std::function\<close> in the task queue is a
  \<open>task\<close>, one constructor per function object the sources queue; running a task is the
  argument \<open>run\<close>, running a channel callback the argument \<open>exec\<close>, and both are fixed by
  theory Server, where all their targets are defined. The loop may run forever: it is a partial
  function whose \<open>None\<close> means that it does not return.
\<close>

text \<open>\<^verbatim>\<open>TimerId\<close>: address and sequence number of a timer; the default one is null.\<close>

datatype timer_id = TimerId (timer_of: ptr) (sequence_of: int)

definition TimerId_default :: timer_id where
  "TimerId_default = TimerId 0 0"

text \<open>
  The function objects a connection stores: the user's callbacks by number, the empty lambdas
  a server starts with, and the server's \<^verbatim>\<open>removeConnection\<close> bound to the server's address.
\<close>

datatype conn_callback = cc_user nat | cc_empty | cc_removeConnection ptr

text \<open>The function objects in the task queue, with the values \<^verbatim>\<open>std::bind\<close> copied into them.\<close>

datatype task =
    task_addTimerInLoop ptr ptr
  | task_cancelInLoop ptr timer_id
  | task_sendInLoop ptr string
  | task_shutdownInLoop ptr
  | task_connectEstablished ptr
  | task_connectDestroyed ptr
  | task_writeComplete conn_callback ptr
  | task_removeConnectionInLoop ptr ptr
  | task_listen ptr
  | task_user nat

record event_loop =
  el_looping :: bool
  el_quit :: bool
  el_callingPendingFunctors :: bool
  el_threadId :: nat
  el_wakeupFd :: fd
  el_wakeupChannel :: ptr
  el_activeChannels :: "ptr list"
  el_pendingFunctors :: "task list"

record 'k loop_world = "'k reactor" +
  loops :: "ptr \<Rightarrow> event_loop option"

definition loop_at :: "ptr \<Rightarrow> ('k, 'z) loop_world_scheme \<Rightarrow> event_loop res" where
  "loop_at l w = deref ''dangling EventLoop*'' (loops w l)"

definition upd_loop ::
  "ptr \<Rightarrow> (event_loop \<Rightarrow> event_loop) \<Rightarrow> ('k, 'z) loop_world_scheme \<Rightarrow> ('k, 'z) loop_world_scheme" where
  "upd_loop l f w = w\<lparr>loops := (loops w)(l := map_option f (loops w l))\<rparr>"

definition isInLoopThread :: "ptr \<Rightarrow> ('k, 'z) loop_world_scheme \<Rightarrow> bool res" where
  "isInLoopThread l w = rbind (loop_at l w) (\<lambda>e. Inr (el_threadId e = w_thread w))"

definition assertInLoopThread ::
  "ptr \<Rightarrow> ('k, 'z) loop_world_scheme \<Rightarrow> ('k, 'z) loop_world_scheme res" where
  "assertInLoopThread l w =
     rbind (isInLoopThread l w) (\<lambda>inside.
       if inside then Inr w else LOG_FATAL ''EventLoop used from a non-loop thread'' w)"

definition wakeup ::
  "'k kernel \<Rightarrow> ptr \<Rightarrow> ('k, 'z) loop_world_scheme \<Rightarrow> ('k, 'z) loop_world_scheme res" where
  "wakeup K l w =
     rbind (loop_at l w) (\<lambda>e.
       (case syscall (k_write K (el_wakeupFd e) uint64_one) w of (n, w1) \<Rightarrow>
          if n \<noteq> Inr 8
          then Inr (LOG_ERROR (''EventLoop::wakeup write failed: '' @ k_strerror K (w_errno w1)) w1)
          else Inr w1))"

definition EventLoop_handleRead ::
  "'k kernel \<Rightarrow> ptr \<Rightarrow> ('k, 'z) loop_world_scheme \<Rightarrow> ('k, 'z) loop_world_scheme res" where
  "EventLoop_handleRead K l w =
     rbind (loop_at l w) (\<lambda>e.
       (case syscall (k_read K (el_wakeupFd e) 8) w of (n, w1) \<Rightarrow>
          if map_sum id length n \<noteq> Inr 8
          then Inr (LOG_ERROR (''EventLoop::handleRead read failed: '' @ k_strerror K (w_errno w1)) w1)
          else Inr w1))"

text \<open>
  \<^verbatim>\<open>queueInLoop\<close> has two parts that other threads can interleave with: the push under the
  mutex, and the decision to wake the loop.
\<close>

definition queue_push ::
  "ptr \<Rightarrow> task \<Rightarrow> ('k, 'z) loop_world_scheme \<Rightarrow> ('k, 'z) loop_world_scheme res" where
  "queue_push l cb w =
     rbind (loop_at l w) (\<lambda>e.
       Inr (upd_loop l (\<lambda>e. e\<lparr>el_pendingFunctors := el_pendingFunctors e @ [cb]\<rparr>) w))"

definition queue_wake ::
  "'k kernel \<Rightarrow> ptr \<Rightarrow> ('k, 'z) loop_world_scheme \<Rightarrow> ('k, 'z) loop_world_scheme res" where
  "queue_wake K l w =
     rbind (isInLoopThread l w) (\<lambda>inside. rbind (loop_at l w) (\<lambda>e.
       if \<not> inside \<or> el_callingPendingFunctors e then wakeup K l w else Inr w))"

definition queueInLoop ::
  "'k kernel \<Rightarrow> ptr \<Rightarrow> task \<Rightarrow> ('k, 'z) loop_world_scheme \<Rightarrow> ('k, 'z) loop_world_scheme res" where
  "queueInLoop K l cb w = rbind (queue_push l cb w) (queue_wake K l)"

text \<open>\<^verbatim>\<open>runInLoop\<close>: \<open>body\<close> is what the function object \<open>cb\<close> does when called at once.\<close>

definition runInLoop ::
  "'k kernel \<Rightarrow> ptr \<Rightarrow> task \<Rightarrow> (('k, 'z) loop_world_scheme \<Rightarrow> ('k, 'z) loop_world_scheme res) \<Rightarrow>
   ('k, 'z) loop_world_scheme \<Rightarrow> ('k, 'z) loop_world_scheme res" where
  "runInLoop K l cb body w =
     rbind (isInLoopThread l w) (\<lambda>inside. if inside then body w else queueInLoop K l cb w)"

definition EventLoop_quit ::
  "'k kernel \<Rightarrow> ptr \<Rightarrow> ('k, 'z) loop_world_scheme \<Rightarrow> ('k, 'z) loop_world_scheme res" where
  "EventLoop_quit K l w =
     rbind (loop_at l w) (\<lambda>e.
       let w1 = upd_loop l (\<lambda>e. e\<lparr>el_quit := True\<rparr>) w
       in rbind (isInLoopThread l w1) (\<lambda>inside. if \<not> inside then wakeup K l w1 else Inr w1))"

text \<open>
  \<open>release\<close> is the destructor of the local vector at the end of \<^verbatim>\<open>doPendingFunctors\<close>, which drops
  what the function objects hold (the shared pointers bound into them).
\<close>

definition doPendingFunctors ::
  "(task \<Rightarrow> ('k, 'z) loop_world_scheme \<Rightarrow> ('k, 'z) loop_world_scheme res) \<Rightarrow>
   (task list \<Rightarrow> ('k, 'z) loop_world_scheme \<Rightarrow> ('k, 'z) loop_world_scheme res) \<Rightarrow> ptr \<Rightarrow>
   ('k, 'z) loop_world_scheme \<Rightarrow> ('k, 'z) loop_world_scheme res" where
  "doPendingFunctors run release l w =
     rbind (loop_at l w) (\<lambda>e.
       let functors = el_pendingFunctors e;
           w1 = upd_loop l (\<lambda>e. e\<lparr>el_callingPendingFunctors := True, el_pendingFunctors := []\<rparr>) w
       in rbind (rfold run functors w1) (\<lambda>w2. rbind (loop_at l w2) (\<lambda>_.
            release functors (upd_loop l (\<lambda>e. e\<lparr>el_callingPendingFunctors := False\<rparr>) w2))))"

text \<open>One turn of the \<^verbatim>\<open>while\<close> body: poll, dispatch the active channels, run the queued tasks.\<close>

definition loop_iteration ::
  "'k kernel \<Rightarrow> (event_callback \<Rightarrow> ('k, 'z) loop_world_scheme \<Rightarrow> ('k, 'z) loop_world_scheme res) \<Rightarrow>
   (task \<Rightarrow> ('k, 'z) loop_world_scheme \<Rightarrow> ('k, 'z) loop_world_scheme res) \<Rightarrow>
   (task list \<Rightarrow> ('k, 'z) loop_world_scheme \<Rightarrow> ('k, 'z) loop_world_scheme res) \<Rightarrow> ptr \<Rightarrow>
   ('k, 'z) loop_world_scheme \<Rightarrow> ('k, 'z) loop_world_scheme res" where
  "loop_iteration K exec run release l w =
     rbind (EPollPoller_poll K l kPollTimeMs [] (upd_loop l (\<lambda>e. e\<lparr>el_activeChannels := []\<rparr>) w))
       (\<lambda>(_, active, w1).
          rbind (rfold (Channel_handleEvent exec) active
                   (upd_loop l (\<lambda>e. e\<lparr>el_activeChannels := active\<rparr>) w1))
            (doPendingFunctors run release l))"

partial_function (option) loop_while ::
  "'k kernel \<Rightarrow> (event_callback \<Rightarrow> ('k, 'z) loop_world_scheme \<Rightarrow> ('k, 'z) loop_world_scheme res) \<Rightarrow>
   (task \<Rightarrow> ('k, 'z) loop_world_scheme \<Rightarrow> ('k, 'z) loop_world_scheme res) \<Rightarrow>
   (task list \<Rightarrow> ('k, 'z) loop_world_scheme \<Rightarrow> ('k, 'z) loop_world_scheme res) \<Rightarrow> ptr \<Rightarrow>
   ('k, 'z) loop_world_scheme \<Rightarrow> ('k, 'z) loop_world_scheme res option" where
  "loop_while K exec run release l w =
     (case loop_at l w of
        Inl err \<Rightarrow> Some (Inl err)
      | Inr e \<Rightarrow>
          if el_quit e then Some (Inr w)
          else (case loop_iteration K exec run release l w of
                  Inl err \<Rightarrow> Some (Inl err)
                | Inr w1 \<Rightarrow> loop_while K exec run release l w1))"

definition EventLoop_loop ::
  "'k kernel \<Rightarrow> (event_callback \<Rightarrow> ('k, 'z) loop_world_scheme \<Rightarrow> ('k, 'z) loop_world_scheme res) \<Rightarrow>
   (task \<Rightarrow> ('k, 'z) loop_world_scheme \<Rightarrow> ('k, 'z) loop_world_scheme res) \<Rightarrow>
   (task list \<Rightarrow> ('k, 'z) loop_world_scheme \<Rightarrow> ('k, 'z) loop_world_scheme res) \<Rightarrow> ptr \<Rightarrow>
   ('k, 'z) loop_world_scheme \<Rightarrow> ('k, 'z) loop_world_scheme res option" where
  "EventLoop_loop K exec run release l w =
     map_option (\<lambda>r. rbind r (\<lambda>w1. Inr (upd_loop l (\<lambda>e. e\<lparr>el_looping := False\<rparr>) w1)))
       (loop_while K exec run release l (upd_loop l (\<lambda>e. e\<lparr>el_looping := True, el_quit := False\<rparr>) w))"

text \<open>The first \<open>n\<close> turns of the loop, to say when it returns.\<close>

fun loop_turns ::
  "'k kernel \<Rightarrow> (event_callback \<Rightarrow> ('k, 'z) loop_world_scheme \<Rightarrow> ('k, 'z) loop_world_scheme res) \<Rightarrow>
   (task \<Rightarrow> ('k, 'z) loop_world_scheme \<Rightarrow> ('k, 'z) loop_world_scheme res) \<Rightarrow>
   (task list \<Rightarrow> ('k, 'z) loop_world_scheme \<Rightarrow> ('k, 'z) loop_world_scheme res) \<Rightarrow> ptr \<Rightarrow> nat \<Rightarrow>
   ('k, 'z) loop_world_scheme \<Rightarrow> ('k, 'z) loop_world_scheme res" where
  "loop_turns K exec run release l 0 w = Inr w"
| "loop_turns K exec run release l (Suc n) w = rbind (loop_iteration K exec run release l w) (loop_turns K exec run release l n)"

definition quit_requested :: "ptr \<Rightarrow> ('k, 'z) loop_world_scheme \<Rightarrow> bool" where
  "quit_requested l w \<longleftrightarrow> (\<exists>e. loops w l = Some e \<and> el_quit e)"

section \<open>Lemmas\<close>

lemma upd_loop_simps [simp]:
  "loops (upd_loop l f w) = (loops w)(l := map_option f (loops w l))"
  "chans (upd_loop l f w) = chans w" "pollers (upd_loop l f w) = pollers w"
  "w_kern (upd_loop l f w) = w_kern w" "w_thread (upd_loop l f w) = w_thread w"
  "w_log (upd_loop l f w) = w_log w" "w_errno (upd_loop l f w) = w_errno w"
  by (simp_all add: upd_loop_def)

lemma log_loop_simps [simp]:
  "loops (LOG_ERROR m w) = loops w" "loops (LOG_DEBUG m w) = loops w" "loops (LOG_INFO m w) = loops w"
  by (simp_all add: log_defs)

lemma wakeupE:
  assumes "wakeup K l w = Inr w'"
  obtains e r k where "loops w l = Some e"
    and "k_write K (el_wakeupFd e) uint64_one (w_kern w) = (r, k)" and "w_kern w' = k"
    and "loops w' = loops w" and "chans w' = chans w" and "pollers w' = pollers w"
    and "w_thread w' = w_thread w"
  using assms
  by (auto simp: wakeup_def loop_at_def rbind_eq_Inr syscall_def split: prod.splits if_splits)

lemma wakeup_total: "loops w l = Some e \<Longrightarrow> \<exists>w'. wakeup K l w = Inr w'"
  by (auto simp: wakeup_def loop_at_def split: prod.splits)

lemma queue_push_eq:
  "queue_push l cb w = Inr w' \<longleftrightarrow>
     loops w l \<noteq> None \<and> w' = upd_loop l (\<lambda>e. e\<lparr>el_pendingFunctors := el_pendingFunctors e @ [cb]\<rparr>) w"
  by (auto simp: queue_push_def loop_at_def rbind_eq_Inr)

lemma queue_wakeE:
  assumes "queue_wake K l w = Inr w'"
  obtains e where "loops w l = Some e" and "loops w' = loops w" and "chans w' = chans w"
    and "pollers w' = pollers w" and "w_thread w' = w_thread w"
    and "el_threadId e = w_thread w \<and> \<not> el_callingPendingFunctors e \<Longrightarrow> w' = w"
    and "\<not> (el_threadId e = w_thread w \<and> \<not> el_callingPendingFunctors e) \<Longrightarrow> wakeup K l w = Inr w'"
  using assms
  by (auto simp: queue_wake_def isInLoopThread_def loop_at_def rbind_eq_Inr split: if_splits
      elim: wakeupE)

lemma queueInLoopE:
  assumes "queueInLoop K l cb w = Inr w'"
  obtains e where "loops w l = Some e"
    and "loops w' = (loops w)(l \<mapsto> e\<lparr>el_pendingFunctors := el_pendingFunctors e @ [cb]\<rparr>)"
    and "chans w' = chans w" and "pollers w' = pollers w" and "w_thread w' = w_thread w"
  using assms
  by (auto simp: queueInLoop_def rbind_eq_Inr queue_push_eq elim!: queue_wakeE)

lemma wakeup_more: "wakeup K l w = Inr w' \<Longrightarrow> loop_world.more w' = loop_world.more w"
  by (auto simp: wakeup_def rbind_eq_Inr syscall_def log_defs split: prod.splits if_splits)

lemma queueInLoop_more: "queueInLoop K l cb w = Inr w' \<Longrightarrow> loop_world.more w' = loop_world.more w"
  by (auto simp: queueInLoop_def queue_push_eq queue_wake_def rbind_eq_Inr upd_loop_def
      split: if_splits dest: wakeup_more)

text \<open>The only system call of \<^verbatim>\<open>queueInLoop\<close> is a write to the wake-up fd.\<close>

lemma queueInLoop_kern:
  assumes "queueInLoop K l cb w = Inr w'"
  shows "w_kern w' = w_kern w \<or>
    (\<exists>e r. loops w l = Some e \<and> k_write K (el_wakeupFd e) uint64_one (w_kern w) = (r, w_kern w'))"
proof -
  obtain w1 where push: "queue_push l cb w = Inr w1" and wake: "queue_wake K l w1 = Inr w'"
    using assms by (auto simp: queueInLoop_def rbind_eq_Inr)
  have w1: "w_kern w1 = w_kern w" "loops w1 l = map_option (\<lambda>e. e\<lparr>el_pendingFunctors := el_pendingFunctors e @ [cb]\<rparr>) (loops w l)"
    using push by (auto simp: queue_push_eq)
  from wake consider "w' = w1" | "wakeup K l w1 = Inr w'"
    by (auto simp: queue_wake_def rbind_eq_Inr split: if_splits)
  then show ?thesis
  proof cases
    case 2
    then show ?thesis by (rule wakeupE) (use w1 in auto)
  qed (simp add: w1)
qed

lemma reactor_frame_loops: "reactor_frame w w' \<Longrightarrow> loops w' = loops w"
  by (cases w; cases w') (simp add: reactor_frame_def)

lemma queueInLoop_total:
  assumes "loops w l = Some e"
  shows "\<exists>w'. queueInLoop K l cb w = Inr w'"
proof -
  obtain w1 where w1: "queue_push l cb w = Inr w1" using assms by (auto simp: queue_push_eq)
  then obtain e1 where e1: "loops w1 l = Some e1" using assms by (auto simp: queue_push_eq)
  then show ?thesis using w1 wakeup_total [OF e1, of K]
    by (auto simp: queueInLoop_def queue_wake_def isInLoopThread_def loop_at_def)
qed

lemma assertInLoopThread_eq [simp]:
  "assertInLoopThread l w = Inr w' \<longleftrightarrow> w' = w \<and> (\<exists>e. loops w l = Some e \<and> el_threadId e = w_thread w)"
  by (auto simp: assertInLoopThread_def isInLoopThread_def loop_at_def rbind_eq_Inr)

lemma runInLoop_inside:
  assumes "loops w l = Some e" and "el_threadId e = w_thread w"
  shows "runInLoop K l cb body w = body w"
  using assms by (simp add: runInLoop_def isInLoopThread_def loop_at_def)

lemma runInLoop_outside:
  assumes "loops w l = Some e" and "el_threadId e \<noteq> w_thread w"
  shows "runInLoop K l cb body w = queueInLoop K l cb w"
  using assms by (simp add: runInLoop_def isInLoopThread_def loop_at_def)

lemma loop_while_turn:
  assumes "loops w l = Some e" and "\<not> el_quit e" and "loop_iteration K exec run release l w = Inr w1"
  shows "loop_while K exec run release l w = loop_while K exec run release l w1"
  using assms by (subst loop_while.simps) (simp add: loop_at_def)

lemma loop_while_stop:
  assumes "quit_requested l w"
  shows "loop_while K exec run release l w = Some (Inr w)"
  using assms by (subst loop_while.simps) (auto simp: loop_at_def quit_requested_def)

text \<open>
  The loop returns as soon as a turn leaves \<^verbatim>\<open>quit_\<close> set, and in the state that turn left.
\<close>

lemma loop_while_returns:
  assumes "loop_turns K exec run release l n w = Inr w'" and "quit_requested l w'"
    and "\<And>m v. m < n \<Longrightarrow> loop_turns K exec run release l m w = Inr v \<Longrightarrow> \<exists>e. loops v l = Some e \<and> \<not> el_quit e"
  shows "loop_while K exec run release l w = Some (Inr w')"
  using assms
proof (induction n arbitrary: w)
  case 0
  then show ?case by (simp add: loop_while_stop)
next
  case (Suc n)
  then obtain w1 where w1: "loop_iteration K exec run release l w = Inr w1"
    and rest: "loop_turns K exec run release l n w1 = Inr w'" by (auto simp: rbind_eq_Inr)
  obtain e where e: "loops w l = Some e" "\<not> el_quit e" using Suc.prems(3) [of 0 w] by auto
  have "loop_while K exec run release l w1 = Some (Inr w')"
    using Suc.IH [OF rest Suc.prems(2)] Suc.prems(3) [of "Suc _"] w1 by auto
  then show ?case using loop_while_turn [OF e w1] by simp
qed

text \<open>
  \<open>stops_after n w w'\<close>: the turns \<open>0, ..., n - 1\<close> return with \<^verbatim>\<open>quit_\<close> clear before each of them, and
  the last one leaves \<^verbatim>\<open>quit_\<close> set.
\<close>

definition stops_after ::
  "'k kernel \<Rightarrow> (event_callback \<Rightarrow> ('k, 'z) loop_world_scheme \<Rightarrow> ('k, 'z) loop_world_scheme res) \<Rightarrow>
   (task \<Rightarrow> ('k, 'z) loop_world_scheme \<Rightarrow> ('k, 'z) loop_world_scheme res) \<Rightarrow>
   (task list \<Rightarrow> ('k, 'z) loop_world_scheme \<Rightarrow> ('k, 'z) loop_world_scheme res) \<Rightarrow> ptr \<Rightarrow> nat \<Rightarrow>
   ('k, 'z) loop_world_scheme \<Rightarrow> ('k, 'z) loop_world_scheme \<Rightarrow> bool" where
  "stops_after K exec run release l n w w' \<longleftrightarrow>
     loop_turns K exec run release l n w = Inr w' \<and> quit_requested l w' \<and>
     (\<forall>m<n. \<exists>v e. loop_turns K exec run release l m w = Inr v \<and> loops v l = Some e \<and> \<not> el_quit e)"

lemma stops_after_Suc:
  assumes "loops w l = Some e" and "\<not> el_quit e" and "loop_iteration K exec run release l w = Inr w1"
    and "stops_after K exec run release l n w1 w'"
  shows "stops_after K exec run release l (Suc n) w w'"
proof -
  have "\<exists>v e. loop_turns K exec run release l m w = Inr v \<and> loops v l = Some e \<and> \<not> el_quit e" if "m < Suc n" for m
    using that assms by (cases m) (auto simp: stops_after_def)
  then show ?thesis using assms by (simp add: stops_after_def)
qed

lemma loop_while_stops:
  assumes "loop_while K exec run release l w = Some r"
  shows "\<forall>w'. r = Inr w' \<longrightarrow> (\<exists>n. stops_after K exec run release l n w w')"
proof (rule loop_while.raw_induct [where P = "\<lambda>K exec run release l w r. \<forall>w'. r = Inr w' \<longrightarrow>
      (\<exists>n. stops_after K exec run release l n w w')", OF _ assms], intro allI impI)
  fix lw K exec run release l w r w'
  assume IH: "\<And>K exec run release l w r. lw K exec run release l w = Some r \<Longrightarrow>
      \<forall>w'. r = Inr w' \<longrightarrow> (\<exists>n. stops_after K exec run release l n w w')"
    and body: "(case loop_at l w of Inl err \<Rightarrow> Some (Inl err)
      | Inr e \<Rightarrow> if el_quit e then Some (Inr w)
          else (case loop_iteration K exec run release l w of Inl err \<Rightarrow> Some (Inl err)
                | Inr w1 \<Rightarrow> lw K exec run release l w1)) = Some r"
    and r: "r = Inr w'"
  show "\<exists>n. stops_after K exec run release l n w w'"
  proof (cases "quit_requested l w")
    case True
    then have "stops_after K exec run release l 0 w w'"
      using body r by (auto simp: stops_after_def quit_requested_def loop_at_def)
    then show ?thesis by blast
  next
    case False
    then obtain e w1 where "loops w l = Some e" "\<not> el_quit e"
      "loop_iteration K exec run release l w = Inr w1" "lw K exec run release l w1 = Some (Inr w')"
      using body r by (auto simp: quit_requested_def loop_at_def deref_def split: option.splits sum.splits if_splits)
    then show ?thesis using IH stops_after_Suc by blast
  qed
qed

lemma loop_while_iff:
  "loop_while K exec run release l w = Some (Inr w') \<longleftrightarrow> (\<exists>n. stops_after K exec run release l n w w')"
proof
  show "loop_while K exec run release l w = Some (Inr w') \<Longrightarrow> \<exists>n. stops_after K exec run release l n w w'"
    using loop_while_stops by blast
  assume "\<exists>n. stops_after K exec run release l n w w'"
  then obtain n where n: "stops_after K exec run release l n w w'" by blast
  then have "loop_turns K exec run release l n w = Inr w'" "quit_requested l w'" by (simp_all add: stops_after_def)
  then show "loop_while K exec run release l w = Some (Inr w')"
    by (rule loop_while_returns) (use n in \<open>fastforce simp: stops_after_def\<close>)
qed

section \<open>Properties\<close>

text \<open>The loop as it enters its \<^verbatim>\<open>while\<close>, and as it leaves it.\<close>

definition loop_enter :: "ptr \<Rightarrow> ('k, 'z) loop_world_scheme \<Rightarrow> ('k, 'z) loop_world_scheme" where
  "loop_enter l w = upd_loop l (\<lambda>e. e\<lparr>el_looping := True, el_quit := False\<rparr>) w"

definition loop_leave :: "ptr \<Rightarrow> ('k, 'z) loop_world_scheme \<Rightarrow> ('k, 'z) loop_world_scheme" where
  "loop_leave l w = upd_loop l (\<lambda>e. e\<lparr>el_looping := False\<rparr>) w"



end
