(* ===== verification/Sockets.thy ===== *)
theory Sockets
  imports Kernel_Instance
begin

text \<open>
  \<^verbatim>\<open>src/net/InetAddress.cc\<close>, \<^verbatim>\<open>src/net/SocketsOps.cc\<close> and \<^verbatim>\<open>src/net/Socket.cc\<close>: IPv4 addresses
  in network byte order, the checked wrappers of the socket calls, and the RAII owner of a
  socket fd. The host is little-endian, so \<^verbatim>\<open>htons\<close> and \<^verbatim>\<open>htonl\<close> reverse the bytes. A
  wrapper named \<^verbatim>\<open>...OrDie\<close> aborts on failure, the others log.
\<close>

unbundle bit_operations_syntax

section \<open>InetAddress\<close>

definition htons :: "16 word \<Rightarrow> 16 word" where
  "htons x = push_bit 8 x OR drop_bit 8 x"

definition htonl :: "32 word \<Rightarrow> 32 word" where
  "htonl x = push_bit 24 x OR (push_bit 8 x AND 0x00FF0000) OR
             (drop_bit 8 x AND 0x0000FF00) OR drop_bit 24 x"

definition AF_INET :: int where "AF_INET = 2"
definition INADDR_ANY :: "32 word" where "INADDR_ANY = 0"
definition INADDR_LOOPBACK :: "32 word" where "INADDR_LOOPBACK = 0x7f000001"

definition InetAddress_port :: "16 word \<Rightarrow> bool \<Rightarrow> sockaddr_in" where
  "InetAddress_port port loopbackOnly =
     \<lparr>sin_family = AF_INET, sin_port = htons port,
      sin_addr = htonl (if loopbackOnly then INADDR_LOOPBACK else INADDR_ANY)\<rparr>"

definition InetAddress_ip ::
  "'k kernel \<Rightarrow> string \<Rightarrow> 16 word \<Rightarrow> ('k, 'z) world_scheme \<Rightarrow> sockaddr_in res" where
  "InetAddress_ip K ip port w =
     (case k_inet_pton K ip of
        None \<Rightarrow> LOG_FATAL (''inet_pton failed for ip: '' @ ip) w
      | Some a \<Rightarrow> Inr \<lparr>sin_family = AF_INET, sin_port = htons port, sin_addr = a\<rparr>)"

definition toIp ::
  "'k kernel \<Rightarrow> sockaddr_in \<Rightarrow> ('k, 'z) world_scheme \<Rightarrow> string \<times> ('k, 'z) world_scheme" where
  "toIp K addr w =
     (case k_inet_ntop K (sin_addr addr) of
        None \<Rightarrow> ([], LOG_ERROR ''inet_ntop failed'' w)
      | Some s \<Rightarrow> (s, w))"

definition toIpPort ::
  "'k kernel \<Rightarrow> sockaddr_in \<Rightarrow> ('k, 'z) world_scheme \<Rightarrow> string \<times> ('k, 'z) world_scheme" where
  "toIpPort K addr w =
     (case toIp K addr w of (ip, w1) \<Rightarrow>
        (ip @ '':'' @ to_string (uint (htons (sin_port addr))), w1))"

section \<open>SocketsOps\<close>

definition SOCK_STREAM :: int where "SOCK_STREAM = 1"
definition SOCK_NONBLOCK :: int where "SOCK_NONBLOCK = 2048"
definition SOCK_CLOEXEC :: int where "SOCK_CLOEXEC = 524288"
definition SOMAXCONN :: int where "SOMAXCONN = 4096"
definition F_GETFD :: int where "F_GETFD = 1"
definition F_SETFD :: int where "F_SETFD = 2"
definition F_GETFL :: int where "F_GETFL = 3"
definition F_SETFL :: int where "F_SETFL = 4"
definition O_NONBLOCK :: "32 word" where "O_NONBLOCK = 2048"
definition FD_CLOEXEC :: "32 word" where "FD_CLOEXEC = 1"

definition sockets_errnoMessage :: "'k kernel \<Rightarrow> string \<Rightarrow> ('k, 'z) world_scheme \<Rightarrow> string" where
  "sockets_errnoMessage K action w = action @ '' failed: '' @ k_strerror K (w_errno w)"

definition createSocketOrDie ::
  "'k kernel \<Rightarrow> int \<Rightarrow> ('k, 'z) world_scheme \<Rightarrow> (fd \<times> ('k, 'z) world_scheme) res" where
  "createSocketOrDie K flags w =
     (case syscall (k_socket K (SOCK_STREAM OR flags)) w of
        (Inl e, w1) \<Rightarrow> LOG_FATAL (sockets_errnoMessage K ''socket'' w1) w1
      | (Inr sockfd, w1) \<Rightarrow> Inr (sockfd, w1))"

definition createNonblockingOrDie ::
  "'k kernel \<Rightarrow> ('k, 'z) world_scheme \<Rightarrow> (fd \<times> ('k, 'z) world_scheme) res" where
  "createNonblockingOrDie K w = createSocketOrDie K (SOCK_NONBLOCK OR SOCK_CLOEXEC) w"

definition createBlockingOrDie ::
  "'k kernel \<Rightarrow> ('k, 'z) world_scheme \<Rightarrow> (fd \<times> ('k, 'z) world_scheme) res" where
  "createBlockingOrDie K w = createSocketOrDie K 0 w"

definition bindOrDie ::
  "'k kernel \<Rightarrow> fd \<Rightarrow> sockaddr_in \<Rightarrow> ('k, 'z) world_scheme \<Rightarrow> ('k, 'z) world_scheme res" where
  "bindOrDie K sockfd addr w =
     (case syscall (k_bind K sockfd addr) w of
        (Inl e, w1) \<Rightarrow> LOG_FATAL (sockets_errnoMessage K ''bind'' w1) w1
      | (Inr _, w1) \<Rightarrow> Inr w1)"

definition listenOrDie ::
  "'k kernel \<Rightarrow> fd \<Rightarrow> ('k, 'z) world_scheme \<Rightarrow> ('k, 'z) world_scheme res" where
  "listenOrDie K sockfd w =
     (case syscall (k_listen K sockfd SOMAXCONN) w of
        (Inl e, w1) \<Rightarrow> LOG_FATAL (sockets_errnoMessage K ''listen'' w1) w1
      | (Inr _, w1) \<Rightarrow> Inr w1)"

text \<open>One read-modify-write of the fd's flags; \<open>get\<close> and \<open>set\<close> name the failing call.\<close>

definition fcntl_or ::
  "'k kernel \<Rightarrow> fd \<Rightarrow> int \<Rightarrow> int \<Rightarrow> 32 word \<Rightarrow> string \<Rightarrow> string \<Rightarrow> ('k, 'z) world_scheme \<Rightarrow>
     ('k, 'z) world_scheme" where
  "fcntl_or K sockfd getcmd setcmd flag getname setname w =
     (case syscall (k_fcntl_get K sockfd getcmd) w of
        (Inl e, w1) \<Rightarrow> LOG_ERROR (sockets_errnoMessage K getname w1) w1
      | (Inr flags, w1) \<Rightarrow>
          (case syscall (k_fcntl_set K sockfd setcmd (flags OR flag)) w1 of
             (Inl e, w2) \<Rightarrow> LOG_ERROR (sockets_errnoMessage K setname w2) w2
           | (Inr _, w2) \<Rightarrow> w2))"

definition setNonBlockAndCloseOnExec ::
  "'k kernel \<Rightarrow> fd \<Rightarrow> ('k, 'z) world_scheme \<Rightarrow> ('k, 'z) world_scheme" where
  "setNonBlockAndCloseOnExec K sockfd w =
     fcntl_or K sockfd F_GETFD F_SETFD FD_CLOEXEC ''fcntl F_GETFD'' ''fcntl F_SETFD FD_CLOEXEC''
       (fcntl_or K sockfd F_GETFL F_SETFL O_NONBLOCK ''fcntl F_GETFL'' ''fcntl F_SETFL O_NONBLOCK'' w)"

text \<open>\<^verbatim>\<open>accept\<close> on Linux: \<^verbatim>\<open>accept4\<close>, and \<^verbatim>\<open>accept\<close> with \<^verbatim>\<open>fcntl\<close> where it is missing.\<close>

definition sockets_accept ::
  "'k kernel \<Rightarrow> fd \<Rightarrow> ('k, 'z) world_scheme \<Rightarrow> (fd \<times> sockaddr_in) option \<times> ('k, 'z) world_scheme" where
  "sockets_accept K sockfd w =
     (case syscall (k_accept4 K sockfd (SOCK_NONBLOCK OR SOCK_CLOEXEC)) w of
        (Inr (connfd, addr), w1) \<Rightarrow> (Some (connfd, addr), w1)
      | (Inl e, w1) \<Rightarrow>
          if w_errno w1 \<noteq> ENOSYS \<and> w_errno w1 \<noteq> EINVAL
          then (None, LOG_ERROR (sockets_errnoMessage K ''accept4'' w1) w1)
          else (case syscall (k_accept K sockfd) w1 of
                  (Inl e, w2) \<Rightarrow> (None, LOG_ERROR (sockets_errnoMessage K ''accept'' w2) w2)
                | (Inr (connfd, addr), w2) \<Rightarrow>
                    (Some (connfd, addr), setNonBlockAndCloseOnExec K connfd w2)))"

definition sockets_read ::
  "'k kernel \<Rightarrow> fd \<Rightarrow> nat \<Rightarrow> ('k, 'z) world_scheme \<Rightarrow> (errno + string) \<times> ('k, 'z) world_scheme" where
  "sockets_read K sockfd count w = syscall (k_read K sockfd count) w"

definition sockets_write ::
  "'k kernel \<Rightarrow> fd \<Rightarrow> string \<Rightarrow> ('k, 'z) world_scheme \<Rightarrow> (errno + nat) \<times> ('k, 'z) world_scheme" where
  "sockets_write K sockfd buf w = syscall (k_write K sockfd buf) w"

definition sockets_close :: "'k kernel \<Rightarrow> fd \<Rightarrow> ('k, 'z) world_scheme \<Rightarrow> ('k, 'z) world_scheme" where
  "sockets_close K sockfd w =
     (case syscall (k_close K sockfd) w of
        (Inl e, w1) \<Rightarrow> LOG_ERROR (sockets_errnoMessage K ''close'' w1) w1
      | (Inr _, w1) \<Rightarrow> w1)"

section \<open>Socket\<close>

definition SOL_SOCKET :: int where "SOL_SOCKET = 1"
definition IPPROTO_TCP :: int where "IPPROTO_TCP = 6"
definition TCP_NODELAY :: int where "TCP_NODELAY = 1"
definition SO_REUSEADDR :: int where "SO_REUSEADDR = 2"
definition SO_KEEPALIVE :: int where "SO_KEEPALIVE = 9"
definition SO_REUSEPORT :: int where "SO_REUSEPORT = 15"

text \<open>A \<^verbatim>\<open>Socket\<close> owns its fd: the object is the fd, its destructor closes it.\<close>

datatype socket = Socket (socket_fd: fd)

definition Socket_destroy :: "'k kernel \<Rightarrow> socket \<Rightarrow> ('k, 'z) world_scheme \<Rightarrow> ('k, 'z) world_scheme" where
  "Socket_destroy K s w = sockets_close K (socket_fd s) w"

definition setSocketOption ::
  "'k kernel \<Rightarrow> fd \<Rightarrow> int \<Rightarrow> int \<Rightarrow> bool \<Rightarrow> string \<Rightarrow> ('k, 'z) world_scheme \<Rightarrow> ('k, 'z) world_scheme" where
  "setSocketOption K sockfd level option on optionName w =
     (case syscall (k_setsockopt K sockfd level option (if on then 1 else 0)) w of
        (Inl e, w1) \<Rightarrow>
          LOG_ERROR (''setsockopt '' @ optionName @ '' failed: '' @ k_strerror K (w_errno w1)) w1
      | (Inr _, w1) \<Rightarrow> w1)"

definition bindAddress ::
  "'k kernel \<Rightarrow> socket \<Rightarrow> sockaddr_in \<Rightarrow> ('k, 'z) world_scheme \<Rightarrow> ('k, 'z) world_scheme res" where
  "bindAddress K s localaddr w = bindOrDie K (socket_fd s) localaddr w"

definition Socket_listen ::
  "'k kernel \<Rightarrow> socket \<Rightarrow> ('k, 'z) world_scheme \<Rightarrow> ('k, 'z) world_scheme res" where
  "Socket_listen K s w = listenOrDie K (socket_fd s) w"

definition Socket_accept ::
  "'k kernel \<Rightarrow> socket \<Rightarrow> ('k, 'z) world_scheme \<Rightarrow> (fd \<times> sockaddr_in) option \<times> ('k, 'z) world_scheme" where
  "Socket_accept K s w = sockets_accept K (socket_fd s) w"

definition setTcpNoDelay ::
  "'k kernel \<Rightarrow> socket \<Rightarrow> bool \<Rightarrow> ('k, 'z) world_scheme \<Rightarrow> ('k, 'z) world_scheme" where
  "setTcpNoDelay K s on w = setSocketOption K (socket_fd s) IPPROTO_TCP TCP_NODELAY on ''TCP_NODELAY'' w"

definition setReuseAddr ::
  "'k kernel \<Rightarrow> socket \<Rightarrow> bool \<Rightarrow> ('k, 'z) world_scheme \<Rightarrow> ('k, 'z) world_scheme" where
  "setReuseAddr K s on w = setSocketOption K (socket_fd s) SOL_SOCKET SO_REUSEADDR on ''SO_REUSEADDR'' w"

definition setReusePort ::
  "'k kernel \<Rightarrow> socket \<Rightarrow> bool \<Rightarrow> ('k, 'z) world_scheme \<Rightarrow> ('k, 'z) world_scheme" where
  "setReusePort K s on w = setSocketOption K (socket_fd s) SOL_SOCKET SO_REUSEPORT on ''SO_REUSEPORT'' w"

definition setKeepAlive ::
  "'k kernel \<Rightarrow> socket \<Rightarrow> bool \<Rightarrow> ('k, 'z) world_scheme \<Rightarrow> ('k, 'z) world_scheme" where
  "setKeepAlive K s on w = setSocketOption K (socket_fd s) SOL_SOCKET SO_KEEPALIVE on ''SO_KEEPALIVE'' w"

section \<open>Lemmas\<close>

text \<open>
  What the wrappers touch of the world: the kernel, \<^verbatim>\<open>errno\<close> and the log. The extension
  fields of a larger world are untouched (\<open>world_frame\<close>).
\<close>

definition world_frame :: "('k, 'z) world_scheme \<Rightarrow> ('k, 'z) world_scheme \<Rightarrow> bool" where
  "world_frame w w' \<longleftrightarrow> w_thread w' = w_thread w \<and> world.more w' = world.more w"

lemma world_frame_refl [simp]: "world_frame w w"
  by (simp add: world_frame_def)

lemma world_frame_trans: "world_frame w w1 \<Longrightarrow> world_frame w1 w2 \<Longrightarrow> world_frame w w2"
  by (simp add: world_frame_def)

lemma world_frame_LOG [simp]:
  "world_frame w (LOG_ERROR m w') = world_frame w w'" "world_frame w (LOG_DEBUG m w') = world_frame w w'"
  "world_frame w (LOG_INFO m w') = world_frame w w'"
  by (simp_all add: world_frame_def log_defs)

lemma syscall_frame: "syscall f w = (r, w') \<Longrightarrow> world_frame w w'"
  by (auto simp: syscall_eq world_frame_def)

lemma fcntl_or_frame: "world_frame w (fcntl_or K s g t fl a b w)"
  by (auto simp: fcntl_or_def split: prod.splits sum.splits
      dest!: syscall_frame intro: world_frame_trans)

lemma setSocketOption_frame: "world_frame w (setSocketOption K s l opt on nm w)"
  by (auto simp: setSocketOption_def split: prod.splits sum.splits dest!: syscall_frame)

lemma sockets_close_frame: "world_frame w (sockets_close K s w)"
  by (auto simp: sockets_close_def split: prod.splits sum.splits dest!: syscall_frame)

lemma setNonBlock_frame: "world_frame w (setNonBlockAndCloseOnExec K s w)"
  unfolding setNonBlockAndCloseOnExec_def by (rule world_frame_trans [OF fcntl_or_frame fcntl_or_frame])

lemma sockets_accept_frame: "sockets_accept K s w = (r, w') \<Longrightarrow> world_frame w w'"
  unfolding sockets_accept_def
  by (auto split: prod.splits sum.splits if_splits dest!: syscall_frame
      intro: world_frame_trans world_frame_trans [OF _ setNonBlock_frame])

lemma htons_involutive [simp]: "htons (htons x) = x"
  by (rule bit_word_eqI) (auto simp: htons_def bit_or_iff bit_push_bit_iff bit_drop_bit_eq
      dest: bit_imp_le_length)

text \<open>What the wrappers leave of a view of the kernel, and how they change the open fds.\<close>

lemma fcntl_or_leaves:
  assumes "\<And>f c. leaves (k_fcntl_get K f c) v" and "\<And>f c x. leaves (k_fcntl_set K f c x) v"
  shows "v (w_kern (fcntl_or K s g t fl a b w)) = v (w_kern w)"
  by (auto simp: fcntl_or_def split: prod.splits sum.splits dest!: syscall_leaves [OF assms(1)] syscall_leaves [OF assms(2)])

lemma setNonBlock_leaves:
  assumes "\<And>f c. leaves (k_fcntl_get K f c) v" and "\<And>f c x. leaves (k_fcntl_set K f c x) v"
  shows "v (w_kern (setNonBlockAndCloseOnExec K s w)) = v (w_kern w)"
  by (simp add: setNonBlockAndCloseOnExec_def fcntl_or_leaves [OF assms])

lemma setSocketOption_leaves:
  "(\<And>f l n x. leaves (k_setsockopt K f l n x) v) \<Longrightarrow> v (w_kern (setSocketOption K s l opt on nm w)) = v (w_kern w)"
  by (auto simp: setSocketOption_def split: prod.splits sum.splits dest!: syscall_leaves [of "k_setsockopt K _ _ _ _" v])

lemma sockets_close_kern: "w_kern (sockets_close K s w) = snd (k_close K s (w_kern w))"
  by (auto simp: sockets_close_def syscall_def split: prod.splits sum.splits)

lemma sockets_accept_opened:
  assumes spec: "open_spec K opened" and acc: "sockets_accept K s w = (r, w')"
  shows "case r of None \<Rightarrow> opened (w_kern w') = opened (w_kern w)
    | Some (f, addr) \<Rightarrow> f \<notin> opened (w_kern w) \<and> opened (w_kern w') = insert f (opened (w_kern w))"
proof -
  obtain r1 k1 where k1: "k_accept4 K s (SOCK_NONBLOCK OR SOCK_CLOEXEC) (w_kern w) = (r1, k1)" using surj_pair by metis
  obtain r2 k2 where k2: "k_accept K s k1 = (r2, k2)" using surj_pair by metis
  note flags = setNonBlock_leaves [where v = opened, OF open_specD(6) [OF spec] open_specD(7) [OF spec]]
  show ?thesis
  proof (cases r1)
    case (Inl e)
    note o1 = open_specD(1) [OF spec k1 [unfolded Inl]]
    show ?thesis
    proof (cases r2)
      case (Inl e')
      then show ?thesis
        using acc k1 k2 \<open>r1 = Inl e\<close> o1 open_specD(3) [OF spec k2 [unfolded Inl]]
        by (auto simp: sockets_accept_def syscall_def split: if_splits)
    next
      case (Inr ca)
      obtain c a where ca: "ca = (c, a)" by (cases ca)
      show ?thesis
        using acc k1 k2 \<open>r1 = Inl e\<close> Inr ca o1 open_specD(4) [OF spec k2 [unfolded Inr ca]]
        by (auto simp: sockets_accept_def syscall_def flags split: if_splits)
    qed
  next
    case (Inr ca)
    obtain c a where ca: "ca = (c, a)" by (cases ca)
    show ?thesis
      using acc k1 Inr ca open_specD(2) [OF spec k1 [unfolded Inr ca]]
      by (auto simp: sockets_accept_def syscall_def)
  qed
qed

lemma sockets_accept_leaves:
  assumes "socket_calls_leave K v" and "sockets_accept K s w = (r, w')"
  shows "v (w_kern w') = v (w_kern w)"
proof -
  obtain r1 w1 where a: "syscall (k_accept4 K s (SOCK_NONBLOCK OR SOCK_CLOEXEC)) w = (r1, w1)" using surj_pair by metis
  obtain r2 w2 where b: "syscall (k_accept K s) w1 = (r2, w2)" using surj_pair by metis
  have "leaves (k_accept4 K s (SOCK_NONBLOCK OR SOCK_CLOEXEC)) v" "leaves (k_accept K s) v"
    using assms(1) by (simp_all add: socket_calls_leave_def)
  note v = syscall_leaves [OF this(1) a] syscall_leaves [OF this(2) b]
  have "v (w_kern (setNonBlockAndCloseOnExec K f w2)) = v (w_kern w2)" for f
    using assms(1) by (intro setNonBlock_leaves) (simp_all add: socket_calls_leave_def)
  then show ?thesis
    using assms(2) a b v by (cases r1; cases r2) (auto simp: sockets_accept_def split: if_splits)
qed

end
