(* ===== verification/TimerQueue.thy ===== *)
theory TimerQueue
  imports EventLoop Sockets
begin

text \<open>
  \<^verbatim>\<open>src/net/Timer.cc\<close>, \<^verbatim>\<open>src/net/TimerQueue.cc\<close> and the timer methods of
  \<^verbatim>\<open>src/net/EventLoop.cc\<close>. Timers are heap objects (\<open>timer_heap\<close>, null is address 0); the address
  \<^verbatim>\<open>new\<close> returns is an argument, so it may be one that was freed before. The queue keeps the
  ordered sets \<^verbatim>\<open>timers_\<close>, \<^verbatim>\<open>activeTimers_\<close> and \<^verbatim>\<open>cancelingTimers_\<close>. A user's timer callback
  is a number; what it does is the argument \<open>user\<close> of \<^verbatim>\<open>handleRead\<close>. The invariant
  \<open>timer_queue_ok\<close> carries the list of entries \<^verbatim>\<open>handleRead\<close> has taken out of the queue and not
  yet put back or deleted.
\<close>

record timer =
  tm_callback :: nat
  tm_expiration :: timestamp
  tm_interval :: double
  tm_repeat :: bool
  tm_sequence :: int

type_synonym timer_entry = "timestamp \<times> ptr"
type_synonym active_timer = "ptr \<times> int"

record timer_queue =
  tq_timerfd :: fd
  tq_channel :: ptr
  tq_timers :: "timer_entry list"
  tq_activeTimers :: "active_timer list"
  tq_cancelingTimers :: "active_timer list"
  tq_callingExpiredTimers :: bool

record 'k timer_world = "'k loop_world" +
  timer_heap :: "ptr \<Rightarrow> timer option"
  numCreated :: int
  tqueues :: "ptr \<Rightarrow> timer_queue option"

section \<open>Timers\<close>

text \<open>\<^verbatim>\<open>++s_numCreated_\<close> on an \<^verbatim>\<open>std::atomic<int64_t>\<close> wraps around.\<close>

definition wrap_int64 :: "int \<Rightarrow> int" where
  "wrap_int64 i = (i + 2 ^ 63) mod 2 ^ 64 - 2 ^ 63"

definition Timer_new ::
  "ptr \<Rightarrow> nat \<Rightarrow> timestamp \<Rightarrow> double \<Rightarrow> ('k, 'z) timer_world_scheme \<Rightarrow> ('k, 'z) timer_world_scheme" where
  "Timer_new p cb when interval w =
     (let n = wrap_int64 (numCreated w + 1)
      in w\<lparr>numCreated := n,
           timer_heap := (timer_heap w)(p \<mapsto> \<lparr>tm_callback = cb, tm_expiration = when,
             tm_interval = interval, tm_repeat = double_positive interval, tm_sequence = n\<rparr>)\<rparr>)"

definition timer_at :: "ptr \<Rightarrow> ('k, 'z) timer_world_scheme \<Rightarrow> timer res" where
  "timer_at p w = deref ''dangling Timer*'' (timer_heap w p)"

definition Timer_run ::
  "(nat \<Rightarrow> ('k, 'z) timer_world_scheme \<Rightarrow> ('k, 'z) timer_world_scheme res) \<Rightarrow> ptr \<Rightarrow>
   ('k, 'z) timer_world_scheme \<Rightarrow> ('k, 'z) timer_world_scheme res" where
  "Timer_run user p w = rbind (timer_at p w) (\<lambda>t. user (tm_callback t) w)"

definition Timer_restart ::
  "timestamp \<Rightarrow> ptr \<Rightarrow> ('k, 'z) timer_world_scheme \<Rightarrow> ('k, 'z) timer_world_scheme res" where
  "Timer_restart now p w =
     rbind (timer_at p w) (\<lambda>t.
     rbind (if tm_repeat t then addTime now (tm_interval t) else Inr Timestamp_invalid) (\<lambda>e.
       Inr (w\<lparr>timer_heap := (timer_heap w)(p \<mapsto> t\<lparr>tm_expiration := e\<rparr>)\<rparr>)))"

definition Timer_delete :: "ptr \<Rightarrow> ('k, 'z) timer_world_scheme \<Rightarrow> ('k, 'z) timer_world_scheme res" where
  "Timer_delete p w = rbind (timer_at p w) (\<lambda>_. Inr (w\<lparr>timer_heap := (timer_heap w)(p := None)\<rparr>))"

section \<open>The timerfd\<close>

definition howMuchTimeFromNow ::
  "'k kernel \<Rightarrow> timestamp \<Rightarrow> ('k, 'z) world_scheme \<Rightarrow> ((int \<times> int) \<times> ('k, 'z) world_scheme) res" where
  "howMuchTimeFromNow K when w =
     (case Timestamp_now K w of (now, w1) \<Rightarrow>
        let diff = microSecondsSinceEpoch when - microSecondsSinceEpoch now
        in if \<not> int64 diff then Inl (UndefinedBehaviour ''signed overflow'')
           else let microseconds = (if diff < 100 then 100 else diff)
                in Inr ((microseconds sdiv 1000000, (microseconds smod 1000000) * 1000), w1))"

definition readTimerfd ::
  "'k kernel \<Rightarrow> fd \<Rightarrow> timestamp \<Rightarrow> ('k, 'z) world_scheme \<Rightarrow> ('k, 'z) world_scheme" where
  "readTimerfd K timerfd now w =
     (case syscall (k_read K timerfd 8) w of (n, w1) \<Rightarrow>
        if map_sum id length n \<noteq> Inr 8
        then LOG_ERROR (''TimerQueue::handleRead read failed at '' @ Timestamp_toString now @ '': '' @
                        k_strerror K (w_errno w1)) w1
        else w1)"

definition resetTimerfd ::
  "'k kernel \<Rightarrow> fd \<Rightarrow> timestamp \<Rightarrow> ('k, 'z) world_scheme \<Rightarrow> ('k, 'z) world_scheme res" where
  "resetTimerfd K timerfd expiration w =
     rbind (howMuchTimeFromNow K expiration w) (\<lambda>((sec, nsec), w1).
       (case syscall (k_timerfd_settime K timerfd sec nsec) w1 of
          (Inl e, w2) \<Rightarrow> Inr (LOG_ERROR (''timerfd_settime failed: '' @ k_strerror K (w_errno w2)) w2)
        | (Inr _, w2) \<Rightarrow> Inr w2))"

section \<open>The queue\<close>

definition tq_at :: "ptr \<Rightarrow> ('k, 'z) timer_world_scheme \<Rightarrow> timer_queue res" where
  "tq_at l w = deref ''dangling TimerQueue*'' (tqueues w l)"

definition upd_tq ::
  "ptr \<Rightarrow> (timer_queue \<Rightarrow> timer_queue) \<Rightarrow> ('k, 'z) timer_world_scheme \<Rightarrow> ('k, 'z) timer_world_scheme" where
  "upd_tq l f w = w\<lparr>tqueues := (tqueues w)(l := map_option f (tqueues w l))\<rparr>"

definition UINTPTR_MAX :: nat where
  "UINTPTR_MAX = 2 ^ 64 - 1"

definition createTimerfd ::
  "'k kernel \<Rightarrow> ('k, 'z) world_scheme \<Rightarrow> (fd \<times> ('k, 'z) world_scheme) res" where
  "createTimerfd K w =
     (case syscall (k_timerfd_create K) w of
        (Inl e, w1) \<Rightarrow> LOG_FATAL (''timerfd_create failed: '' @ k_strerror K (w_errno w1)) w1
      | (Inr timerfd, w1) \<Rightarrow> Inr (timerfd, w1))"

text \<open>The constructor; \<open>ch\<close> is the address of the member \<^verbatim>\<open>timerfdChannel_\<close>.\<close>

definition TimerQueue_new ::
  "'k kernel \<Rightarrow> ptr \<Rightarrow> ptr \<Rightarrow> ('k, 'z) timer_world_scheme \<Rightarrow> ('k, 'z) timer_world_scheme res" where
  "TimerQueue_new K l ch w =
     rbind (createTimerfd K w) (\<lambda>(timerfd, w1).
       enableReading K ch
         (w1\<lparr>chans := (chans w1)(ch \<mapsto> setReadCallback (cb_TimerQueue_handleRead l) (Channel_new (Some l) timerfd)),
            tqueues := (tqueues w1)(l \<mapsto> \<lparr>tq_timerfd = timerfd, tq_channel = ch, tq_timers = [],
              tq_activeTimers = [], tq_cancelingTimers = [], tq_callingExpiredTimers = False\<rparr>)\<rparr>))"

definition TimerQueue_destroy ::
  "'k kernel \<Rightarrow> ptr \<Rightarrow> ('k, 'z) timer_world_scheme \<Rightarrow> ('k, 'z) timer_world_scheme res" where
  "TimerQueue_destroy K l w =
     rbind (tq_at l w) (\<lambda>q.
     rbind (disableAll K (tq_channel q) w) (\<lambda>w1.
     rbind (Channel_remove K (tq_channel q) w1) (\<lambda>w2.
     rbind (rfold (\<lambda>entry. Timer_delete (snd entry)) (tq_timers q) (sockets_close K (tq_timerfd q) w2)) (\<lambda>w3.
       Inr (w3\<lparr>tqueues := (tqueues w3)(l := None), chans := (chans w3)(tq_channel q := None)\<rparr>)))))"

definition TimerQueue_insert ::
  "ptr \<Rightarrow> ptr \<Rightarrow> ('k, 'z) timer_world_scheme \<Rightarrow> (bool \<times> ('k, 'z) timer_world_scheme) res" where
  "TimerQueue_insert l p w =
     rbind (tq_at l w) (\<lambda>q. rbind (timer_at p w) (\<lambda>t.
       let when = tm_expiration t;
           earliestChanged = (case tq_timers q of [] \<Rightarrow> True | entry # _ \<Rightarrow> when < fst entry)
       in Inr (earliestChanged,
               upd_tq l (\<lambda>q. q\<lparr>tq_timers := std_set_insert (when, p) (tq_timers q),
                 tq_activeTimers := std_set_insert (p, tm_sequence t) (tq_activeTimers q)\<rparr>) w)))"

definition addTimerInLoop ::
  "'k kernel \<Rightarrow> ptr \<Rightarrow> ptr \<Rightarrow> ('k, 'z) timer_world_scheme \<Rightarrow> ('k, 'z) timer_world_scheme res" where
  "addTimerInLoop K l p w =
     rbind (assertInLoopThread l w) (\<lambda>w.
     rbind (TimerQueue_insert l p w) (\<lambda>(earliestChanged, w1).
       if earliestChanged
       then rbind (tq_at l w1) (\<lambda>q. rbind (timer_at p w1) (\<lambda>t.
              resetTimerfd K (tq_timerfd q) (tm_expiration t) w1))
       else Inr w1))"

definition cancelInLoop ::
  "ptr \<Rightarrow> timer_id \<Rightarrow> ('k, 'z) timer_world_scheme \<Rightarrow> ('k, 'z) timer_world_scheme res" where
  "cancelInLoop l timerId w =
     rbind (assertInLoopThread l w) (\<lambda>w.
     rbind (tq_at l w) (\<lambda>q.
       let timer = (timer_of timerId, sequence_of timerId)
       in if timer \<in> set (tq_activeTimers q) then
            rbind (timer_at (fst timer) w) (\<lambda>t.
            rbind (Timer_delete (fst timer)
                (upd_tq l (\<lambda>q. q\<lparr>tq_timers := std_set_erase (tm_expiration t, fst timer) (tq_timers q)\<rparr>) w)) (\<lambda>w1.
              Inr (upd_tq l (\<lambda>q. q\<lparr>tq_activeTimers := std_set_erase timer (tq_activeTimers q)\<rparr>) w1)))
          else if tq_callingExpiredTimers q then
            Inr (upd_tq l (\<lambda>q. q\<lparr>tq_cancelingTimers := std_set_insert timer (tq_cancelingTimers q)\<rparr>) w)
          else Inr w))"

definition addTimer ::
  "'k kernel \<Rightarrow> ptr \<Rightarrow> ptr \<Rightarrow> nat \<Rightarrow> timestamp \<Rightarrow> double \<Rightarrow> ('k, 'z) timer_world_scheme \<Rightarrow>
     (timer_id \<times> ('k, 'z) timer_world_scheme) res" where
  "addTimer K l p cb when interval w =
     rbind (runInLoop K l (task_addTimerInLoop l p) (addTimerInLoop K l p) (Timer_new p cb when interval w)) (\<lambda>w1.
     rbind (timer_at p w1) (\<lambda>t. Inr (TimerId p (tm_sequence t), w1)))"

definition TimerQueue_cancel ::
  "'k kernel \<Rightarrow> ptr \<Rightarrow> timer_id \<Rightarrow> ('k, 'z) timer_world_scheme \<Rightarrow> ('k, 'z) timer_world_scheme res" where
  "TimerQueue_cancel K l timerId w =
     runInLoop K l (task_cancelInLoop l timerId) (cancelInLoop l timerId) w"

definition erase_active ::
  "ptr \<Rightarrow> timer_entry \<Rightarrow> ('k, 'z) timer_world_scheme \<Rightarrow> ('k, 'z) timer_world_scheme res" where
  "erase_active l entry w =
     rbind (timer_at (snd entry) w) (\<lambda>t.
       Inr (upd_tq l (\<lambda>q. q\<lparr>tq_activeTimers :=
              std_set_erase (snd entry, tm_sequence t) (tq_activeTimers q)\<rparr>) w))"

definition getExpired ::
  "ptr \<Rightarrow> timestamp \<Rightarrow> ('k, 'z) timer_world_scheme \<Rightarrow> (timer_entry list \<times> ('k, 'z) timer_world_scheme) res" where
  "getExpired l now w =
     rbind (tq_at l w) (\<lambda>q.
       let sentry = (now, UINTPTR_MAX);
           expired = std_set_below sentry (tq_timers q)
       in rbind (rfold (erase_active l) expired
                   (upd_tq l (\<lambda>q. q\<lparr>tq_timers := std_set_from sentry (tq_timers q)\<rparr>) w)) (\<lambda>w1.
            Inr (expired, w1)))"

definition reset_one ::
  "ptr \<Rightarrow> timestamp \<Rightarrow> timer_entry \<Rightarrow> ('k, 'z) timer_world_scheme \<Rightarrow> ('k, 'z) timer_world_scheme res" where
  "reset_one l now entry w =
     rbind (timer_at (snd entry) w) (\<lambda>t. rbind (tq_at l w) (\<lambda>q.
       if tm_repeat t \<and> (snd entry, tm_sequence t) \<notin> set (tq_cancelingTimers q)
       then rbind (Timer_restart now (snd entry) w) (\<lambda>w1.
            rbind (TimerQueue_insert l (snd entry) w1) (\<lambda>(_, w2). Inr w2))
       else Timer_delete (snd entry) w))"

definition TimerQueue_reset ::
  "'k kernel \<Rightarrow> ptr \<Rightarrow> timer_entry list \<Rightarrow> timestamp \<Rightarrow> ('k, 'z) timer_world_scheme \<Rightarrow>
     ('k, 'z) timer_world_scheme res" where
  "TimerQueue_reset K l expired now w =
     rbind (rfold (reset_one l now) expired w) (\<lambda>w1.
     rbind (tq_at l w1) (\<lambda>q.
       (case tq_timers q of
          [] \<Rightarrow> Inr w1
        | entry # _ \<Rightarrow> rbind (timer_at (snd entry) w1) (\<lambda>t.
            resetTimerfd K (tq_timerfd q) (tm_expiration t) w1))))"

definition TimerQueue_handleRead ::
  "'k kernel \<Rightarrow> (nat \<Rightarrow> ('k, 'z) timer_world_scheme \<Rightarrow> ('k, 'z) timer_world_scheme res) \<Rightarrow> ptr \<Rightarrow>
   ('k, 'z) timer_world_scheme \<Rightarrow> ('k, 'z) timer_world_scheme res" where
  "TimerQueue_handleRead K user l w =
     rbind (assertInLoopThread l w) (\<lambda>w.
       (case Timestamp_now K w of (now, w1) \<Rightarrow>
          rbind (tq_at l w1) (\<lambda>q.
          rbind (getExpired l now (readTimerfd K (tq_timerfd q) now w1)) (\<lambda>(expired, w2).
          rbind (rfold (\<lambda>entry. Timer_run user (snd entry)) expired
                   (upd_tq l (\<lambda>q. q\<lparr>tq_callingExpiredTimers := True, tq_cancelingTimers := []\<rparr>) w2)) (\<lambda>w3.
            TimerQueue_reset K l expired now
              (upd_tq l (\<lambda>q. q\<lparr>tq_callingExpiredTimers := False\<rparr>) w3))))))"

section \<open>EventLoop's timer methods\<close>

definition EventLoop_runAt ::
  "'k kernel \<Rightarrow> ptr \<Rightarrow> ptr \<Rightarrow> timestamp \<Rightarrow> nat \<Rightarrow> ('k, 'z) timer_world_scheme \<Rightarrow>
     (timer_id \<times> ('k, 'z) timer_world_scheme) res" where
  "EventLoop_runAt K l p time cb w = addTimer K l p cb time (Double 0 0) w"

definition EventLoop_runAfter ::
  "'k kernel \<Rightarrow> ptr \<Rightarrow> ptr \<Rightarrow> double \<Rightarrow> nat \<Rightarrow> ('k, 'z) timer_world_scheme \<Rightarrow>
     (timer_id \<times> ('k, 'z) timer_world_scheme) res" where
  "EventLoop_runAfter K l p delay cb w =
     (case Timestamp_now K w of (now, w1) \<Rightarrow>
        rbind (addTime now delay) (\<lambda>time. EventLoop_runAt K l p time cb w1))"

definition EventLoop_runEvery ::
  "'k kernel \<Rightarrow> ptr \<Rightarrow> ptr \<Rightarrow> double \<Rightarrow> nat \<Rightarrow> ('k, 'z) timer_world_scheme \<Rightarrow>
     (timer_id \<times> ('k, 'z) timer_world_scheme) res" where
  "EventLoop_runEvery K l p interval cb w =
     (case Timestamp_now K w of (now, w1) \<Rightarrow>
        rbind (addTime now interval) (\<lambda>time. addTimer K l p cb time interval w1))"

definition EventLoop_cancel ::
  "'k kernel \<Rightarrow> ptr \<Rightarrow> timer_id \<Rightarrow> ('k, 'z) timer_world_scheme \<Rightarrow> ('k, 'z) timer_world_scheme res" where
  "EventLoop_cancel K l timerId w = TimerQueue_cancel K l timerId w"

definition createEventfd ::
  "'k kernel \<Rightarrow> ('k, 'z) world_scheme \<Rightarrow> (fd \<times> ('k, 'z) world_scheme) res" where
  "createEventfd K w =
     (case syscall (k_eventfd K) w of
        (Inl e, w1) \<Rightarrow> LOG_FATAL (''eventfd failed: '' @ k_strerror K (w_errno w1)) w1
      | (Inr evtfd, w1) \<Rightarrow> Inr (evtfd, w1))"

text \<open>
  The constructor of an event loop at address \<open>l\<close>: poller, timer queue, wake-up channel (at the
  addresses \<open>tch\<close> and \<open>wch\<close>), in the order of the members.
\<close>

definition EventLoop_new ::
  "'k kernel \<Rightarrow> ptr \<Rightarrow> ptr \<Rightarrow> ptr \<Rightarrow> ('k, 'z) timer_world_scheme \<Rightarrow> ('k, 'z) timer_world_scheme res" where
  "EventLoop_new K l tch wch w =
     rbind (EPollPoller_new K l w) (\<lambda>w1.
     rbind (TimerQueue_new K l tch w1) (\<lambda>w2.
     rbind (createEventfd K w2) (\<lambda>(wakeupFd, w3).
       enableReading K wch
         (w3\<lparr>chans := (chans w3)(wch \<mapsto> setReadCallback (cb_EventLoop_handleRead l) (Channel_new (Some l) wakeupFd)),
            loops := (loops w3)(l \<mapsto> \<lparr>el_looping = False, el_quit = False,
              el_callingPendingFunctors = False, el_threadId = w_thread w3, el_wakeupFd = wakeupFd,
              el_wakeupChannel = wch, el_activeChannels = [], el_pendingFunctors = []\<rparr>)\<rparr>))))"

text \<open>
  The destructor's body, then its members in reverse order: the wake-up channel, the timer
  queue, the poller. The tasks still in the queue go with the loop; what else they may hold, such as
  the last reference to a connection, is not followed here.
\<close>

definition EventLoop_destroy ::
  "'k kernel \<Rightarrow> ptr \<Rightarrow> ('k, 'z) timer_world_scheme \<Rightarrow> ('k, 'z) timer_world_scheme res" where
  "EventLoop_destroy K l w =
     rbind (loop_at l w) (\<lambda>e.
     rbind (disableAll K (el_wakeupChannel e) w) (\<lambda>w1.
     rbind (EventLoop_removeChannel K l (el_wakeupChannel e) w1) (\<lambda>w2.
       let w3 = sockets_close K (el_wakeupFd e) w2;
           w4 = w3\<lparr>chans := (chans w3)(el_wakeupChannel e := None)\<rparr>
       in rbind (TimerQueue_destroy K l w4) (\<lambda>w5.
          rbind (EPollPoller_destroy K l w5) (\<lambda>w6.
            Inr (w6\<lparr>loops := (loops w6)(l := None)\<rparr>))))))"

section \<open>The invariant\<close>

text \<open>
  The queue at \<open>l\<close> is consistent, with the entries \<open>E\<close> taken out for running: both sets are
  ordered, every queued timer is allocated and filed under its expiration, the active set names
  exactly the queued timers with their sequence numbers, and the entries taken out are distinct
  allocated timers that are not queued. No timer lives at the null address or at the sentinel
  address of \<^verbatim>\<open>getExpired\<close>.
\<close>

definition timer_queue_ok :: "timer_entry list \<Rightarrow> ptr \<Rightarrow> ('k, 'z) timer_world_scheme \<Rightarrow> bool" where
  "timer_queue_ok E l w \<longleftrightarrow>
     (case tqueues w l of None \<Rightarrow> False | Some q \<Rightarrow>
        std_set_ok (tq_timers q) \<and> std_set_ok (tq_activeTimers q) \<and>
        (\<forall>(t, p) \<in> set (tq_timers q). p < UINTPTR_MAX \<and>
           (case timer_heap w p of None \<Rightarrow> False | Some tm \<Rightarrow>
              tm_expiration tm = t \<and> (p, tm_sequence tm) \<in> set (tq_activeTimers q))) \<and>
        (\<forall>(p, n) \<in> set (tq_activeTimers q).
           (case timer_heap w p of None \<Rightarrow> False | Some tm \<Rightarrow>
              tm_sequence tm = n \<and> (tm_expiration tm, p) \<in> set (tq_timers q))) \<and>
        distinct (map snd E) \<and>
        (\<forall>p \<in> snd ` set E. p < UINTPTR_MAX \<and> timer_heap w p \<noteq> None \<and> p \<notin> snd ` set (tq_timers q)))"

text \<open>The sequence numbers of live timers are distinct and at most the counter.\<close>

definition timer_ids_ok :: "('k, 'z) timer_world_scheme \<Rightarrow> bool" where
  "timer_ids_ok w \<longleftrightarrow>
     (\<forall>p tm. timer_heap w p = Some tm \<longrightarrow> tm_sequence tm \<le> numCreated w) \<and>
     (\<forall>p p' tm tm'. timer_heap w p = Some tm \<longrightarrow> timer_heap w p' = Some tm' \<longrightarrow>
        tm_sequence tm = tm_sequence tm' \<longrightarrow> p = p')"

text \<open>The timer with sequence number \<open>n\<close> was created and is gone.\<close>

definition timer_gone :: "int \<Rightarrow> ('k, 'z) timer_world_scheme \<Rightarrow> bool" where
  "timer_gone n w \<longleftrightarrow>
     n \<le> numCreated w \<and> (\<forall>p tm. timer_heap w p = Some tm \<longrightarrow> tm_sequence tm \<noteq> n)"

section \<open>Lemmas\<close>

lemma upd_tq_simps [simp]:
  "tqueues (upd_tq l f w) = (tqueues w)(l := map_option f (tqueues w l))"
  "timer_heap (upd_tq l f w) = timer_heap w" "numCreated (upd_tq l f w) = numCreated w"
  "loops (upd_tq l f w) = loops w" "w_thread (upd_tq l f w) = w_thread w" "w_kern (upd_tq l f w) = w_kern w"
  by (simp_all add: upd_tq_def)

lemma timer_frame:
  assumes "world_frame w w'"
  shows "timer_heap w' = timer_heap w" and "tqueues w' = tqueues w" and "numCreated w' = numCreated w"
    and "loops w' = loops w" and "w_thread w' = w_thread w"
  using assms by (cases w; cases w'; simp add: world_frame_def)+

lemma Timestamp_now_frame: "Timestamp_now K w = (now, w') \<Longrightarrow> world_frame w w'"
  by (auto simp: Timestamp_now_def world_frame_def split: prod.splits)

lemma howMuchTimeFromNow_frame: "howMuchTimeFromNow K when w = Inr (d, w') \<Longrightarrow> world_frame w w'"
  by (auto simp: howMuchTimeFromNow_def Let_def split: prod.splits if_splits dest: Timestamp_now_frame)

lemma resetTimerfd_frame:
  assumes "resetTimerfd K f e w = Inr w'"
  shows "world_frame w w'"
proof -
  obtain sec nsec w1 where x: "howMuchTimeFromNow K e w = Inr ((sec, nsec), w1)"
    using assms by (auto simp: resetTimerfd_def rbind_eq_Inr)
  have "world_frame w1 w'"
    using assms x by (auto simp: resetTimerfd_def split: prod.splits sum.splits dest: syscall_frame)
  with howMuchTimeFromNow_frame [OF x] show ?thesis by (rule world_frame_trans)
qed

lemma readTimerfd_frame: "world_frame w (readTimerfd K f now w)"
  by (auto simp: readTimerfd_def split: prod.splits dest!: syscall_frame)

lemma timer_queue_ok_frame:
  "world_frame w w' \<Longrightarrow> timer_queue_ok E l w' = timer_queue_ok E l w"
  by (simp add: timer_queue_ok_def timer_frame cong: option.case_cong)

lemma timer_queue_ok_cong:
  "timer_heap w' = timer_heap w \<Longrightarrow> tqueues w' = tqueues w \<Longrightarrow> timer_queue_ok E l w' = timer_queue_ok E l w"
  by (simp add: timer_queue_ok_def cong: option.case_cong)

lemma timer_queue_okE:
  assumes "timer_queue_ok E l w"
  obtains q where "tqueues w l = Some q" and "std_set_ok (tq_timers q)" and "std_set_ok (tq_activeTimers q)"
    and "\<And>t p. (t, p) \<in> set (tq_timers q) \<Longrightarrow> p < UINTPTR_MAX \<and>
          (\<exists>tm. timer_heap w p = Some tm \<and> tm_expiration tm = t \<and> (p, tm_sequence tm) \<in> set (tq_activeTimers q))"
    and "\<And>p n. (p, n) \<in> set (tq_activeTimers q) \<Longrightarrow>
          \<exists>tm. timer_heap w p = Some tm \<and> tm_sequence tm = n \<and> (tm_expiration tm, p) \<in> set (tq_timers q)"
    and "distinct (map snd E)"
    and "\<And>p. p \<in> snd ` set E \<Longrightarrow> p < UINTPTR_MAX \<and> timer_heap w p \<noteq> None \<and> p \<notin> snd ` set (tq_timers q)"
proof -
  obtain q where q: "tqueues w l = Some q" using assms by (auto simp: timer_queue_ok_def split: option.splits)
  show thesis
    by (rule that [OF q]) (use assms q in \<open>auto simp: timer_queue_ok_def split: option.splits\<close>)
qed

lemma timer_queue_okI:
  assumes "tqueues w l = Some q" and "std_set_ok (tq_timers q)" and "std_set_ok (tq_activeTimers q)"
    and "\<And>t p. (t, p) \<in> set (tq_timers q) \<Longrightarrow> p < UINTPTR_MAX \<and>
          (\<exists>tm. timer_heap w p = Some tm \<and> tm_expiration tm = t \<and> (p, tm_sequence tm) \<in> set (tq_activeTimers q))"
    and "\<And>p n. (p, n) \<in> set (tq_activeTimers q) \<Longrightarrow>
          \<exists>tm. timer_heap w p = Some tm \<and> tm_sequence tm = n \<and> (tm_expiration tm, p) \<in> set (tq_timers q)"
    and "distinct (map snd E)"
    and "\<And>p. p \<in> snd ` set E \<Longrightarrow> p < UINTPTR_MAX \<and> timer_heap w p \<noteq> None \<and> p \<notin> snd ` set (tq_timers q)"
  shows "timer_queue_ok E l w"
  using assms by (fastforce simp: timer_queue_ok_def split: option.splits)

text \<open>A queued timer is filed once.\<close>

lemma timer_entry_unique:
  assumes "timer_queue_ok E l w" and "tqueues w l = Some q"
    and "(t, p) \<in> set (tq_timers q)" and "(t', p) \<in> set (tq_timers q)"
  shows "t = t'"
  using assms by (elim timer_queue_okE) (metis option.inject)

lemma timer_queue_ok_heap:
  assumes ok: "timer_queue_ok E l w" and q: "tqueues w l = Some q" and p: "p \<notin> snd ` set (tq_timers q)"
    and w': "timer_heap w' = (timer_heap w)(p := x)" "tqueues w' l = Some q" and x: "x = None \<Longrightarrow> p \<notin> snd ` set E"
  shows "timer_queue_ok E l w'"
proof (rule timer_queue_okE [OF ok], goal_cases)
  case (1 q')
  then have qq: "q' = q" using q by simp
  show ?case
  proof (rule timer_queue_okI [OF w'(2)], goal_cases)
    case (3 t r)
    then have "r \<noteq> p" using p by force
    then show ?case using 1(4) [of t r] 3 by (simp add: qq w'(1))
  next
    case (4 r n)
    then obtain tm where tm: "timer_heap w r = Some tm" "tm_sequence tm = n" "(tm_expiration tm, r) \<in> set (tq_timers q)"
      using 1(5) [of r n] qq by auto
    then have "r \<noteq> p" using p by force
    then show ?case using tm by (simp add: w'(1))
  next
    case (6 r)
    then show ?case using 1(7) [of r] x by (cases "r = p") (auto simp: qq w'(1))
  qed (use 1 qq in auto)
qed

lemma timer_queue_ok_E:
  assumes ok: "timer_queue_ok E l w" and E': "set E' \<subseteq> set E" "distinct (map snd E')"
  shows "timer_queue_ok E' l w"
proof (rule timer_queue_okE [OF ok], goal_cases)
  case (1 q)
  have "snd ` set E' \<subseteq> snd ` set E" using E'(1) by (rule image_mono)
  then show ?case by (intro timer_queue_okI [OF 1(1)]) (use 1 E' in blast)+
qed

lemma timer_queue_ok_Cons:
  assumes "timer_queue_ok (x # rest) l w" and "tqueues w l = Some q"
  shows "snd x < UINTPTR_MAX" and "timer_heap w (snd x) \<noteq> None" and "snd x \<notin> snd ` set (tq_timers q)"
    and "snd x \<notin> snd ` set rest" and "timer_queue_ok rest l w"
proof -
  show "timer_queue_ok rest l w"
    by (rule timer_queue_ok_E [OF assms(1)]) (use assms(1) in \<open>auto elim!: timer_queue_okE\<close>)
  have "distinct (map snd (x # rest))" by (rule timer_queue_okE [OF assms(1)])
  then show "snd x \<notin> snd ` set rest" by simp
  have "snd x < UINTPTR_MAX \<and> timer_heap w (snd x) \<noteq> None \<and> snd x \<notin> snd ` set (tq_timers q)"
    by (rule timer_queue_okE [OF assms(1)]) (use assms(2) in simp)
  then show "snd x < UINTPTR_MAX" and "timer_heap w (snd x) \<noteq> None" and "snd x \<notin> snd ` set (tq_timers q)"
    by blast+
qed

lemma Timer_new_ok:
  assumes ok: "timer_queue_ok E l w" and p: "timer_heap w p = None"
  shows "timer_queue_ok E l (Timer_new p cb when interval w)"
proof (rule timer_queue_okE [OF ok], goal_cases)
  case (1 q)
  then have "p \<notin> snd ` set (tq_timers q)" using p by force
  moreover have "timer_heap (Timer_new p cb when interval w) =
      (timer_heap w)(p \<mapsto> the (timer_heap (Timer_new p cb when interval w) p))"
    "tqueues (Timer_new p cb when interval w) l = Some q"
    using 1(1) by (simp_all add: Timer_new_def Let_def)
  ultimately show ?case by (rule timer_queue_ok_heap [OF ok 1(1)]) simp
qed

text \<open>
  Inserting a timer that is not queued. The flag tells whether the earliest expiration moved:
  in both cases it is the first one of the queue afterwards.
\<close>

lemma TimerQueue_insert_ok:
  assumes ok: "timer_queue_ok E l w" and q: "tqueues w l = Some q" and t: "timer_heap w p = Some t"
    and p: "p < UINTPTR_MAX" "p \<notin> snd ` set (tq_timers q)" "p \<notin> snd ` set E"
  obtains earliest w' where "TimerQueue_insert l p w = Inr (earliest, w')" and "timer_queue_ok E l w'"
    and "tqueues w' = (tqueues w)(l \<mapsto> q\<lparr>tq_timers := std_set_insert (tm_expiration t, p) (tq_timers q),
           tq_activeTimers := std_set_insert (p, tm_sequence t) (tq_activeTimers q)\<rparr>)"
    and "timer_heap w' = timer_heap w" and "numCreated w' = numCreated w" and "loops w' = loops w"
    and "w_thread w' = w_thread w"
    and "earliest \<longleftrightarrow> tq_timers q = [] \<or> tm_expiration t < fst (hd (tq_timers q))"
proof -
  let ?q = "q\<lparr>tq_timers := std_set_insert (tm_expiration t, p) (tq_timers q),
              tq_activeTimers := std_set_insert (p, tm_sequence t) (tq_activeTimers q)\<rparr>"
  let ?w = "upd_tq l (\<lambda>q. q\<lparr>tq_timers := std_set_insert (tm_expiration t, p) (tq_timers q),
              tq_activeTimers := std_set_insert (p, tm_sequence t) (tq_activeTimers q)\<rparr>) w"
  let ?e = "case tq_timers q of [] \<Rightarrow> True | entry # _ \<Rightarrow> tm_expiration t < fst entry"
  have eq: "TimerQueue_insert l p w = Inr (?e, ?w)"
    using q t by (simp add: TimerQueue_insert_def tq_at_def timer_at_def Let_def)
  have "timer_queue_ok E l ?w"
  proof (rule timer_queue_okE [OF ok], goal_cases)
    case (1 q')
    then have qq: "q' = q" using q by simp
    show ?case
    proof (rule timer_queue_okI [of _ _ ?q], goal_cases)
      case (4 u r)
      then show ?case using 1(4) [of u r] t p qq by auto
    next
      case (5 r n)
      then show ?case using 1(5) [of r n] t qq by auto
    next
      case (7 r)
      then show ?case using 1(7) [of r] p qq by auto
    qed (use 1 qq q in auto)
  qed
  then show thesis using that [OF eq] q by (auto split: list.splits)
qed

lemma addTimerInLoop_ok:
  assumes ok: "timer_queue_ok E l w" and q: "tqueues w l = Some q" and t: "timer_heap w p = Some t"
    and p: "p < UINTPTR_MAX" "p \<notin> snd ` set (tq_timers q)" "p \<notin> snd ` set E"
    and add: "addTimerInLoop K l p w = Inr w'"
  shows "timer_queue_ok E l w'" and "timer_heap w' = timer_heap w" and "numCreated w' = numCreated w"
    and "\<exists>q'. tqueues w' = (tqueues w)(l \<mapsto> q') \<and>
           set (tq_timers q') = insert (tm_expiration t, p) (set (tq_timers q))"
    and "loops w' = loops w" and "w_thread w' = w_thread w"
proof -
  obtain earliest w1 where ins: "TimerQueue_insert l p w = Inr (earliest, w1)" and w1: "timer_queue_ok E l w1"
    "tqueues w1 = (tqueues w)(l \<mapsto> q\<lparr>tq_timers := std_set_insert (tm_expiration t, p) (tq_timers q),
           tq_activeTimers := std_set_insert (p, tm_sequence t) (tq_activeTimers q)\<rparr>)"
    "timer_heap w1 = timer_heap w" "numCreated w1 = numCreated w" "loops w1 = loops w" "w_thread w1 = w_thread w"
    by (rule TimerQueue_insert_ok [OF ok q t p])
  have frame: "world_frame w1 w'"
    using add ins by (auto simp: addTimerInLoop_def rbind_eq_Inr [of "assertInLoopThread _ _"] rbind_eq_Inr
        split: if_splits dest: resetTimerfd_frame)
  show "timer_queue_ok E l w'" using w1(1) timer_queue_ok_frame [OF frame] by simp
  show "timer_heap w' = timer_heap w" "numCreated w' = numCreated w" "loops w' = loops w" "w_thread w' = w_thread w"
    using w1 timer_frame [OF frame] by simp_all
  show "\<exists>q'. tqueues w' = (tqueues w)(l \<mapsto> q') \<and>
           set (tq_timers q') = insert (tm_expiration t, p) (set (tq_timers q))"
    using w1(2) timer_frame(2) [OF frame] by auto
qed

text \<open>\<^verbatim>\<open>cancelInLoop\<close> in its three cases.\<close>

lemma cancelInLoop_ok:
  assumes ok: "timer_queue_ok E l w" and q: "tqueues w l = Some q"
    and thread: "loops w l = Some e" "el_threadId e = w_thread w"
  obtains (queued) w' tm where "cancelInLoop l (TimerId p n) w = Inr w'" and "timer_queue_ok E l w'"
      and "timer_heap w p = Some tm" and "tm_sequence tm = n" and "timer_heap w' = (timer_heap w)(p := None)"
      and "\<exists>q'. tqueues w' = (tqueues w)(l \<mapsto> q') \<and>
             set (tq_timers q') = set (tq_timers q) - {(tm_expiration tm, p)}"
      and "(tm_expiration tm, p) \<in> set (tq_timers q)" and "numCreated w' = numCreated w"
      and "loops w' = loops w" and "w_thread w' = w_thread w"
    | (running) "cancelInLoop l (TimerId p n) w =
          Inr (upd_tq l (\<lambda>q. q\<lparr>tq_cancelingTimers := std_set_insert (p, n) (tq_cancelingTimers q)\<rparr>) w)"
      and "tq_callingExpiredTimers q" and "(p, n) \<notin> set (tq_activeTimers q)"
      and "timer_queue_ok E l (upd_tq l (\<lambda>q. q\<lparr>tq_cancelingTimers := std_set_insert (p, n) (tq_cancelingTimers q)\<rparr>) w)"
    | (ignored) "cancelInLoop l (TimerId p n) w = Inr w" and "\<not> tq_callingExpiredTimers q"
      and "(p, n) \<notin> set (tq_activeTimers q)"
proof -
  note unfold = cancelInLoop_def assertInLoopThread_def isInLoopThread_def loop_at_def tq_at_def timer_at_def
    Timer_delete_def Let_def
  show thesis
  proof (cases "(p, n) \<in> set (tq_activeTimers q)")
    case False
    have "timer_queue_ok E l (upd_tq l (\<lambda>q. q\<lparr>tq_cancelingTimers := std_set_insert (p, n) (tq_cancelingTimers q)\<rparr>) w)"
      by (rule timer_queue_okE [OF ok], rule timer_queue_okI [where q = "q\<lparr>tq_cancelingTimers := std_set_insert (p, n) (tq_cancelingTimers q)\<rparr>"])
        (use q in auto)
    then show thesis
      using running ignored False q thread by (cases "tq_callingExpiredTimers q") (simp_all add: unfold)
  next
    case True
    show thesis
    proof (rule timer_queue_okE [OF ok], goal_cases)
      case (1 q')
      then have qq: "q' = q" using q by simp
      obtain tm where tm: "timer_heap w p = Some tm" "tm_sequence tm = n" "(tm_expiration tm, p) \<in> set (tq_timers q)"
        using 1(5) [of p n] True qq by auto
      let ?q = "q\<lparr>tq_timers := std_set_erase (tm_expiration tm, p) (tq_timers q),
                  tq_activeTimers := std_set_erase (p, n) (tq_activeTimers q)\<rparr>"
      obtain w' where can: "cancelInLoop l (TimerId p n) w = Inr w'"
        and w': "timer_heap w' = (timer_heap w)(p := None)" "tqueues w' = (tqueues w)(l \<mapsto> ?q)"
        and count: "numCreated w' = numCreated w" "loops w' = loops w" "w_thread w' = w_thread w"
        using True q thread tm by (simp add: unfold upd_tq_def)
      have "timer_queue_ok E l w'"
      proof (rule timer_queue_okI [of _ _ ?q], goal_cases)
        case (4 u r)
        then have "r \<noteq> p" using timer_entry_unique [OF ok q] tm(3) by auto
        then show ?case using 4 1(4) [of u r] by (auto simp: qq w')
      next
        case (5 r m)
        then have "r \<noteq> p" using 1(5) [of r m] tm qq by auto
        then show ?case using 5 1(5) [of r m] by (auto simp: qq w')
      next
        case (7 r)
        then have "r \<noteq> p" using 1(7) [of r] tm(3) qq by force
        then show ?case using 7 1(7) [of r] by (auto simp: qq w')
      qed (use 1 qq w' in auto)
      moreover have "\<exists>q'. tqueues w' = (tqueues w)(l \<mapsto> q') \<and>
          set (tq_timers q') = set (tq_timers q) - {(tm_expiration tm, p)}"
        by (rule exI [of _ ?q]) (simp add: w'(2))
      ultimately show thesis using queued [OF can _ tm(1,2) w'(1) _ tm(3) count] by blast
    qed
  qed
qed

section \<open>Expiry\<close>

definition active_names :: "(ptr \<Rightarrow> timer option) \<Rightarrow> timer_entry list \<Rightarrow> active_timer list" where
  "active_names h xs = map (\<lambda>entry. (snd entry, tm_sequence (the (h (snd entry))))) xs"

lemma erase_active_all:
  assumes "tqueues w l = Some q" and "\<And>entry. entry \<in> set xs \<Longrightarrow> timer_heap w (snd entry) \<noteq> None"
  shows "rfold (erase_active l) xs w =
    Inr (upd_tq l (\<lambda>q. q\<lparr>tq_activeTimers :=
           filter (\<lambda>a. a \<notin> set (active_names (timer_heap w) xs)) (tq_activeTimers q)\<rparr>) w)"
  using assms
proof (induction xs arbitrary: w q)
  case Nil
  then show ?case by (simp add: active_names_def upd_tq_def fun_upd_idem)
next
  case (Cons x xs)
  obtain tm where tm: "timer_heap w (snd x) = Some tm" using Cons.prems(2) [of x] by auto
  let ?w = "upd_tq l (\<lambda>q. q\<lparr>tq_activeTimers := std_set_erase (snd x, tm_sequence tm) (tq_activeTimers q)\<rparr>) w"
  have "rfold (erase_active l) xs ?w = Inr (upd_tq l (\<lambda>q. q\<lparr>tq_activeTimers :=
           filter (\<lambda>a. a \<notin> set (active_names (timer_heap ?w) xs)) (tq_activeTimers q)\<rparr>) ?w)"
    by (rule Cons.IH) (use Cons.prems in auto)
  moreover have "erase_active l x w = Inr ?w" using tm by (simp add: erase_active_def timer_at_def)
  ultimately show ?case
    using tm Cons.prems(1) by (simp add: upd_tq_def active_names_def std_set_erase_def conj_commute)
qed

lemma expired_entry: "p < UINTPTR_MAX \<Longrightarrow> (t, p) < (now, UINTPTR_MAX) \<longleftrightarrow> t \<le> now"
  for t now :: timestamp
  by (auto simp: less_prod_def)

text \<open>
  The two halves of \<^verbatim>\<open>timers_\<close> at the sentry, and the queue after the first half and its names are
  taken out.
\<close>

lemma due_halves:
  assumes ok: "timer_queue_ok [] l w" and q: "tqueues w l = Some q"
  shows "set (std_set_below (now, UINTPTR_MAX) (tq_timers q)) = {(t, p) \<in> set (tq_timers q). t \<le> now}"
    and "set (std_set_from (now, UINTPTR_MAX) (tq_timers q)) = {(t, p) \<in> set (tq_timers q). now < t}"
    and "distinct (map snd (std_set_below (now, UINTPTR_MAX) (tq_timers q)))"
proof -
  let ?x = "std_set_below (now, UINTPTR_MAX) (tq_timers q)"
  have set: "std_set_ok (tq_timers q)" and entry: "(t, p) \<in> set (tq_timers q) \<Longrightarrow> p < UINTPTR_MAX" for t p
    by (rule timer_queue_okE [OF ok]; use q in auto)+
  show due: "set ?x = {(t, p) \<in> set (tq_timers q). t \<le> now}"
    and "set (std_set_from (now, UINTPTR_MAX) (tq_timers q)) = {(t, p) \<in> set (tq_timers q). now < t}"
    using set entry expired_entry [of _ _ now]
    by (auto simp del: less_prod_simp simp: set_std_set_below set_std_set_from not_le)
  have "distinct ?x" by (rule std_set_ok_distinct [OF std_set_ok_below [OF set]])
  moreover have "inj_on snd (set ?x)" using timer_entry_unique [OF ok q] due by (auto simp: inj_on_def)
  ultimately show "distinct (map snd ?x)" by (simp add: distinct_map)
qed

lemma take_due_ok:
  assumes ok: "timer_queue_ok [] l w" and q: "tqueues w l = Some q"
    and x: "x = std_set_below (now, UINTPTR_MAX) (tq_timers q)" and r: "r = std_set_from (now, UINTPTR_MAX) (tq_timers q)"
    and w': "w' = w\<lparr>tqueues := (tqueues w)(l \<mapsto> q\<lparr>tq_timers := r,
      tq_activeTimers := filter (\<lambda>a. a \<notin> set (active_names (timer_heap w) x)) (tq_activeTimers q)\<rparr>)\<rparr>"
  shows "timer_queue_ok x l w'"
proof (rule timer_queue_okE [OF ok], goal_cases)
  case (1 q0)
  then have qq: "q0 = q" using q by simp
  note due = due_halves [OF ok q, of now, folded x r]
  have names: "(p, n) \<in> set (active_names (timer_heap w) x) \<longleftrightarrow>
      (\<exists>t tm. (t, p) \<in> set x \<and> timer_heap w p = Some tm \<and> tm_sequence tm = n)" for p n
    using 1(4) qq due(1) by (force simp: active_names_def image_iff)
  show ?case
  proof (rule timer_queue_okI [of _ _ "q\<lparr>tq_timers := r,
      tq_activeTimers := filter (\<lambda>a. a \<notin> set (active_names (timer_heap w) x)) (tq_activeTimers q)\<rparr>"], goal_cases)
    case (4 t p)
    then have late: "(t, p) \<in> set (tq_timers q)" "now < t" using due(2) by simp_all
    then obtain tm where tm: "p < UINTPTR_MAX" "timer_heap w p = Some tm" "tm_expiration tm = t"
      "(p, tm_sequence tm) \<in> set (tq_activeTimers q)" using 1(4) [of t p] qq by auto
    have "(t', p) \<notin> set x" for t'
      using timer_entry_unique [OF ok q late(1), of t'] late(2) unfolding due(1) by auto
    then show ?case using tm names by (simp add: w')
  next
    case (5 p n)
    then have a: "(p, n) \<in> set (tq_activeTimers q)" "(p, n) \<notin> set (active_names (timer_heap w) x)" by auto
    then obtain tm where tm: "timer_heap w p = Some tm" "tm_sequence tm = n" "(tm_expiration tm, p) \<in> set (tq_timers q)"
      using 1(5) [of p n] qq by auto
    then have "\<not> tm_expiration tm \<le> now" using a(2) names due(1) by auto
    then show ?case using tm due by (auto simp: w')
  next
    case (7 p)
    then obtain t where t: "(t, p) \<in> set (tq_timers q)" "t \<le> now" using due(1) by auto
    have "(t', p) \<notin> set r" for t'
      using timer_entry_unique [OF ok q t(1), of t'] t(2) unfolding due(2) by auto
    then have "p \<notin> snd ` set r" by auto
    then show ?case using 1(4) [of t p] t(1) qq by (simp add: w') blast
  qed (use 1 qq due(3) r in \<open>auto simp: w'\<close>)
qed

text \<open>
  \<^verbatim>\<open>getExpired\<close> takes out exactly the timers that are due, earliest first, and leaves the others
  queued.
\<close>

lemma getExpired_ok:
  assumes ok: "timer_queue_ok [] l w" and q: "tqueues w l = Some q"
  obtains expired w' q' where "getExpired l now w = Inr (expired, w')"
    and "expired @ tq_timers q' = tq_timers q"
    and "set expired = {(t, p) \<in> set (tq_timers q). t \<le> now}"
    and "set (tq_timers q') = {(t, p) \<in> set (tq_timers q). now < t}"
    and "timer_queue_ok expired l w'" and "tqueues w' = (tqueues w)(l \<mapsto> q')"
    and "timer_heap w' = timer_heap w" and "numCreated w' = numCreated w"
    and "loops w' = loops w" and "w_thread w' = w_thread w"
    and "tq_timerfd q' = tq_timerfd q"
proof -
  let ?s = "(now, UINTPTR_MAX)"
  let ?x = "std_set_below ?s (tq_timers q)" and ?r = "std_set_from ?s (tq_timers q)"
  note due = due_halves [OF ok q, of now]
  define q' where "q' = q\<lparr>tq_timers := ?r,
    tq_activeTimers := filter (\<lambda>a. a \<notin> set (active_names (timer_heap w) ?x)) (tq_activeTimers q)\<rparr>"
  define w' where "w' = w\<lparr>tqueues := (tqueues w)(l \<mapsto> q')\<rparr>"
  have "timer_heap w (snd entry) \<noteq> None" if "entry \<in> set ?x" for entry
    by (rule timer_queue_okE [OF ok]) (use that due(1) q in force)
  then have "rfold (erase_active l) ?x (upd_tq l (\<lambda>q. q\<lparr>tq_timers := std_set_from ?s (tq_timers q)\<rparr>) w) = Inr w'"
    by (subst erase_active_all [of _ _ "q\<lparr>tq_timers := ?r\<rparr>"]) (use q in \<open>simp_all add: q'_def w'_def upd_tq_def\<close>)
  then have "getExpired l now w = Inr (?x, w')"
    using q by (simp add: getExpired_def tq_at_def Let_def)
  moreover have "timer_queue_ok ?x l w'" by (rule take_due_ok [OF ok q refl refl]) (simp add: w'_def q'_def)
  ultimately show thesis
    by (intro that [of ?x w' q']) (use due in \<open>simp_all add: w'_def q'_def\<close>)
qed

section \<open>Rearming and deleting\<close>

text \<open>
  What \<^verbatim>\<open>reset\<close> makes of a timer that ran: a repeating timer that was not cancelled meanwhile
  expires again one interval after \<open>now\<close>; any other is deleted.
\<close>

definition reset_timer :: "timestamp \<Rightarrow> active_timer list \<Rightarrow> ptr \<Rightarrow> timer \<Rightarrow> timer option" where
  "reset_timer now canceling p t =
     (if tm_repeat t \<and> (p, tm_sequence t) \<notin> set canceling
      then (case addTime now (tm_interval t) of Inl e \<Rightarrow> None | Inr e \<Rightarrow> Some (t\<lparr>tm_expiration := e\<rparr>))
      else None)"

lemma reset_one_ok:
  assumes ok: "timer_queue_ok (entry # rest) l w" and q: "tqueues w l = Some q"
    and t: "timer_heap w (snd entry) = Some t" and run: "reset_one l now entry w = Inr w'"
  shows "timer_queue_ok rest l w'"
    and "timer_heap w' = (timer_heap w)(snd entry := reset_timer now (tq_cancelingTimers q) (snd entry) t)"
    and "\<exists>q'. tqueues w' = (tqueues w)(l \<mapsto> q') \<and> tq_cancelingTimers q' = tq_cancelingTimers q \<and>
      tq_timerfd q' = tq_timerfd q \<and>
      set (tq_timers q') = set (tq_timers q) \<union>
        (case reset_timer now (tq_cancelingTimers q) (snd entry) t of None \<Rightarrow> {} | Some t' \<Rightarrow> {(tm_expiration t', snd entry)})"
proof -
  let ?p = "snd entry"
  have p: "?p < UINTPTR_MAX" "?p \<notin> snd ` set (tq_timers q)" "?p \<notin> snd ` set rest"
    and okr: "timer_queue_ok rest l w"
    using timer_queue_ok_Cons [OF ok q] by auto
  have all: "timer_queue_ok rest l w' \<and>
    timer_heap w' = (timer_heap w)(?p := reset_timer now (tq_cancelingTimers q) ?p t) \<and>
    (\<exists>q'. tqueues w' = (tqueues w)(l \<mapsto> q') \<and> tq_cancelingTimers q' = tq_cancelingTimers q \<and>
      tq_timerfd q' = tq_timerfd q \<and>
      set (tq_timers q') = set (tq_timers q) \<union>
        (case reset_timer now (tq_cancelingTimers q) ?p t of None \<Rightarrow> {} | Some t' \<Rightarrow> {(tm_expiration t', ?p)}))"
  proof (cases "tm_repeat t \<and> (?p, tm_sequence t) \<notin> set (tq_cancelingTimers q)")
    case False
    then have w': "w' = w\<lparr>timer_heap := (timer_heap w)(?p := None)\<rparr>"
      using run t q by (auto simp: reset_one_def timer_at_def tq_at_def Timer_delete_def)
    have "timer_queue_ok rest l w'"
      by (rule timer_queue_ok_heap [OF okr q p(2), of _ None]) (use w' q p in auto)
    moreover have "reset_timer now (tq_cancelingTimers q) ?p t = None" using False by (auto simp: reset_timer_def)
    ultimately show ?thesis using w' q by (auto simp: fun_upd_idem intro!: exI [of _ q])
  next
    case True
    then obtain e where e: "addTime now (tm_interval t) = Inr e"
      using run t q by (auto simp: reset_one_def timer_at_def tq_at_def Timer_restart_def rbind_eq_Inr)
    let ?t = "t\<lparr>tm_expiration := e\<rparr>"
    let ?w = "w\<lparr>timer_heap := (timer_heap w)(?p \<mapsto> ?t)\<rparr>"
    have rt: "reset_timer now (tq_cancelingTimers q) ?p t = Some ?t" using True e by (simp add: reset_timer_def)
    have okw: "timer_queue_ok rest l ?w"
      by (rule timer_queue_ok_heap [OF okr q p(2), of _ "Some ?t"]) (use q in auto)
    have run': "rbind (TimerQueue_insert l ?p ?w) (\<lambda>(_, w2). Inr w2) = Inr w'"
      using run t q True e by (simp add: reset_one_def timer_at_def tq_at_def Timer_restart_def)
    have qw: "tqueues ?w l = Some q" "timer_heap ?w ?p = Some ?t" using q by simp_all
    show ?thesis
      by (rule TimerQueue_insert_ok [OF okw qw p]) (use run' rt in auto)
  qed
  from all show "timer_queue_ok rest l w'"
    and "timer_heap w' = (timer_heap w)(snd entry := reset_timer now (tq_cancelingTimers q) (snd entry) t)"
    and "\<exists>q'. tqueues w' = (tqueues w)(l \<mapsto> q') \<and> tq_cancelingTimers q' = tq_cancelingTimers q \<and>
      tq_timerfd q' = tq_timerfd q \<and>
      set (tq_timers q') = set (tq_timers q) \<union>
        (case reset_timer now (tq_cancelingTimers q) (snd entry) t of None \<Rightarrow> {} | Some t' \<Rightarrow> {(tm_expiration t', snd entry)})"
    by auto
qed

lemma filed_insert:
  "{(tm_expiration t, p) | t p. p \<in> insert a A \<and> B p = Some t} =
     (case B a of None \<Rightarrow> {} | Some t' \<Rightarrow> {(tm_expiration t', a)}) \<union>
     {(tm_expiration t, p) | t p. p \<in> A \<and> B p = Some (t :: timer)}"
  by (auto split: option.split)

lemma reset_all_ok:
  assumes "timer_queue_ok E l w" and "tqueues w l = Some q" and "rfold (reset_one l now) E w = Inr w'"
  shows "timer_queue_ok [] l w' \<and>
    timer_heap w' = (\<lambda>p. if p \<in> snd ` set E
      then Option.bind (timer_heap w p) (reset_timer now (tq_cancelingTimers q) p) else timer_heap w p) \<and>
    (\<exists>q'. tqueues w' = (tqueues w)(l \<mapsto> q') \<and> tq_cancelingTimers q' = tq_cancelingTimers q \<and>
      tq_timerfd q' = tq_timerfd q \<and>
      set (tq_timers q') = set (tq_timers q) \<union>
        {(tm_expiration t, p) | t p. p \<in> snd ` set E \<and>
           Option.bind (timer_heap w p) (reset_timer now (tq_cancelingTimers q) p) = Some t})"
  using assms
proof (induction E arbitrary: w q)
  case Nil
  then show ?case by (auto intro!: exI [of _ q])
next
  case (Cons entry rest)
  let ?p = "snd entry"
  obtain w1 where one: "reset_one l now entry w = Inr w1" and more: "rfold (reset_one l now) rest w1 = Inr w'"
    using Cons.prems(3) by (auto simp: rbind_eq_Inr)
  have alloc: "timer_heap w ?p \<noteq> None" "?p \<notin> snd ` set rest"
    using timer_queue_ok_Cons [OF Cons.prems(1,2)] by auto
  then obtain t where t: "timer_heap w ?p = Some t" by blast
  note o = reset_one_ok [OF Cons.prems(1,2) t one]
  from o(3) obtain q1 where q1: "tqueues w1 = (tqueues w)(l \<mapsto> q1)"
    "tq_cancelingTimers q1 = tq_cancelingTimers q" "tq_timerfd q1 = tq_timerfd q"
    "set (tq_timers q1) = set (tq_timers q) \<union>
        (case reset_timer now (tq_cancelingTimers q) ?p t of None \<Rightarrow> {} | Some t' \<Rightarrow> {(tm_expiration t', ?p)})"
    by auto
  have "tqueues w1 l = Some q1" using q1 by simp
  note ih = Cons.IH [OF o(1) this more]
  then obtain q' where q': "tqueues w' = (tqueues w1)(l \<mapsto> q')" "tq_cancelingTimers q' = tq_cancelingTimers q1"
    "tq_timerfd q' = tq_timerfd q1"
    "set (tq_timers q') = set (tq_timers q1) \<union>
        {(tm_expiration t, p) | t p. p \<in> snd ` set rest \<and>
           Option.bind (timer_heap w1 p) (reset_timer now (tq_cancelingTimers q1) p) = Some t}"
    by blast
  have heap: "timer_heap w1 p = timer_heap w p" if "p \<in> snd ` set rest" for p
    using that alloc(2) o(2) by (cases "p = ?p") auto
  have "timer_heap w' = (\<lambda>p. if p \<in> snd ` set (entry # rest)
      then Option.bind (timer_heap w p) (reset_timer now (tq_cancelingTimers q) p) else timer_heap w p)"
    using ih o(2) t alloc(2) q1(2) heap by (auto simp: fun_eq_iff)
  moreover have "set (tq_timers q') = set (tq_timers q) \<union>
        {(tm_expiration t, p) | t p. p \<in> snd ` set (entry # rest) \<and>
           Option.bind (timer_heap w p) (reset_timer now (tq_cancelingTimers q) p) = Some t}"
    unfolding list.set image_insert filed_insert
    using q'(4) q1(2,4) t by (simp add: heap Un_assoc cong: conj_cong)
  ultimately show ?case
    using ih q'(1-3) q1(1-3) by (intro conjI exI [of _ q']) simp_all
qed

section \<open>One run of the timer queue\<close>

lemma timer_queue_ok_flags:
  assumes "timer_queue_ok E l w"
  shows "timer_queue_ok E l (upd_tq l (\<lambda>q. q\<lparr>tq_callingExpiredTimers := a, tq_cancelingTimers := f q\<rparr>) w)"
    and "timer_queue_ok E l (upd_tq l (\<lambda>q. q\<lparr>tq_callingExpiredTimers := a\<rparr>) w)"
  using assms by (auto simp: timer_queue_ok_def split: option.splits)

text \<open>The steps of \<^verbatim>\<open>handleRead\<close> up to the point where the callbacks have run.\<close>

lemma handleReadE:
  assumes ok: "timer_queue_ok [] l w"
    and thread: "loops w l = Some e" "el_threadId e = w_thread w"
  obtains now q expired w2 where "tqueues w l = Some q" and "now = fst (Timestamp_now K w)"
    and "set expired = {(t, p) \<in> set (tq_timers q). t \<le> now}"
    and "timer_queue_ok expired l w2" and "timer_heap w2 = timer_heap w"
    and "TimerQueue_handleRead K user l w =
      rbind (rfold (\<lambda>entry. Timer_run user (snd entry)) expired w2) (\<lambda>w3.
        TimerQueue_reset K l expired now (upd_tq l (\<lambda>q. q\<lparr>tq_callingExpiredTimers := False\<rparr>) w3))"
    and "\<exists>q2. tqueues w2 = (tqueues w)(l \<mapsto> q2) \<and> set (tq_timers q2) = {(t, p) \<in> set (tq_timers q). now < t} \<and>
      tq_cancelingTimers q2 = []"
    and "numCreated w2 = numCreated w" and "loops w2 = loops w" and "w_thread w2 = w_thread w"
proof -
  obtain now w1 where now: "Timestamp_now K w = (now, w1)" by (cases "Timestamp_now K w")
  obtain q where q: "tqueues w l = Some q" by (rule timer_queue_okE [OF ok])
  let ?v = "readTimerfd K (tq_timerfd q) now w1"
  have fr: "world_frame w ?v" using world_frame_trans [OF Timestamp_now_frame [OF now] readTimerfd_frame] .
  have okv: "timer_queue_ok [] l ?v" "tqueues ?v l = Some q"
    using ok q timer_queue_ok_frame [OF fr] timer_frame [OF fr] by simp_all
  show thesis
  proof (rule getExpired_ok [OF okv, of now], goal_cases)
    case (1 expired w' q')
    let ?w2 = "upd_tq l (\<lambda>q. q\<lparr>tq_callingExpiredTimers := True, tq_cancelingTimers := []\<rparr>) w'"
    have "TimerQueue_handleRead K user l w =
      rbind (rfold (\<lambda>entry. Timer_run user (snd entry)) expired ?w2) (\<lambda>w3.
        TimerQueue_reset K l expired now (upd_tq l (\<lambda>q. q\<lparr>tq_callingExpiredTimers := False\<rparr>) w3))"
      using thread now 1(1) timer_frame(2) [OF Timestamp_now_frame [OF now]] q
      by (simp add: TimerQueue_handleRead_def assertInLoopThread_def isInLoopThread_def loop_at_def tq_at_def)
    moreover have "\<exists>q2. tqueues ?w2 = (tqueues w)(l \<mapsto> q2) \<and>
        set (tq_timers q2) = {(t, p) \<in> set (tq_timers q). now < t} \<and> tq_cancelingTimers q2 = []"
      using 1(4,6) timer_frame(2) [OF fr]
      by (intro exI [of _ "q'\<lparr>tq_callingExpiredTimers := True, tq_cancelingTimers := []\<rparr>"]) simp
    ultimately show thesis
      using that [OF q _ 1(3), of ?w2] now timer_queue_ok_flags(1) [OF 1(5), where a = True and f = "\<lambda>_. []"]
        1(7-10) timer_frame [OF fr] by simp
  qed
qed

lemma TimerQueue_reset_keeps:
  assumes ok: "timer_queue_ok E l w" and run: "TimerQueue_reset K l E now w = Inr w'"
  shows "timer_queue_ok [] l w'"
proof -
  obtain q where q: "tqueues w l = Some q" by (rule timer_queue_okE [OF ok])
  obtain w1 where w1: "rfold (reset_one l now) E w = Inr w1"
    using run by (auto simp: TimerQueue_reset_def rbind_eq_Inr)
  then obtain q1 where q1: "tqueues w1 l = Some q1" using reset_all_ok [OF ok q w1] by auto
  have rest: "world_frame w1 w'"
    using run w1 q1 by (cases "tq_timers q1")
      (auto simp: TimerQueue_reset_def tq_at_def rbind_eq_Inr dest: resetTimerfd_frame)
  show ?thesis using reset_all_ok [OF ok q w1] timer_queue_ok_frame [OF rest] by simp
qed

lemma timer_handleRead_keeps:
  assumes user: "\<And>E cb. keeps (timer_queue_ok E l) (user cb)" and ok: "timer_queue_ok [] l w"
    and run: "TimerQueue_handleRead K user l w = Inr w'"
  shows "timer_queue_ok [] l w'"
proof -
  obtain e where thread: "loops w l = Some e" "el_threadId e = w_thread w"
    using run by (auto simp: TimerQueue_handleRead_def rbind_eq_Inr [of "assertInLoopThread _ _"])
  show ?thesis
  proof (rule handleReadE [OF ok thread, of K user], goal_cases)
    case (1 now q expired w2)
    have "keeps (timer_queue_ok expired l) (Timer_run user p)" for p
      using user [of expired] by (auto simp: keeps_def Timer_run_def rbind_eq_Inr)
    then have "keeps (timer_queue_ok expired l) (rfold (\<lambda>entry. Timer_run user (snd entry)) expired)"
      by (intro keeps_rfold)
    moreover obtain w3 where "rfold (\<lambda>entry. Timer_run user (snd entry)) expired w2 = Inr w3"
      and "TimerQueue_reset K l expired now (upd_tq l (\<lambda>q. q\<lparr>tq_callingExpiredTimers := False\<rparr>) w3) = Inr w'"
      using run unfolding 1(6) by (elim rbind_InrE)
    ultimately show ?thesis
      using TimerQueue_reset_keeps timer_queue_ok_flags(2) keepsD 1(4) by metis
  qed
qed

text \<open>How \<^verbatim>\<open>handleRead\<close> can fail: a user's callback fails, or the arithmetic on times overflows.\<close>

definition time_overflow :: "error \<Rightarrow> bool" where
  "time_overflow err \<longleftrightarrow>
     err = UndefinedBehaviour ''signed overflow'' \<or> err = UndefinedBehaviour ''double out of range of int64_t''"

lemma addTime_error: "addTime t d = Inl err \<Longrightarrow> time_overflow err"
  by (auto simp: addTime_def double_to_int64_def time_overflow_def rbind_eq_Inl split: if_splits)

lemma resetTimerfd_error: "resetTimerfd K f e w = Inl err \<Longrightarrow> time_overflow err"
proof (cases "howMuchTimeFromNow K e w")
  case (Inl a)
  then have "time_overflow a"
    by (auto simp: howMuchTimeFromNow_def time_overflow_def Let_def split: prod.splits if_splits)
  then show "resetTimerfd K f e w = Inl err \<Longrightarrow> time_overflow err" using Inl by (simp add: resetTimerfd_def)
next
  case (Inr x)
  then show "resetTimerfd K f e w = Inl err \<Longrightarrow> time_overflow err"
    by (cases x) (auto simp: resetTimerfd_def split: prod.splits sum.splits)
qed

lemma reset_one_error:
  assumes "timer_queue_ok (entry # rest) l w" and "reset_one l now entry w = Inl err"
  shows "time_overflow err"
proof -
  obtain q where q: "tqueues w l = Some q" by (rule timer_queue_okE [OF assms(1)])
  obtain t where t: "timer_heap w (snd entry) = Some t" using timer_queue_ok_Cons(2) [OF assms(1) q] by blast
  show ?thesis
    using assms(2) q t addTime_error [of now "tm_interval t"]
    by (cases "addTime now (tm_interval t)")
      (auto simp: reset_one_def timer_at_def tq_at_def Timer_restart_def Timer_delete_def TimerQueue_insert_def
        Let_def split: if_splits)
qed

lemma reset_all_error:
  assumes "timer_queue_ok E l w" and "rfold (reset_one l now) E w = Inl err"
  shows "time_overflow err"
  using assms
proof (induction E arbitrary: w)
  case (Cons entry rest)
  obtain q where q: "tqueues w l = Some q" by (rule timer_queue_okE [OF Cons.prems(1)])
  obtain t where t: "timer_heap w (snd entry) = Some t" using timer_queue_ok_Cons(2) [OF Cons.prems(1) q] by blast
  show ?case
  proof (cases "reset_one l now entry w")
    case (Inl a)
    then show ?thesis using reset_one_error [OF Cons.prems(1) Inl] Cons.prems(2) by simp
  next
    case (Inr w1)
    then show ?thesis using Cons.IH [OF reset_one_ok(1) [OF Cons.prems(1) q t Inr]] Cons.prems(2) by simp
  qed
qed simp

lemma TimerQueue_reset_error:
  assumes ok: "timer_queue_ok E l w" and run: "TimerQueue_reset K l E now w = Inl err"
  shows "time_overflow err"
proof (cases "rfold (reset_one l now) E w")
  case (Inl a)
  then show ?thesis using reset_all_error [OF ok Inl] run by (simp add: TimerQueue_reset_def)
next
  case (Inr w1)
  obtain q where q: "tqueues w l = Some q" by (rule timer_queue_okE [OF ok])
  then have okw: "timer_queue_ok [] l w1" using reset_all_ok [OF ok q Inr] by simp
  show ?thesis
  proof (rule timer_queue_okE [OF okw], goal_cases)
    case (1 q1)
    show ?thesis
    proof (cases "tq_timers q1")
      case (Cons x xs)
      then obtain tm where "timer_heap w1 (snd x) = Some tm"
        using 1(4) [of "fst x" "snd x"] by auto
      then show ?thesis
        using run Inr 1(1) Cons resetTimerfd_error by (auto simp: TimerQueue_reset_def tq_at_def timer_at_def)
    qed (use run Inr 1(1) in \<open>simp add: TimerQueue_reset_def tq_at_def\<close>)
  qed
qed

lemma run_expired_error:
  assumes "\<And>E cb. keeps (timer_queue_ok E l) (user cb)" and "timer_queue_ok E l w"
    and "set xs \<subseteq> set E" and "rfold (\<lambda>entry. Timer_run user (snd entry)) xs w = Inl err"
  shows "\<exists>cb v. user cb v = Inl err"
  using assms(2-)
proof (induction xs arbitrary: w)
  case (Cons x xs)
  have "timer_heap w (snd x) \<noteq> None" using Cons.prems(1,2) by (auto elim!: timer_queue_okE)
  then obtain t where t: "timer_heap w (snd x) = Some t" by blast
  then have run: "Timer_run user (snd x) w = user (tm_callback t) w" by (simp add: Timer_run_def timer_at_def)
  show ?case
  proof (cases "user (tm_callback t) w")
    case (Inl a)
    then show ?thesis using Cons.prems(3) run by auto
  next
    case (Inr w1)
    have "timer_queue_ok E l w1" by (rule keepsD [OF assms(1) Cons.prems(1) Inr])
    then show ?thesis using Cons.IH [of w1] Cons.prems Inr run by simp
  qed
qed simp

lemma timer_handleRead_error:
  assumes user: "\<And>E cb. keeps (timer_queue_ok E l) (user cb)" and ok: "timer_queue_ok [] l w"
    and thread: "loops w l = Some e" "el_threadId e = w_thread w"
    and run: "TimerQueue_handleRead K user l w = Inl err"
  shows "time_overflow err \<or> (\<exists>cb v. user cb v = Inl err)"
proof (rule handleReadE [OF ok thread, of K user], goal_cases)
  case (1 now q expired w2)
  have keep: "keeps (timer_queue_ok expired l) (rfold (\<lambda>entry. Timer_run user (snd entry)) expired)"
    using user [of expired] by (intro keeps_rfold) (auto simp: keeps_def Timer_run_def rbind_eq_Inr)
  show ?thesis
  proof (cases "rfold (\<lambda>entry. Timer_run user (snd entry)) expired w2")
    case (Inl e1)
    then show ?thesis using run_expired_error [OF user 1(4) _ Inl] run 1(6) by simp
  next
    case (Inr w3)
    have "timer_queue_ok expired l (upd_tq l (\<lambda>q. q\<lparr>tq_callingExpiredTimers := False\<rparr>) w3)"
      by (rule timer_queue_ok_flags(2) [OF keepsD [OF keep 1(4) Inr]])
    then show ?thesis using TimerQueue_reset_error run Inr 1(6) by auto
  qed
qed

section \<open>Sequence numbers\<close>

definition counter_ok :: "('k, 'z) timer_world_scheme \<Rightarrow> bool" where
  "counter_ok w \<longleftrightarrow> 0 \<le> numCreated w \<and> numCreated w < 2 ^ 63 - 1"

lemma Timer_new_counter: "counter_ok w \<Longrightarrow> numCreated (Timer_new p cb when i w) = numCreated w + 1"
  by (simp add: Timer_new_def Let_def wrap_int64_def counter_ok_def)

lemma Timer_new_ids:
  assumes "timer_ids_ok w" and "counter_ok w"
  shows "timer_ids_ok (Timer_new p cb when i w)"
  using assms Timer_new_counter [OF assms(2), of p cb "when" i]
  by (fastforce simp: timer_ids_ok_def Timer_new_def Let_def)

lemma timer_gone_new:
  assumes "timer_gone n w" and "counter_ok w"
  shows "timer_gone n (Timer_new p cb when i w)"
  using assms Timer_new_counter [OF assms(2), of p cb "when" i]
  by (auto simp: timer_gone_def Timer_new_def Let_def)

lemma timer_gone_cong: "timer_heap w' = timer_heap w \<Longrightarrow> numCreated w' = numCreated w \<Longrightarrow> timer_gone n w' = timer_gone n w"
  by (simp add: timer_gone_def)

lemma cancel_gone:
  assumes ok: "timer_queue_ok E l w" and gone: "timer_gone n w" and q: "tqueues w l = Some q"
    and run: "cancelInLoop l (TimerId p n) w = Inr w'"
  shows "timer_heap w' = timer_heap w \<and> (\<exists>q'. tqueues w' = (tqueues w)(l \<mapsto> q') \<and>
    tq_timers q' = tq_timers q \<and> tq_activeTimers q' = tq_activeTimers q)"
proof -
  obtain e where thread: "loops w l = Some e" "el_threadId e = w_thread w"
    using run by (auto simp: cancelInLoop_def rbind_eq_Inr [of "assertInLoopThread _ _"])
  show ?thesis
  proof (rule cancelInLoop_ok [OF ok q thread, of p n], goal_cases)
    case (1 v tm)
    then show ?thesis using gone by (auto simp: timer_gone_def)
  next
    case 2
    then show ?thesis using run q by auto
  next
    case 3
    then show ?thesis using run q by (auto simp: fun_upd_idem intro!: exI [of _ q])
  qed
qed

section \<open>A sample queue\<close>

text \<open>One loop with a one-shot timer due at 2 s and a repeating one (every 0.5 s) due at 3 s.\<close>

definition sample_timer_world :: "sim timer_world" where
  "sample_timer_world =
     \<lparr>w_kern = sim_init, w_errno = 0, w_log = [], w_thread = 1, chans = Map.empty, pollers = Map.empty,
      loops = [1 \<mapsto> \<lparr>el_looping = True, el_quit = False, el_callingPendingFunctors = False,
        el_threadId = 1, el_wakeupFd = 5, el_wakeupChannel = 12, el_activeChannels = [],
        el_pendingFunctors = []\<rparr>],
      timer_heap = [20 \<mapsto> \<lparr>tm_callback = 1, tm_expiration = Timestamp 2000000, tm_interval = Double 0 0,
                         tm_repeat = False, tm_sequence = 1\<rparr>,
                    21 \<mapsto> \<lparr>tm_callback = 2, tm_expiration = Timestamp 3000000, tm_interval = Double 1 (- 1),
                         tm_repeat = True, tm_sequence = 2\<rparr>],
      numCreated = 2,
      tqueues = [1 \<mapsto> \<lparr>tq_timerfd = 6, tq_channel = 13,
        tq_timers = [(Timestamp 2000000, 20), (Timestamp 3000000, 21)],
        tq_activeTimers = [(20, 1), (21, 2)], tq_cancelingTimers = [], tq_callingExpiredTimers = False\<rparr>]\<rparr>"

text \<open>The same queue with both timers taken out by \<^verbatim>\<open>getExpired\<close>.\<close>

definition sample_expired_world :: "sim timer_world" where
  "sample_expired_world = upd_tq 1 (\<lambda>q. q\<lparr>tq_timers := [], tq_activeTimers := []\<rparr>) sample_timer_world"

lemma sample_timer_queue_ok: "timer_queue_ok [] 1 sample_timer_world"
  by (simp add: timer_queue_ok_def sample_timer_world_def std_set_ok_def UINTPTR_MAX_def)

lemma sample_timer_ids_ok: "timer_ids_ok sample_timer_world"
  by (simp add: timer_ids_ok_def sample_timer_world_def split: if_splits)

lemma sample_timer_thread:
  "\<exists>e. loops sample_timer_world 1 = Some e \<and> el_threadId e = w_thread sample_timer_world"
  by (simp add: sample_timer_world_def)

section \<open>Properties\<close>

text \<open>
  C7: \<^verbatim>\<open>getExpired(now)\<close> on a consistent queue returns exactly the timers whose expiration is
  at or before \<open>now\<close>, earliest first, removes them (and only them) from both sets and leaves a
  consistent queue.
\<close>

theorem getExpired_takes_due_timers:
  assumes "timer_queue_ok [] l w" and "tqueues w l = Some q"
  shows "\<exists>expired w' q'. getExpired l now w = Inr (expired, w') \<and> tqueues w' l = Some q' \<and>
    sorted_wrt (<) expired \<and> set expired = {(t, p) \<in> set (tq_timers q). t \<le> now} \<and>
    set (tq_timers q') = {(t, p) \<in> set (tq_timers q). now < t} \<and>
    timer_queue_ok expired l w' \<and> timer_heap w' = timer_heap w"
proof (rule getExpired_ok [OF assms, of now], goal_cases)
  case (1 expired w' q')
  have "std_set_ok (expired @ tq_timers q')"
    using assms unfolding 1(2) by (auto elim!: timer_queue_okE)
  then have "sorted_wrt (<) expired" by (simp add: std_set_ok_def sorted_wrt_append)
  then show ?thesis using 1 by auto
qed

theorem getExpired_takes_due_timers_witness:
  "\<exists>expired w' q'. getExpired 1 (Timestamp 2500000) sample_timer_world = Inr (expired, w') \<and>
    tqueues w' 1 = Some q' \<and> set expired = {(Timestamp 2000000, 20)} \<and>
    set (tq_timers q') = {(Timestamp 3000000, 21)}"
proof -
  have q: "tqueues sample_timer_world 1 = Some (the (tqueues sample_timer_world 1))"
    by (simp add: sample_timer_world_def)
  have timers: "set (tq_timers (the (tqueues sample_timer_world 1))) =
      {(Timestamp 2000000, 20), (Timestamp 3000000, 21)}"
    by (simp add: sample_timer_world_def)
  have "{(t, p). (t, p) \<in> {(Timestamp 2000000, 20 :: ptr), (Timestamp 3000000, 21)} \<and> t \<le> Timestamp 2500000} =
      {(Timestamp 2000000, 20)}"
    "{(t, p). (t, p) \<in> {(Timestamp 2000000, 20 :: ptr), (Timestamp 3000000, 21)} \<and> Timestamp 2500000 < t} =
      {(Timestamp 3000000, 21)}" by auto
  then show ?thesis
    using getExpired_takes_due_timers [OF sample_timer_queue_ok q, of "Timestamp 2500000"]
    unfolding timers by auto
qed

text \<open>
  After the callbacks of the expired timers have run, \<^verbatim>\<open>reset\<close> frees the one-shot timers and
  the ones cancelled meanwhile, and files every other one again under \<open>now\<close> plus its interval;
  all other timers stay as they were and the queue is consistent with nothing taken out.
\<close>

lemma reset_rearms_or_deletes:
  assumes "timer_queue_ok E l w" and "tqueues w l = Some q" and "rfold (reset_one l now) E w = Inr w'"
  shows "timer_queue_ok [] l w' \<and>
    timer_heap w' = (\<lambda>p. if p \<in> snd ` set E
      then Option.bind (timer_heap w p) (reset_timer now (tq_cancelingTimers q) p) else timer_heap w p) \<and>
    (\<exists>q'. tqueues w' l = Some q' \<and>
      set (tq_timers q') = set (tq_timers q) \<union> {(tm_expiration t, p) | t p. p \<in> snd ` set E \<and>
         Option.bind (timer_heap w p) (reset_timer now (tq_cancelingTimers q) p) = Some t})"
  using reset_all_ok [OF assms] by auto

lemma reset_rearms_or_deletes_sample:
  "\<exists>w' q'. rfold (reset_one 1 (Timestamp 3500000)) [(Timestamp 2000000, 20), (Timestamp 3000000, 21)]
       sample_expired_world = Inr w' \<and>
     timer_heap w' 20 = None \<and> tqueues w' 1 = Some q' \<and> (Timestamp 4000000, 21) \<in> set (tq_timers q')"
proof -
  let ?E = "[(Timestamp 2000000, 20), (Timestamp 3000000, 21)]"
  let ?q = "the (tqueues sample_expired_world 1)"
  have bits: "bit_length 1000000 = 20" by (simp add: bit_length.simps)
  have half: "addTime (Timestamp 3500000) (Double 1 (- 1)) = Inr (Timestamp 4000000)"
    by (simp add: addTime_def double_times_int_def double_round_def Let_def bits round_half_even_def
        double_to_int64_def double_trunc_def int64_def trunc_div_nonneg)
  obtain w' where run: "rfold (reset_one 1 (Timestamp 3500000)) ?E sample_expired_world = Inr w'"
    by (simp add: reset_one_def sample_expired_world_def sample_timer_world_def timer_at_def tq_at_def
        Timer_delete_def Timer_restart_def TimerQueue_insert_def half Let_def)
  have ok: "timer_queue_ok ?E 1 sample_expired_world"
    by (simp add: timer_queue_ok_def sample_expired_world_def sample_timer_world_def UINTPTR_MAX_def)
  have q: "tqueues sample_expired_world 1 = Some ?q"
    by (simp add: sample_expired_world_def sample_timer_world_def)
  have "Option.bind (timer_heap sample_expired_world 20) (reset_timer (Timestamp 3500000) (tq_cancelingTimers ?q) 20) = None"
    by (simp add: sample_expired_world_def sample_timer_world_def reset_timer_def)
  moreover have "map_option tm_expiration (Option.bind (timer_heap sample_expired_world 21)
      (reset_timer (Timestamp 3500000) (tq_cancelingTimers ?q) 21)) = Some (Timestamp 4000000)"
    by (simp add: sample_expired_world_def sample_timer_world_def reset_timer_def half)
  ultimately show ?thesis
    using reset_rearms_or_deletes [OF ok q run] run by force
qed



text \<open>
  C29: Cancelling a queued timer, inside or outside of expiry, erases it from both sets, frees it and
  keeps the queue consistent; its sequence number is gone from then on.
\<close>

theorem cancel_frees_queued_timer:
  assumes "timer_queue_ok E l w" and "timer_ids_ok w" and "tqueues w l = Some q"
    and "loops w l = Some e" and "el_threadId e = w_thread w"
    and "timer_heap w p = Some tm" and "(tm_expiration tm, p) \<in> set (tq_timers q)"
  shows "\<exists>w'. cancelInLoop l (TimerId p (tm_sequence tm)) w = Inr w' \<and> timer_queue_ok E l w' \<and>
    timer_heap w' = (timer_heap w)(p := None) \<and> timer_gone (tm_sequence tm) w' \<and>
    (\<exists>q'. tqueues w' l = Some q' \<and> set (tq_timers q') = set (tq_timers q) - {(tm_expiration tm, p)})"
proof -
  have active: "(p, tm_sequence tm) \<in> set (tq_activeTimers q)"
    using assms(1,3,6,7) by (elim timer_queue_okE) (metis option.inject)
  show ?thesis
  proof (rule cancelInLoop_ok [OF assms(1,3-5), of p "tm_sequence tm"], goal_cases)
    case (1 w' tm')
    have "timer_gone (tm_sequence tm) w'"
      using assms(2,6) 1(5,8) unfolding timer_ids_ok_def timer_gone_def by auto
    then show ?thesis using 1 assms(6) by auto
  qed (use active in auto)
qed

theorem cancel_frees_queued_timer_witness:
  "\<exists>w'. cancelInLoop 1 (TimerId 20 1) sample_timer_world = Inr w' \<and> timer_queue_ok [] 1 w' \<and>
     timer_heap w' 20 = None"
proof -
  obtain e where e: "loops sample_timer_world 1 = Some e" "el_threadId e = w_thread sample_timer_world"
    using sample_timer_thread by blast
  have q: "tqueues sample_timer_world 1 = Some (the (tqueues sample_timer_world 1))"
    by (simp add: sample_timer_world_def)
  let ?tm = "\<lparr>tm_callback = 1, tm_expiration = Timestamp 2000000, tm_interval = Double 0 0,
      tm_repeat = False, tm_sequence = 1\<rparr>"
  have "timer_heap sample_timer_world 20 = Some ?tm"
    "(tm_expiration ?tm, 20) \<in> set (tq_timers (the (tqueues sample_timer_world 1)))"
    by (simp_all add: sample_timer_world_def)
  from cancel_frees_queued_timer [OF sample_timer_queue_ok sample_timer_ids_ok q e this] show ?thesis by auto
qed

text \<open>
  C30: A \<^verbatim>\<open>TimerId\<close> whose timer is gone cancels nothing, even when a new timer was allocated at the
  same address: the sequence number tells them apart as long as fewer than \<open>2 ^ 63\<close> timers
  were created.
\<close>

theorem stale_id_cancels_nothing:
  assumes "timer_queue_ok E l w" and "timer_gone n w" and "counter_ok w" and "timer_heap w p = None"
    and "tqueues w l = Some q" and "p < UINTPTR_MAX"
    and "addTimerInLoop K l p (Timer_new p cb when interval w) = Inr w1"
    and "tqueues w1 l = Some q1" and "cancelInLoop l (TimerId p n) w1 = Inr w2"
  shows "timer_heap w2 = timer_heap w1 \<and> timer_heap w1 p \<noteq> None \<and>
    (\<exists>q2. tqueues w2 l = Some q2 \<and> tq_timers q2 = tq_timers q1)"
proof -
  let ?w = "Timer_new p cb when interval w"
  have okw: "timer_queue_ok E l ?w" by (rule Timer_new_ok [OF assms(1,4)])
  have qw: "tqueues ?w l = Some q" using assms(5) by (simp add: Timer_new_def Let_def)
  obtain t where t: "timer_heap ?w p = Some t" by (simp add: Timer_new_def Let_def)
  have free: "p \<notin> snd ` set (tq_timers q)" "p \<notin> snd ` set E"
    using assms(1,4,5) by (elim timer_queue_okE; force)+
  note add = addTimerInLoop_ok [OF okw qw t assms(6) free assms(7)]
  have "timer_gone n w1"
    using timer_gone_cong [OF add(2,3)] timer_gone_new [OF assms(2,3)] by simp
  from cancel_gone [OF add(1) this assms(8,9)] show ?thesis using add(2) t by auto
qed

theorem stale_id_cancels_nothing_witness:
  "\<exists>w1 w2. addTimerInLoop sim_kernel 1 22 (Timer_new 22 7 (Timestamp 2500000) (Double 0 0) sample_timer_world) = Inr w1 \<and>
     cancelInLoop 1 (TimerId 22 0) w1 = Inr w2 \<and> timer_heap w2 22 \<noteq> None"
proof -
  let ?r = "addTimerInLoop sim_kernel 1 22 (Timer_new 22 7 (Timestamp 2500000) (Double 0 0) sample_timer_world)"
  have "\<not> isl (rbind ?r (cancelInLoop 1 (TimerId 22 0)))" by code_simp
  then obtain w2 where "rbind ?r (cancelInLoop 1 (TimerId 22 0)) = Inr w2"
    by (cases "rbind ?r (cancelInLoop 1 (TimerId 22 0))") auto
  then obtain w1 where r: "?r = Inr w1" "cancelInLoop 1 (TimerId 22 0) w1 = Inr w2" by (rule rbind_InrE)
  then obtain q1 where q1: "tqueues w1 1 = Some q1"
    by (auto simp: cancelInLoop_def tq_at_def rbind_eq_Inr)
  have q: "tqueues sample_timer_world 1 = Some (the (tqueues sample_timer_world 1))"
    and pre: "timer_gone 0 sample_timer_world" "counter_ok sample_timer_world" "timer_heap sample_timer_world 22 = None"
      "22 < UINTPTR_MAX"
    by (simp_all add: sample_timer_world_def timer_gone_def counter_ok_def UINTPTR_MAX_def)
  show ?thesis
    using stale_id_cancels_nothing [OF sample_timer_queue_ok pre(1-3) q pre(4) r(1) q1 r(2)] r by auto
qed

text \<open>
  C40: The timerfd is never disarmed by accident: whatever the expiration, the delay handed to
  \<^verbatim>\<open>timerfd_settime\<close> is at least 100 microseconds, with nanoseconds in range, and it is the
  distance to the expiration whenever that is longer.
\<close>

theorem timerfd_delay_bounds:
  assumes "howMuchTimeFromNow K when w = Inr ((sec, nsec), w')"
  shows "0 \<le> sec \<and> 0 \<le> nsec \<and> nsec < 1000000000 \<and>
    sec * 1000000 + nsec div 1000 =
      max 100 (microSecondsSinceEpoch when - microSecondsSinceEpoch (fst (Timestamp_now K w))) \<and>
    nsec mod 1000 = 0"
proof -
  obtain now w1 where now: "Timestamp_now K w = (now, w1)" by (cases "Timestamp_now K w")
  define us where "us = max 100 (microSecondsSinceEpoch when - microSecondsSinceEpoch now)"
  have eq: "sec = us sdiv 1000000" "nsec = us smod 1000000 * 1000"
    using assms now by (auto simp: howMuchTimeFromNow_def Let_def us_def max_def split: if_splits)
  have "0 \<le> us" by (simp add: us_def)
  then have "sec = us div 1000000" "nsec = us mod 1000000 * 1000"
    using eq by (simp_all add: trunc_div_nonneg smod_nonneg)
  then show ?thesis using \<open>0 \<le> us\<close> now by (auto simp: us_def)
qed

theorem timerfd_delay_bounds_witness:
  "\<exists>sec nsec w'. howMuchTimeFromNow sim_kernel (Timestamp 0) sample_timer_world = Inr ((sec, nsec), w') \<and>
     sec * 1000000 + nsec div 1000 = 100"
proof -
  obtain sec nsec w' where r: "howMuchTimeFromNow sim_kernel (Timestamp 0) sample_timer_world = Inr ((sec, nsec), w')"
    by (simp add: howMuchTimeFromNow_def Timestamp_now_def sim_kernel_def sim_gettimeofday_def
        sample_timer_world_def sim_init_def int64_def kMicroSecondsPerSecond_def)
  have "microSecondsSinceEpoch (fst (Timestamp_now sim_kernel sample_timer_world)) = 1000000"
    by (simp add: Timestamp_now_def sim_kernel_def sim_gettimeofday_def sample_timer_world_def sim_init_def
        kMicroSecondsPerSecond_def)
  then show ?thesis using timerfd_delay_bounds [OF r] r by auto
qed

text \<open>
  \<^verbatim>\<open>insert\<close> reports truthfully whether the earliest expiration moved: afterwards the first
  queued timer expires at the new timer's time if it says so, and as early as before if not.
\<close>

lemma insert_reports_earliest:
  assumes "timer_queue_ok E l w" and "tqueues w l = Some q" and "timer_heap w p = Some t"
    and "p < UINTPTR_MAX" and "p \<notin> snd ` set (tq_timers q)" and "p \<notin> snd ` set E"
  shows "\<exists>earliest w' q'. TimerQueue_insert l p w = Inr (earliest, w') \<and> tqueues w' l = Some q' \<and>
    timer_queue_ok E l w' \<and> tq_timers q' \<noteq> [] \<and>
    fst (hd (tq_timers q')) = (if earliest then tm_expiration t else fst (hd (tq_timers q)))"
proof (rule TimerQueue_insert_ok [OF assms], goal_cases)
  case (1 earliest w')
  let ?ts = "std_set_insert (tm_expiration t, p) (tq_timers q)"
  have so: "std_set_ok (tq_timers q)" using assms(1,2) by (auto elim!: timer_queue_okE)
  have ne: "?ts \<noteq> []" by (metis empty_iff insertI1 list.set(1) set_std_set_insert)
  have "fst (hd ?ts) = (if earliest then tm_expiration t else fst (hd (tq_timers q)))"
    by (cases "tq_timers q") (auto simp: 1(8) less_prod_def split: prod.splits)
  then show ?thesis using 1 ne by auto
qed

end
