(* ===== verification/TcpConnection.thy ===== *)
theory TcpConnection
  imports Buffer TimerQueue
begin

text \<open>
  \<^verbatim>\<open>src/net/TcpConnection.cc\<close>: one connection, its state machine, its two buffers and its channel.
  Connections are heap objects (\<open>conns\<close>) the channel's callbacks and the queued tasks point to.
  What a stored callback does is the argument \<open>call\<close>; it gets the connection's address, and with
  it the input buffer a message callback may read. A connection is destroyed when its last
  \<^verbatim>\<open>shared_ptr\<close> goes (theory Server); \<^verbatim>\<open>shared_from_this\<close> on an object without an owner is
  outside the model, the heap entry exists as long as an owner does.
\<close>

datatype StateE = kDisconnected | kConnecting | kConnected | kDisconnecting

record tcp_connection =
  tc_loop :: ptr
  tc_name :: string
  tc_state :: StateE
  tc_socket :: socket
  tc_channel :: ptr
  tc_localAddr :: sockaddr_in
  tc_peerAddr :: sockaddr_in
  tc_inputBuffer :: buffer
  tc_outputBuffer :: buffer
  tc_connectionCallback :: "conn_callback option"
  tc_messageCallback :: "conn_callback option"
  tc_closeCallback :: "conn_callback option"
  tc_writeCompleteCallback :: "conn_callback option"

record 'k conn_world = "'k timer_world" +
  conns :: "ptr \<Rightarrow> tcp_connection option"

definition conn_at :: "ptr \<Rightarrow> ('k, 'z) conn_world_scheme \<Rightarrow> tcp_connection res" where
  "conn_at p w = deref ''dangling TcpConnection*'' (conns w p)"

definition upd_conn ::
  "ptr \<Rightarrow> (tcp_connection \<Rightarrow> tcp_connection) \<Rightarrow> ('k, 'z) conn_world_scheme \<Rightarrow> ('k, 'z) conn_world_scheme" where
  "upd_conn p f w = w\<lparr>conns := (conns w)(p := map_option f (conns w p))\<rparr>"

definition conn_call ::
  "(conn_callback \<Rightarrow> ptr \<Rightarrow> ('k, 'z) conn_world_scheme \<Rightarrow> ('k, 'z) conn_world_scheme res) \<Rightarrow>
   conn_callback option \<Rightarrow> ptr \<Rightarrow> ('k, 'z) conn_world_scheme \<Rightarrow> ('k, 'z) conn_world_scheme res" where
  "conn_call call cb p w = (case cb of None \<Rightarrow> Inr w | Some f \<Rightarrow> call f p w)"

section \<open>Construction and destruction\<close>

text \<open>The channel of a connection at \<open>p\<close> with its four callbacks.\<close>

definition TcpConnection_channel :: "ptr \<Rightarrow> ptr \<Rightarrow> fd \<Rightarrow> channel" where
  "TcpConnection_channel p loop sockfd =
     setErrorCallback (cb_TcpConnection_handleError p)
       (setCloseCallback (cb_TcpConnection_handleClose p)
         (setWriteCallback (cb_TcpConnection_handleWrite p)
           (setReadCallback (cb_TcpConnection_handleRead p) (Channel_new (Some loop) sockfd))))"

definition TcpConnection_new ::
  "'k kernel \<Rightarrow> ptr \<Rightarrow> ptr \<Rightarrow> ptr \<Rightarrow> string \<Rightarrow> fd \<Rightarrow> sockaddr_in \<Rightarrow> sockaddr_in \<Rightarrow>
     ('k, 'z) conn_world_scheme \<Rightarrow> ('k, 'z) conn_world_scheme res" where
  "TcpConnection_new K p ch loop name sockfd localAddr peerAddr w =
     rbind (Buffer_new kInitialSize) (\<lambda>inputBuffer.
     rbind (Buffer_new kInitialSize) (\<lambda>outputBuffer.
       let conn = \<lparr>tc_loop = loop, tc_name = name, tc_state = kConnecting, tc_socket = Socket sockfd,
             tc_channel = ch, tc_localAddr = localAddr, tc_peerAddr = peerAddr,
             tc_inputBuffer = inputBuffer, tc_outputBuffer = outputBuffer,
             tc_connectionCallback = None, tc_messageCallback = None, tc_closeCallback = None,
             tc_writeCompleteCallback = None\<rparr>
       in Inr (setKeepAlive K (Socket sockfd) True
            (w\<lparr>chans := (chans w)(ch \<mapsto> TcpConnection_channel p loop sockfd),
               conns := (conns w)(p \<mapsto> conn)\<rparr>))))"

text \<open>The destructor: the channel object goes, then the socket closes its fd.\<close>

definition TcpConnection_destroy ::
  "'k kernel \<Rightarrow> ptr \<Rightarrow> ('k, 'z) conn_world_scheme \<Rightarrow> ('k, 'z) conn_world_scheme res" where
  "TcpConnection_destroy K p w =
     rbind (conn_at p w) (\<lambda>t.
       Inr (Socket_destroy K (tc_socket t)
         (w\<lparr>chans := (chans w)(tc_channel t := None), conns := (conns w)(p := None)\<rparr>)))"

definition TcpConnection_connected :: "tcp_connection \<Rightarrow> bool" where
  "TcpConnection_connected t \<longleftrightarrow> tc_state t = kConnected"

definition setConnectionCallback :: "conn_callback \<Rightarrow> tcp_connection \<Rightarrow> tcp_connection" where
  "setConnectionCallback cb t = t\<lparr>tc_connectionCallback := Some cb\<rparr>"

definition setMessageCallback :: "conn_callback \<Rightarrow> tcp_connection \<Rightarrow> tcp_connection" where
  "setMessageCallback cb t = t\<lparr>tc_messageCallback := Some cb\<rparr>"

definition TcpConnection_setCloseCallback :: "conn_callback \<Rightarrow> tcp_connection \<Rightarrow> tcp_connection" where
  "TcpConnection_setCloseCallback cb t = t\<lparr>tc_closeCallback := Some cb\<rparr>"

definition setWriteCompleteCallback :: "conn_callback \<Rightarrow> tcp_connection \<Rightarrow> tcp_connection" where
  "setWriteCompleteCallback cb t = t\<lparr>tc_writeCompleteCallback := Some cb\<rparr>"

definition setState :: "StateE \<Rightarrow> tcp_connection \<Rightarrow> tcp_connection" where
  "setState state t = t\<lparr>tc_state := state\<rparr>"

section \<open>Sending\<close>

text \<open>\<^verbatim>\<open>loop_->queueInLoop(std::bind(writeCompleteCallback_, shared_from_this()))\<close>, if one is set.\<close>

definition queue_writeComplete ::
  "'k kernel \<Rightarrow> ptr \<Rightarrow> tcp_connection \<Rightarrow> ('k, 'z) conn_world_scheme \<Rightarrow> ('k, 'z) conn_world_scheme res" where
  "queue_writeComplete K p t w =
     (case tc_writeCompleteCallback t of
        None \<Rightarrow> Inr w
      | Some cb \<Rightarrow> queueInLoop K (tc_loop t) (task_writeComplete cb p) w)"

text \<open>The direct write of \<^verbatim>\<open>sendInLoop\<close>: bytes written, whether the fault is final, the state.\<close>

definition send_direct ::
  "'k kernel \<Rightarrow> ptr \<Rightarrow> tcp_connection \<Rightarrow> fd \<Rightarrow> string \<Rightarrow> ('k, 'z) conn_world_scheme \<Rightarrow>
     (nat \<times> bool \<times> ('k, 'z) conn_world_scheme) res" where
  "send_direct K p t f data w =
     (case sockets_write K f data w of
        (Inr nwrote, w1) \<Rightarrow>
          rbind (if (of_nat (length data) - of_nat nwrote :: size_t) = 0 then queue_writeComplete K p t w1 else Inr w1)
            (\<lambda>w2. Inr (nwrote, False, w2))
      | (Inl e, w1) \<Rightarrow>
          if w_errno w1 \<noteq> EAGAIN
          then Inr (0, w_errno w1 = EPIPE \<or> w_errno w1 = ECONNRESET,
                    LOG_ERROR (''TcpConnection::sendInLoop write error: '' @ k_strerror K (w_errno w1)) w1)
          else Inr (0, False, w1))"

text \<open>What \<^verbatim>\<open>sendInLoop\<close> could not write goes to the output buffer, and writing is watched.\<close>

definition send_buffered ::
  "'k kernel \<Rightarrow> ptr \<Rightarrow> string \<Rightarrow> ('k, 'z) conn_world_scheme \<Rightarrow> ('k, 'z) conn_world_scheme res" where
  "send_buffered K p bytes w =
     rbind (conn_at p w) (\<lambda>t.
     rbind (Buffer_append bytes (tc_outputBuffer t)) (\<lambda>b.
       let w1 = upd_conn p (\<lambda>t. t\<lparr>tc_outputBuffer := b\<rparr>) w
       in rbind (chan_at (tc_channel t) w1) (\<lambda>c.
            if \<not> isWriting c then enableWriting K (tc_channel t) w1 else Inr w1)))"

definition sendInLoop ::
  "'k kernel \<Rightarrow> ptr \<Rightarrow> string \<Rightarrow> ('k, 'z) conn_world_scheme \<Rightarrow> ('k, 'z) conn_world_scheme res" where
  "sendInLoop K p data w =
     rbind (conn_at p w) (\<lambda>t.
     rbind (assertInLoopThread (tc_loop t) w) (\<lambda>w.
       if tc_state t = kDisconnected then Inr w
       else rbind (chan_at (tc_channel t) w) (\<lambda>c.
         rbind (if \<not> isWriting c \<and> readableBytes (tc_outputBuffer t) = 0
                then send_direct K p t (chan_fd c) data w
                else Inr (0, False, w)) (\<lambda>(nwrote, faultError, w1).
           let remaining = of_nat (length data) - of_nat nwrote :: size_t
           in if \<not> faultError \<and> remaining > 0
              then rbind (read_block nwrote (unat remaining) data) (\<lambda>bytes. send_buffered K p bytes w1)
              else Inr w1))))"

definition TcpConnection_send ::
  "'k kernel \<Rightarrow> ptr \<Rightarrow> string \<Rightarrow> ('k, 'z) conn_world_scheme \<Rightarrow> ('k, 'z) conn_world_scheme res" where
  "TcpConnection_send K p data w =
     rbind (conn_at p w) (\<lambda>t.
       if tc_state t \<noteq> kConnected then Inr w
       else rbind (isInLoopThread (tc_loop t) w) (\<lambda>inside.
         if inside then sendInLoop K p data w
         else runInLoop K (tc_loop t) (task_sendInLoop p data) (sendInLoop K p data) w))"

section \<open>Closing\<close>

definition shutdownInLoop ::
  "'k kernel \<Rightarrow> ptr \<Rightarrow> ('k, 'z) conn_world_scheme \<Rightarrow> ('k, 'z) conn_world_scheme res" where
  "shutdownInLoop K p w =
     rbind (conn_at p w) (\<lambda>t.
     rbind (assertInLoopThread (tc_loop t) w) (\<lambda>w.
     rbind (chan_at (tc_channel t) w) (\<lambda>c.
       if \<not> isWriting c then Inr (snd (syscall (k_shutdown_wr K (socket_fd (tc_socket t))) w))
       else Inr w)))"

definition TcpConnection_shutdown ::
  "'k kernel \<Rightarrow> ptr \<Rightarrow> ('k, 'z) conn_world_scheme \<Rightarrow> ('k, 'z) conn_world_scheme res" where
  "TcpConnection_shutdown K p w =
     rbind (conn_at p w) (\<lambda>t.
       if tc_state t = kConnected
       then runInLoop K (tc_loop t) (task_shutdownInLoop p) (shutdownInLoop K p)
              (upd_conn p (setState kDisconnecting) w)
       else Inr w)"

section \<open>Event handlers\<close>

definition handleError ::
  "'k kernel \<Rightarrow> ptr \<Rightarrow> ('k, 'z) conn_world_scheme \<Rightarrow> ('k, 'z) conn_world_scheme res" where
  "handleError K p w =
     rbind (conn_at p w) (\<lambda>t.
       Inr (LOG_ERROR (''TcpConnection '' @ tc_name t @ '' error: '' @ k_strerror K (w_errno w)) w))"

definition handleClose ::
  "'k kernel \<Rightarrow> (conn_callback \<Rightarrow> ptr \<Rightarrow> ('k, 'z) conn_world_scheme \<Rightarrow> ('k, 'z) conn_world_scheme res) \<Rightarrow>
   ptr \<Rightarrow> ('k, 'z) conn_world_scheme \<Rightarrow> ('k, 'z) conn_world_scheme res" where
  "handleClose K call p w =
     rbind (conn_at p w) (\<lambda>t.
     rbind (assertInLoopThread (tc_loop t) w) (\<lambda>w.
     rbind (disableAll K (tc_channel t) (upd_conn p (setState kDisconnected) w)) (\<lambda>w1.
     rbind (conn_call call (tc_connectionCallback t) p w1) (\<lambda>w2.
     rbind (conn_at p w2) (\<lambda>t2. conn_call call (tc_closeCallback t2) p w2)))))"

definition TcpConnection_handleRead ::
  "'k kernel \<Rightarrow> (conn_callback \<Rightarrow> ptr \<Rightarrow> ('k, 'z) conn_world_scheme \<Rightarrow> ('k, 'z) conn_world_scheme res) \<Rightarrow>
   ptr \<Rightarrow> ('k, 'z) conn_world_scheme \<Rightarrow> ('k, 'z) conn_world_scheme res" where
  "TcpConnection_handleRead K call p w =
     rbind (conn_at p w) (\<lambda>t. rbind (chan_at (tc_channel t) w) (\<lambda>c.
     rbind (readFd K (chan_fd c) (tc_inputBuffer t) w) (\<lambda>(n, b, w1).
       let w2 = upd_conn p (\<lambda>t. t\<lparr>tc_inputBuffer := b\<rparr>) w1
       in case n of
            Inr m \<Rightarrow> if m > 0 then conn_call call (tc_messageCallback t) p w2
                     else handleClose K call p w2
          | Inl savedErrno \<Rightarrow> handleError K p (w2\<lparr>w_errno := savedErrno\<rparr>))))"

definition handleWrite_failed ::
  "'k kernel \<Rightarrow> ('k, 'z) conn_world_scheme \<Rightarrow> ('k, 'z) conn_world_scheme" where
  "handleWrite_failed K w =
     LOG_ERROR (''TcpConnection::handleWrite error: '' @ k_strerror K (w_errno w)) w"

text \<open>The last byte left the output buffer: stop watching, notify, and close if asked to.\<close>

definition handleWrite_drained ::
  "'k kernel \<Rightarrow> ptr \<Rightarrow> tcp_connection \<Rightarrow> ('k, 'z) conn_world_scheme \<Rightarrow> ('k, 'z) conn_world_scheme res" where
  "handleWrite_drained K p t w =
     rbind (disableWriting K (tc_channel t) w) (\<lambda>w1.
     rbind (queue_writeComplete K p t w1) (\<lambda>w2.
       if tc_state t = kDisconnecting then shutdownInLoop K p w2 else Inr w2))"

definition handleWrite ::
  "'k kernel \<Rightarrow> ptr \<Rightarrow> ('k, 'z) conn_world_scheme \<Rightarrow> ('k, 'z) conn_world_scheme res" where
  "handleWrite K p w =
     rbind (conn_at p w) (\<lambda>t.
     rbind (assertInLoopThread (tc_loop t) w) (\<lambda>w.
     rbind (chan_at (tc_channel t) w) (\<lambda>c.
       let b = tc_outputBuffer t
       in if isWriting c then
            rbind (read_block (Buffer_peek b) (unat (readableBytes b)) (buf_data b)) (\<lambda>bs.
              (case sockets_write K (chan_fd c) bs w of
                 (Inl e, w1) \<Rightarrow> Inr (handleWrite_failed K w1)
               | (Inr n, w1) \<Rightarrow>
                   if n > 0 then
                     let b' = retrieve (of_nat n) b;
                         w2 = upd_conn p (\<lambda>t. t\<lparr>tc_outputBuffer := b'\<rparr>) w1
                     in if readableBytes b' = 0 then handleWrite_drained K p t w2 else Inr w2
                   else Inr (handleWrite_failed K w1)))
          else Inr (LOG_ERROR ''TcpConnection fd is down, no more writing'' w))))"

section \<open>Life cycle\<close>

definition connectEstablished ::
  "'k kernel \<Rightarrow> (conn_callback \<Rightarrow> ptr \<Rightarrow> ('k, 'z) conn_world_scheme \<Rightarrow> ('k, 'z) conn_world_scheme res) \<Rightarrow>
   ptr \<Rightarrow> ('k, 'z) conn_world_scheme \<Rightarrow> ('k, 'z) conn_world_scheme res" where
  "connectEstablished K call p w =
     rbind (conn_at p w) (\<lambda>t.
     rbind (assertInLoopThread (tc_loop t) w) (\<lambda>w.
     rbind (enableReading K (tc_channel t) (upd_conn p (setState kConnected) w)) (\<lambda>w1.
       conn_call call (tc_connectionCallback t) p w1)))"

definition connectDestroyed ::
  "'k kernel \<Rightarrow> (conn_callback \<Rightarrow> ptr \<Rightarrow> ('k, 'z) conn_world_scheme \<Rightarrow> ('k, 'z) conn_world_scheme res) \<Rightarrow>
   ptr \<Rightarrow> ('k, 'z) conn_world_scheme \<Rightarrow> ('k, 'z) conn_world_scheme res" where
  "connectDestroyed K call p w =
     rbind (conn_at p w) (\<lambda>t.
     rbind (assertInLoopThread (tc_loop t) w) (\<lambda>w.
     rbind (if tc_state t = kConnected
            then rbind (disableAll K (tc_channel t) (upd_conn p (setState kDisconnected) w)) (\<lambda>w1.
                   conn_call call (tc_connectionCallback t) p w1)
            else Inr w) (\<lambda>w2.
       Channel_remove K (tc_channel t) w2)))"

section \<open>Invariant and byte stream\<close>

text \<open>
  A connection is well-formed when its channel is its own (same loop, same fd), both buffers
  are, and the channel watches for writability exactly while a live connection has bytes
  left in its output buffer.
\<close>

definition conn_ok :: "('k, 'z) conn_world_scheme \<Rightarrow> ptr \<Rightarrow> bool" where
  "conn_ok w p \<longleftrightarrow>
     (case conns w p of None \<Rightarrow> False | Some t \<Rightarrow>
       (case chans w (tc_channel t) of None \<Rightarrow> False | Some c \<Rightarrow>
          chan_loop c = Some (tc_loop t) \<and> chan_fd c = socket_fd (tc_socket t) \<and>
          buffer_ok (tc_inputBuffer t) \<and> buffer_ok (tc_outputBuffer t) \<and>
          (isWriting c \<longleftrightarrow> tc_state t \<noteq> kDisconnected \<and> Buffer_contents (tc_outputBuffer t) \<noteq> [])))"

text \<open>All bytes the connection took over: those the kernel accepted, then those still buffered.\<close>

definition conn_sent :: "('k \<Rightarrow> fd \<Rightarrow> string) \<Rightarrow> ('k, 'z) conn_world_scheme \<Rightarrow> ptr \<Rightarrow> string" where
  "conn_sent sent w p =
     (case conns w p of None \<Rightarrow> [] | Some t \<Rightarrow> sent (w_kern w) (socket_fd (tc_socket t)))"

definition conn_pending :: "('k, 'z) conn_world_scheme \<Rightarrow> ptr \<Rightarrow> string" where
  "conn_pending w p = (case conns w p of None \<Rightarrow> [] | Some t \<Rightarrow> Buffer_contents (tc_outputBuffer t))"

definition conn_stream :: "('k \<Rightarrow> fd \<Rightarrow> string) \<Rightarrow> ('k, 'z) conn_world_scheme \<Rightarrow> ptr \<Rightarrow> string" where
  "conn_stream sent w p = conn_sent sent w p @ conn_pending w p"

text \<open>
  What the handlers of a connection need of the world: its loop runs in this thread and wakes
  through another fd, and no other channel of the loop uses the connection's fd.
\<close>

definition conn_here :: "('k, 'z) conn_world_scheme \<Rightarrow> ptr \<Rightarrow> bool" where
  "conn_here w p \<longleftrightarrow>
     (\<exists>t e. conns w p = Some t \<and> loops w (tc_loop t) = Some e \<and> el_threadId e = w_thread w \<and>
        el_wakeupFd e \<noteq> socket_fd (tc_socket t) \<and> may_register w (tc_channel t) \<and>
        tc_loop t \<in> dom (pollers w))"

text \<open>The direct write was tried and the peer is gone: the only case in which data is dropped.\<close>

definition send_fault :: "'k kernel \<Rightarrow> ptr \<Rightarrow> string \<Rightarrow> ('k, 'z) conn_world_scheme \<Rightarrow> bool" where
  "send_fault K p data w \<longleftrightarrow>
     conn_pending w p = [] \<and>
     (case conns w p of None \<Rightarrow> False | Some t \<Rightarrow>
        (case fst (k_write K (socket_fd (tc_socket t)) data (w_kern w)) of
           Inl e \<Rightarrow> e = EPIPE \<or> e = ECONNRESET | Inr _ \<Rightarrow> False))"

section \<open>Lemmas: frames\<close>

lemma upd_conn_simps [simp]:
  "conns (upd_conn p f w) = (conns w)(p := map_option f (conns w p))"
  "chans (upd_conn p f w) = chans w" "pollers (upd_conn p f w) = pollers w"
  "loops (upd_conn p f w) = loops w" "w_kern (upd_conn p f w) = w_kern w"
  "w_thread (upd_conn p f w) = w_thread w" "w_errno (upd_conn p f w) = w_errno w"
  by (simp_all add: upd_conn_def)

lemma log_conn_simps [simp]:
  "conns (LOG_ERROR m w) = conns w" "conns (LOG_INFO m w) = conns w" "conns (LOG_DEBUG m w) = conns w"
  by (simp_all add: log_defs)

lemma reactor_frame_conns: "reactor_frame w w' \<Longrightarrow> conns w' = conns w"
  by (cases w; cases w') (simp add: reactor_frame_def)

lemma queueInLoop_conns: "queueInLoop K l cb w = Inr w' \<Longrightarrow> conns w' = conns w"
  using queueInLoop_more [of K l cb w w'] by (cases w; cases w') simp

lemma may_register_cong:
  "chans w' = chans w \<Longrightarrow> pollers w' = pollers w \<Longrightarrow> may_register w' p = may_register w p"
  by (simp add: may_register_def)

lemma may_register_ok:
  assumes "reactor_ok interest w" and "chans w p = Some c" and "enrolled c"
  shows "may_register w p"
  using assms reactor_okD(1) by (fastforce simp: may_register_def)

text \<open>Only the kernel's view of the wake-up fd can change when a task is queued.\<close>

lemma queue_writeCompleteE:
  assumes q: "queue_writeComplete K p t w = Inr w'" and spec: "kernel_spec K interest sent"
    and e: "loops w (tc_loop t) = Some e"
  obtains e' where "chans w' = chans w" and "pollers w' = pollers w" and "conns w' = conns w"
    and "w_thread w' = w_thread w" and "loops w' (tc_loop t) = Some e'"
    and "el_threadId e' = el_threadId e" and "el_wakeupFd e' = el_wakeupFd e"
    and "interest (w_kern w') = interest (w_kern w)"
    and "\<And>f. f \<noteq> el_wakeupFd e \<Longrightarrow> sent (w_kern w') f = sent (w_kern w) f"
proof (cases "tc_writeCompleteCallback t")
  case None
  then show thesis using that [of e] q e by (simp add: queue_writeComplete_def)
next
  case (Some cb)
  then have q': "queueInLoop K (tc_loop t) (task_writeComplete cb p) w = Inr w'"
    using q by (simp add: queue_writeComplete_def)
  have kern: "interest (w_kern w') = interest (w_kern w) \<and>
      (\<forall>f. f \<noteq> el_wakeupFd e \<longrightarrow> sent (w_kern w') f = sent (w_kern w) f)"
    using queueInLoop_kern [OF q']
  proof
    assume "\<exists>e r. loops w (tc_loop t) = Some e \<and> k_write K (el_wakeupFd e) uint64_one (w_kern w) = (r, w_kern w')"
    then obtain r where k: "k_write K (el_wakeupFd e) uint64_one (w_kern w) = (r, w_kern w')"
      using e by auto
    show ?thesis
      using leavesD [OF kernel_specD(7) [OF spec] k] write_specD [OF kernel_specD(2) [OF spec] k] by auto
  qed simp
  show thesis
    by (rule queueInLoopE [OF q'])
      (use that e kern queueInLoop_conns [OF q'] in auto)
qed

lemma isWriting_enable: "chan_events c' = chan_events c OR kWriteEvent \<Longrightarrow> isWriting c'"
  by (simp add: isWriting_def kWriteEvent_def EPOLLOUT_def bit.conj_disj_distrib2 or_eq_0_iff)

lemma isWriting_disable: "chan_events c' = chan_events c AND NOT kWriteEvent \<Longrightarrow> \<not> isWriting c'"
  by (simp add: isWriting_def and.assoc)

lemma isWriting_none: "chan_events c' = kNoneEvent \<Longrightarrow> \<not> isWriting c'"
  by (simp add: isWriting_def kNoneEvent_def)

lemma isWriting_read: "chan_events c' = chan_events c OR kReadEvent \<Longrightarrow> isWriting c' = isWriting c"
  by (simp add: isWriting_def kReadEvent_def kWriteEvent_def epoll_bits bit.conj_disj_distrib2)

text \<open>Changing the mask of the connection's channel.\<close>

lemma change_maskE:
  assumes spec: "kernel_spec K interest sent" and ok: "reactor_ok interest w" and may: "may_register w ch"
    and c: "chans w ch = Some c" "chan_loop c = Some l"
    and upd: "Channel_update K ch (upd_chan ch (change_events g) w) = Inr w'"
  obtains c' where "chans w' = (chans w)(ch \<mapsto> c')" and "chan_events c' = g (chan_events c)"
    and "chan_loop c' = Some l" and "chan_fd c' = chan_fd c" and "enrolled c'"
    and "conns w' = conns w" and "loops w' = loops w" and "w_thread w' = w_thread w"
    and "sent (w_kern w') = sent (w_kern w)" and "reactor_ok interest w'" and "may_register w' ch"
    and "dom (pollers w') = dom (pollers w)"
proof -
  have ctl: "ctl_leaves K sent" using kernel_specD(8) [OF spec] by (simp add: ctl_leaves_def)
  note frame = Channel_update_frame(1) [OF upd]
  show thesis
  proof (rule Channel_update_bound [OF kernel_specD(1) [OF spec] ok may c upd], goal_cases)
    case (1 c')
    then have "enrolled c'" by (simp add: enrolled_def)
    with 1 have "may_register w' ch" by (intro may_register_ok [of interest _ _ c']) simp_all
    then show thesis
      using that [of c'] 1 \<open>enrolled c'\<close> Channel_update_frame(2) [OF upd ctl] reactor_frame_conns [OF frame] reactor_frame_loops [OF frame]
      by simp
  qed
qed

section \<open>Lemmas: sending keeps the stream\<close>

lemma conn_okE:
  assumes "conn_ok w p"
  obtains t c where "conns w p = Some t" and "chans w (tc_channel t) = Some c"
    and "chan_loop c = Some (tc_loop t)" and "chan_fd c = socket_fd (tc_socket t)"
    and "buffer_ok (tc_inputBuffer t)" and "buffer_ok (tc_outputBuffer t)"
    and "isWriting c \<longleftrightarrow> tc_state t \<noteq> kDisconnected \<and> Buffer_contents (tc_outputBuffer t) \<noteq> []"
  using assms by (auto simp: conn_ok_def split: option.splits)

lemma conn_okI:
  assumes "conns w p = Some t" and "chans w (tc_channel t) = Some c"
    and "chan_loop c = Some (tc_loop t)" and "chan_fd c = socket_fd (tc_socket t)"
    and "buffer_ok (tc_inputBuffer t)" and "buffer_ok (tc_outputBuffer t)"
    and "isWriting c \<longleftrightarrow> tc_state t \<noteq> kDisconnected \<and> Buffer_contents (tc_outputBuffer t) \<noteq> []"
  shows "conn_ok w p"
  using assms by (simp add: conn_ok_def)

lemma conn_ok_cong: "conns w' = conns w \<Longrightarrow> chans w' = chans w \<Longrightarrow> conn_ok w' p = conn_ok w p"
  by (simp add: conn_ok_def cong: option.case_cong)

lemma conn_here_cong:
  "conns w' = conns w \<Longrightarrow> chans w' = chans w \<Longrightarrow> pollers w' = pollers w \<Longrightarrow> loops w' = loops w \<Longrightarrow>
   w_thread w' = w_thread w \<Longrightarrow> conn_here w' p = conn_here w p"
  by (simp add: conn_here_def may_register_def)

lemma conn_log_simps [simp]:
  "conn_ok (LOG_ERROR m w) p = conn_ok w p" "conn_here (LOG_ERROR m w) p = conn_here w p"
  "reactor_ok interest (LOG_ERROR m w) = reactor_ok interest w"
  "conn_stream sent (LOG_ERROR m w) p = conn_stream sent w p"
  "conn_pending (LOG_ERROR m w) p = conn_pending w p"
  by (rule conn_ok_cong conn_here_cong; simp)+
    (simp_all add: reactor_ok_def poller_ok_def conn_stream_def conn_sent_def conn_pending_def
      cong: option.case_cong)

lemma conn_view_simps:
  assumes "conns w p = Some t"
  shows "conn_sent sent w p = sent (w_kern w) (socket_fd (tc_socket t))"
    and "conn_pending w p = Buffer_contents (tc_outputBuffer t)"
  using assms by (simp_all add: conn_sent_def conn_pending_def)

lemma conn_hereE:
  assumes "conn_here w p" and "conns w p = Some t"
  obtains e where "loops w (tc_loop t) = Some e" and "el_threadId e = w_thread w"
    and "el_wakeupFd e \<noteq> socket_fd (tc_socket t)" and "may_register w (tc_channel t)"
    and "tc_loop t \<in> dom (pollers w)"
  using assms unfolding conn_here_def by (elim exE conjE) (simp add: that)

lemma send_buffered_ok:
  assumes spec: "kernel_spec K interest sent" and ok: "reactor_ok interest w" and here: "conn_here w p"
    and conn: "conn_ok w p" and t: "conns w p = Some t" "tc_state t \<noteq> kDisconnected"
    and bytes: "bytes \<noteq> []" "length bytes \<le> max_object_size"
    and send: "send_buffered K p bytes w = Inr w'"
  shows "conn_ok w' p" and "reactor_ok interest w'" and "conn_here w' p"
    and "\<exists>b. conns w' = (conns w)(p \<mapsto> t\<lparr>tc_outputBuffer := b\<rparr>) \<and>
           Buffer_contents b = Buffer_contents (tc_outputBuffer t) @ bytes"
    and "sent (w_kern w') = sent (w_kern w)"
proof -
  obtain c where c: "chans w (tc_channel t) = Some c" "chan_loop c = Some (tc_loop t)"
    "chan_fd c = socket_fd (tc_socket t)" "buffer_ok (tc_inputBuffer t)" "buffer_ok (tc_outputBuffer t)"
    "isWriting c \<longleftrightarrow> Buffer_contents (tc_outputBuffer t) \<noteq> []"
    using conn_okE [OF conn] t by (metis option.inject)
  obtain e where e: "loops w (tc_loop t) = Some e" "el_threadId e = w_thread w"
    "el_wakeupFd e \<noteq> socket_fd (tc_socket t)" "may_register w (tc_channel t)"
    "tc_loop t \<in> dom (pollers w)"
    by (rule conn_hereE [OF here t(1)])
  obtain b where b: "Buffer_append bytes (tc_outputBuffer t) = Inr b"
    using send t by (auto simp: send_buffered_def conn_at_def rbind_eq_Inr)
  have b': "buffer_ok b" "Buffer_contents b = Buffer_contents (tc_outputBuffer t) @ bytes"
    using buf.put_invar [OF c(5) bytes(2) b] buf.put_queued [OF c(5) bytes(2) b] by simp_all
  let ?t = "t\<lparr>tc_outputBuffer := b\<rparr>" and ?w = "upd_conn p (\<lambda>t. t\<lparr>tc_outputBuffer := b\<rparr>) w"
  have rest: "(if \<not> isWriting c then enableWriting K (tc_channel t) ?w else Inr ?w) = Inr w'"
    using send t b c(1) by (simp add: send_buffered_def conn_at_def chan_at_def Let_def)
  have okw: "reactor_ok interest ?w" by (rule reactor_ok_kern [OF ok]) simp_all
  have may: "may_register ?w (tc_channel t)" using e(4) by (simp add: may_register_def)
  have "conn_ok w' p \<and> reactor_ok interest w' \<and> conn_here w' p \<and> conns w' = (conns w)(p \<mapsto> ?t) \<and>
        sent (w_kern w') = sent (w_kern w)"
  proof (cases "isWriting c")
    case True
    then have "w' = ?w" using rest by simp
    moreover have "conn_ok ?w p" using c b' t bytes True by (intro conn_okI [of _ _ ?t c]) simp_all
    moreover have "conn_here ?w p" using e may t unfolding conn_here_def by auto
    ultimately show ?thesis using okw t by simp
  next
    case False
    then have upd: "Channel_update K (tc_channel t) (upd_chan (tc_channel t) (change_events (\<lambda>e. e OR kWriteEvent)) ?w) = Inr w'"
      using rest by (simp add: enableWriting_def)
    have cw: "chans ?w (tc_channel t) = Some c" using c(1) by simp
    show ?thesis
    proof (rule change_maskE [OF spec okw may cw c(2) upd], goal_cases)
      case (1 c')
      have "isWriting c'" using 1(2) by (rule isWriting_enable)
      then have "conn_ok w' p" using 1 c b' t bytes by (intro conn_okI [of _ _ ?t c']) simp_all
      moreover have "conn_here w' p" using e 1 t unfolding conn_here_def by auto
      ultimately show ?thesis using 1 t by simp
    qed
  qed
  then show "conn_ok w' p" and "reactor_ok interest w'" and "conn_here w' p"
    and "\<exists>b. conns w' = (conns w)(p \<mapsto> t\<lparr>tc_outputBuffer := b\<rparr>) \<and>
           Buffer_contents b = Buffer_contents (tc_outputBuffer t) @ bytes"
    and "sent (w_kern w') = sent (w_kern w)"
    using b'(2) by auto
qed

text \<open>A write to the socket changes the kernel only.\<close>

lemma sockets_writeE:
  assumes "sockets_write K f bs w = (r, w1)" and spec: "kernel_spec K interest sent"
  obtains "conns w1 = conns w" and "chans w1 = chans w" and "pollers w1 = pollers w"
    and "loops w1 = loops w" and "w_thread w1 = w_thread w"
    and "k_write K f bs (w_kern w) = (r, w_kern w1)"
    and "interest (w_kern w1) = interest (w_kern w)"
    and "\<And>n. r = Inr n \<Longrightarrow> n \<le> length bs \<and> sent (w_kern w1) = (sent (w_kern w))(f := sent (w_kern w) f @ take n bs)"
    and "\<And>e. r = Inl e \<Longrightarrow> sent (w_kern w1) = sent (w_kern w) \<and> w_errno w1 = e"
proof -
  obtain k where k: "k_write K f bs (w_kern w) = (r, k)"
    and w1: "w1 = w\<lparr>w_kern := k, w_errno := (case r of Inl e \<Rightarrow> e | Inr _ \<Rightarrow> w_errno w)\<rparr>"
    using assms(1) unfolding sockets_write_def by (rule syscallE)
  show thesis
    using that w1 k leavesD [OF kernel_specD(7) [OF spec] k] write_specD [OF kernel_specD(2) [OF spec] k]
    by auto
qed

lemma conns_self: "conns w p = Some t \<Longrightarrow> \<exists>b. conns w = (conns w)(p \<mapsto> t\<lparr>tc_outputBuffer := b\<rparr>)"
  by (rule exI [of _ "tc_outputBuffer t"]) (simp add: fun_upd_idem)

lemma size_t_diff:
  assumes "n \<le> length data" and "length data \<le> max_object_size"
  shows "unat (of_nat (length data) - of_nat n :: size_t) = length data - n"
    and "(of_nat (length data) - of_nat n :: size_t) = 0 \<longleftrightarrow> n = length data"
    and "(0 :: size_t) < of_nat (length data) - of_nat n \<longleftrightarrow> n < length data"
proof -
  have lt: "length data < 2 ^ 64" "n < 2 ^ 64" using assms max_object_lt by auto
  have le: "(of_nat n :: size_t) \<le> of_nat (length data)"
    using assms lt by (simp add: word_le_nat_alt unat_size_t_of_nat)
  show d: "unat (of_nat (length data) - of_nat n :: size_t) = length data - n"
    using le lt by (simp add: unat_sub unat_size_t_of_nat)
  show "(of_nat (length data) - of_nat n :: size_t) = 0 \<longleftrightarrow> n = length data"
    using d assms(1) by (metis diff_is_0_eq le_antisym order_refl unat_eq_0)
  show "(0 :: size_t) < of_nat (length data) - of_nat n \<longleftrightarrow> n < length data"
    using d by (simp add: word_less_nat_alt)
qed

lemma conn_stream_app:
  assumes "conns w' p = Some t'" and "tc_socket t' = tc_socket t" and "conns w p = Some t"
    and "sent (w_kern w') (socket_fd (tc_socket t)) = sent (w_kern w) (socket_fd (tc_socket t)) @ a"
    and "a @ Buffer_contents (tc_outputBuffer t') = Buffer_contents (tc_outputBuffer t) @ d"
  shows "conn_stream sent w' p = conn_stream sent w p @ d"
  using assms by (simp add: conn_stream_def conn_view_simps)

text \<open>The direct write: nothing buffered, the channel not watched.\<close>

lemma send_direct_ok:
  assumes spec: "kernel_spec K interest sent" and ok: "reactor_ok interest w" and here: "conn_here w p"
    and conn: "conn_ok w p" and t: "conns w p = Some t" and data: "length data \<le> max_object_size"
    and idle: "conn_pending w p = []"
    and send: "send_direct K p t (socket_fd (tc_socket t)) data w = Inr (n, fault, v)"
  shows "n \<le> length data \<and> conns v = conns w \<and> reactor_ok interest v \<and> conn_here v p \<and> conn_ok v p \<and>
    sent (w_kern v) (socket_fd (tc_socket t)) = sent (w_kern w) (socket_fd (tc_socket t)) @ take n data \<and>
    fault = send_fault K p data w \<and> (fault \<longrightarrow> n = 0)"
proof -
  let ?f = "socket_fd (tc_socket t)"
  obtain e where e: "loops w (tc_loop t) = Some e" "el_threadId e = w_thread w"
    "el_wakeupFd e \<noteq> ?f" "may_register w (tc_channel t)"
    "tc_loop t \<in> dom (pollers w)"
    by (rule conn_hereE [OF here t])
  obtain r w1 where wr: "sockets_write K ?f data w = (r, w1)" by (cases "sockets_write K ?f data w")
  show ?thesis
  proof (rule sockets_writeE [OF wr spec], goal_cases)
    case 1
    have w1: "reactor_ok interest w1" "conn_here w1 p" "conn_ok w1 p"
      using reactor_ok_kern [OF ok 1(2,3,7)] here conn conn_ok_cong [OF 1(1,2)] conn_here_cong [OF 1(1-5)]
      by simp_all
    show ?thesis
    proof (cases r)
      case (Inr m)
      have v: "v = w1 \<or> queue_writeComplete K p t w1 = Inr v" and m: "n = m" "\<not> fault"
        using send wr Inr by (auto simp: send_direct_def rbind_eq_Inr split: if_splits)
      have nf: "\<not> send_fault K p data w" using t 1(6) Inr by (simp add: send_fault_def)
      note n = 1(8) [OF Inr]
      from v show ?thesis
      proof
        assume "v = w1"
        then show ?thesis using w1 1(1) n m nf by simp
      next
        assume q: "queue_writeComplete K p t w1 = Inr v"
        show ?thesis
        proof (rule queue_writeCompleteE [OF q spec, of e], use e(1) 1(4) in simp, goal_cases)
          case (1 e')
          have "conn_ok v p" using w1 conn_ok_cong [OF 1(3,1)] by simp
          moreover have "reactor_ok interest v" using 1 by (intro reactor_ok_kern [OF w1(1)]) simp_all
          moreover have "conn_here v p"
            using 1 e t \<open>conns w1 = conns w\<close> \<open>chans w1 = chans w\<close> \<open>pollers w1 = pollers w\<close>
              \<open>w_thread w1 = w_thread w\<close>
            unfolding conn_here_def by (auto simp: may_register_def)
          ultimately show ?thesis using 1 e(3) \<open>conns w1 = conns w\<close> n m nf by simp
        qed
      qed
    next
      case (Inl err)
      have v: "v = w1 \<or> (\<exists>m. v = LOG_ERROR m w1)" and n: "n = 0"
        and fault: "fault = (err = EPIPE \<or> err = ECONNRESET)"
        using send wr Inl 1(9) [OF Inl] by (auto simp: send_direct_def errno_defs split: if_splits)
      have "reactor_ok interest v" "conn_here v p" "conn_ok v p" "conns v = conns w" "w_kern v = w_kern w1"
        using v w1 1(1) reactor_ok_kern [OF w1(1), of v] conn_ok_cong [of v w1 p] conn_here_cong [of v w1 p]
        by auto
      moreover have "fault = send_fault K p data w" using t 1(6) Inl idle fault by (simp add: send_fault_def)
      ultimately show ?thesis using n 1(9) [OF Inl] by simp
    qed
  qed
qed

text \<open>The two phases of \<^verbatim>\<open>sendInLoop\<close>: a direct write if nothing is pending, then the rest into the buffer.\<close>

lemma sendInLoop_phases:
  assumes here: "conn_here w p" and conn: "conn_ok w p" and t: "conns w p = Some t" "tc_state t \<noteq> kDisconnected"
    and send: "sendInLoop K p data w = Inr w'"
  obtains n fault v where
    "(if conn_pending w p = [] then send_direct K p t (socket_fd (tc_socket t)) data w else Inr (0, False, w)) =
       Inr (n, fault, v)"
    and "(let remaining = of_nat (length data) - of_nat n :: size_t
      in if \<not> fault \<and> remaining > 0
         then rbind (read_block n (unat remaining) data) (\<lambda>bytes. send_buffered K p bytes v)
         else Inr v) = Inr w'"
proof -
  obtain c where c: "chans w (tc_channel t) = Some c" "chan_fd c = socket_fd (tc_socket t)" "buffer_ok (tc_outputBuffer t)"
    "isWriting c \<longleftrightarrow> Buffer_contents (tc_outputBuffer t) \<noteq> []"
    using conn_okE [OF conn] t by (metis option.inject)
  obtain e where e: "loops w (tc_loop t) = Some e" "el_threadId e = w_thread w"
    by (rule conn_hereE [OF here t(1)])
  have idle: "conn_pending w p = [] \<longleftrightarrow> \<not> isWriting c \<and> readableBytes (tc_outputBuffer t) = 0"
    using c buf.count_zero [OF c(3)] t by (auto simp: conn_view_simps)
  show thesis
    using send t e c(1,2) that unfolding idle
    by (cases "\<not> isWriting c \<and> readableBytes (tc_outputBuffer t) = 0")
      (auto simp: sendInLoop_def conn_at_def chan_at_def assertInLoopThread_def isInLoopThread_def loop_at_def
        rbind_eq_Inr)
qed

text \<open>
  \<^verbatim>\<open>sendInLoop\<close> adds exactly its data to the stream, or nothing when the peer is gone.
\<close>

lemma sendInLoop_ok:
  assumes spec: "kernel_spec K interest sent" and ok: "reactor_ok interest w" and here: "conn_here w p"
    and conn: "conn_ok w p" and t: "conns w p = Some t" "tc_state t \<noteq> kDisconnected"
    and data: "length data \<le> max_object_size" and send: "sendInLoop K p data w = Inr w'"
  shows "conn_ok w' p \<and> reactor_ok interest w' \<and> conn_here w' p \<and>
    (\<exists>b. conns w' = (conns w)(p \<mapsto> t\<lparr>tc_outputBuffer := b\<rparr>)) \<and>
    conn_stream sent w' p = conn_stream sent w p @ (if send_fault K p data w then [] else data)"
proof -
  let ?f = "socket_fd (tc_socket t)"
  obtain n fault v where
    first: "(if conn_pending w p = [] then send_direct K p t ?f data w else Inr (0, False, w)) = Inr (n, fault, v)"
    and rest: "(let remaining = of_nat (length data) - of_nat n :: size_t
      in if \<not> fault \<and> remaining > 0
         then rbind (read_block n (unat remaining) data) (\<lambda>bytes. send_buffered K p bytes v)
         else Inr v) = Inr w'"
    by (rule sendInLoop_phases [OF here conn t send])
  have v: "n \<le> length data \<and> conns v = conns w \<and> reactor_ok interest v \<and> conn_here v p \<and> conn_ok v p \<and>
      sent (w_kern v) ?f = sent (w_kern w) ?f @ take n data \<and>
      fault = send_fault K p data w \<and> (fault \<longrightarrow> n = 0) \<and> (conn_pending w p = [] \<or> n = 0)"
  proof (cases "conn_pending w p = []")
    case True
    then show ?thesis using send_direct_ok [OF spec ok here conn t(1) data True] first by simp
  next
    case False
    then show ?thesis using first ok here conn by (auto simp: send_fault_def)
  qed
  show ?thesis
  proof (cases "\<not> fault \<and> n < length data")
    case True
    then have bytes: "drop n data \<noteq> []" "length (drop n data) \<le> max_object_size" using data by auto
    have "send_buffered K p (drop n data) v = Inr w'"
      using rest True size_t_diff [of n data] data v by (auto simp: Let_def read_block_def subarray_def)
    have v': "reactor_ok interest v" "conn_here v p" "conn_ok v p" "conns v p = Some t" using v t(1) by auto
    note sb = send_buffered_ok [OF spec v' t(2) bytes \<open>send_buffered K p (drop n data) v = Inr w'\<close>]
    from sb(4) v obtain b where b: "conns w' = (conns w)(p \<mapsto> t\<lparr>tc_outputBuffer := b\<rparr>)"
      "Buffer_contents b = Buffer_contents (tc_outputBuffer t) @ drop n data"
      by auto
    have "conn_stream sent w' p = conn_stream sent w p @ data"
      by (rule conn_stream_app [of _ _ "t\<lparr>tc_outputBuffer := b\<rparr>" t _ _ "take n data"])
        (use b sb(5) v t in \<open>auto simp: conn_view_simps\<close>)
    then show ?thesis using sb(1-3) v t(1) b True by auto
  next
    case False
    then have "w' = v" using rest size_t_diff [of n data] data v by (auto simp: Let_def)
    moreover have "\<exists>b. conns v = (conns w)(p \<mapsto> t\<lparr>tc_outputBuffer := b\<rparr>)" using conns_self [OF t(1)] v by simp
    ultimately show ?thesis
      using v t False by (auto simp: conn_stream_def conn_view_simps)
  qed
qed

section \<open>Lemmas: draining the output buffer\<close>

definition call_view :: "'k kernel \<Rightarrow> ('k \<Rightarrow> 'v) \<Rightarrow> bool" where
  "call_view K v \<longleftrightarrow> (\<forall>f bs. leaves (k_write K f bs) v) \<and> ctl_leaves K v"

lemma half_close_call_view: "half_close_spec K shut \<Longrightarrow> call_view K shut"
  by (simp add: half_close_spec_def call_view_def ctl_leaves_def)

lemma queue_writeComplete_view:
  assumes "queue_writeComplete K p t w = Inr w'" and "call_view K v"
  shows "v (w_kern w') = v (w_kern w)"
proof (cases "tc_writeCompleteCallback t")
  case None
  then show ?thesis using assms(1) by (simp add: queue_writeComplete_def)
next
  case (Some cb)
  then have "queueInLoop K (tc_loop t) (task_writeComplete cb p) w = Inr w'"
    using assms(1) by (simp add: queue_writeComplete_def)
  from queueInLoop_kern [OF this] show ?thesis
    using assms(2) by (auto simp: call_view_def dest: leavesD)
qed

lemma send_direct_view:
  assumes "send_direct K p t f data w = Inr (n, fault, v')" and "call_view K v"
  shows "v (w_kern v') = v (w_kern w)"
proof -
  obtain r w1 where wr: "sockets_write K f data w = (r, w1)" by (cases "sockets_write K f data w")
  then have "v (w_kern w1) = v (w_kern w)"
    using assms(2) by (auto simp: sockets_write_def call_view_def intro: syscall_leaves)
  moreover have "v' = w1 \<or> (\<exists>m. v' = LOG_ERROR m w1) \<or> queue_writeComplete K p t w1 = Inr v'"
    using assms(1) wr by (cases r) (auto simp: send_direct_def rbind_eq_Inr split: if_splits)
  ultimately show ?thesis using queue_writeComplete_view [OF _ assms(2), of p t w1 v'] by auto
qed

lemma send_buffered_view:
  assumes "send_buffered K p bytes w = Inr w'" and "call_view K v"
  shows "v (w_kern w') = v (w_kern w)"
  using assms
  by (auto simp: send_buffered_def rbind_eq_Inr Let_def enableWriting_def call_view_def split: if_splits
      dest: Channel_update_frame(2) [where v = v])

lemma sendInLoop_view:
  assumes send: "sendInLoop K p data w = Inr w'" and v: "call_view K v"
  shows "v (w_kern w') = v (w_kern w)"
proof -
  obtain t where s1: "(if tc_state t = kDisconnected then Inr w
       else rbind (chan_at (tc_channel t) w) (\<lambda>c.
         rbind (if \<not> isWriting c \<and> readableBytes (tc_outputBuffer t) = 0
                then send_direct K p t (chan_fd c) data w
                else Inr (0, False, w)) (\<lambda>(nwrote, faultError, w1).
           let remaining = of_nat (length data) - of_nat nwrote :: size_t
           in if \<not> faultError \<and> remaining > 0
              then rbind (read_block nwrote (unat remaining) data) (\<lambda>bytes. send_buffered K p bytes w1)
              else Inr w1))) = Inr w'"
    using send unfolding sendInLoop_def by (elim rbind_InrE) simp
  show ?thesis
  proof (cases "tc_state t = kDisconnected")
    case False
    note s2 = s1 [unfolded if_not_P [OF False]]
    obtain c x where
      first: "(if \<not> isWriting c \<and> readableBytes (tc_outputBuffer t) = 0
               then send_direct K p t (chan_fd c) data w else Inr (0, False, w)) = Inr x"
      and rest: "(case x of (nwrote, faultError, w1) \<Rightarrow>
           let remaining = of_nat (length data) - of_nat nwrote :: size_t
           in if \<not> faultError \<and> remaining > 0
              then rbind (read_block nwrote (unat remaining) data) (\<lambda>bytes. send_buffered K p bytes w1)
              else Inr w1) = Inr w'"
      by (rule rbind_InrE [OF s2], erule rbind_InrE, blast)
    obtain n fault w1 where x: "x = (n, fault, w1)" by (cases x)
    have rest: "w' = w1 \<or> (\<exists>bytes. send_buffered K p bytes w1 = Inr w')"
      using rest x by (auto simp: Let_def rbind_eq_Inr split: if_splits)
    have "v (w_kern w1) = v (w_kern w)"
      using first x send_direct_view [OF _ v] by (auto split: if_splits)
    then show ?thesis using rest send_buffered_view [OF _ v] by metis
  qed (use s1 in simp)
qed

text \<open>\<^verbatim>\<open>shutdownInLoop\<close> closes the writing half exactly when nothing is left to write.\<close>

lemma shutdownInLoop_eq:
  assumes conn: "conn_ok w p" and here: "conn_here w p"
    and t: "conns w p = Some t" "tc_state t \<noteq> kDisconnected"
  shows "shutdownInLoop K p w =
    Inr (if conn_pending w p = [] then snd (syscall (k_shutdown_wr K (socket_fd (tc_socket t))) w) else w)"
proof -
  obtain c where "chans w (tc_channel t) = Some c"
    "isWriting c \<longleftrightarrow> Buffer_contents (tc_outputBuffer t) \<noteq> []"
    using conn_okE [OF conn] t by (metis option.inject)
  then show ?thesis
    using t by (auto intro: conn_hereE [OF here t(1)]
        simp: shutdownInLoop_def conn_at_def chan_at_def conn_view_simps
          assertInLoopThread_def isInLoopThread_def loop_at_def elim!: conn_hereE [OF here t(1)])
qed

text \<open>Shutting down the writing side changes only the kernel, and there neither interest nor bytes sent.\<close>

lemma shutdown_wr_frame:
  assumes spec: "kernel_spec K interest sent" and ok: "reactor_ok interest w"
    and sys: "syscall (k_shutdown_wr K f) w = (r, w1)"
  shows "conns w1 = conns w" and "conn_ok w1 p = conn_ok w p" and "conn_here w1 p = conn_here w p"
    and "reactor_ok interest w1" and "sent (w_kern w1) = sent (w_kern w)"
proof -
  have w1: "conns w1 = conns w" "chans w1 = chans w" "pollers w1 = pollers w" "loops w1 = loops w" "w_thread w1 = w_thread w"
    using sys by (auto simp: syscall_eq)
  have k1: "interest (w_kern w1) = interest (w_kern w)" "sent (w_kern w1) = sent (w_kern w)"
    using syscall_leaves [OF _ sys] reads_leaveD(4) kernel_specD(5,6) [OF spec] by auto
  show "conns w1 = conns w" and "conn_ok w1 p = conn_ok w p" and "conn_here w1 p = conn_here w p"
    and "reactor_ok interest w1" and "sent (w_kern w1) = sent (w_kern w)"
    using w1(1) k1(2) conn_ok_cong [OF w1(1,2)] conn_here_cong [OF w1] reactor_ok_kern [OF ok w1(2,3) k1(1)] by auto
qed

text \<open>After the last byte is written: what \<^verbatim>\<open>handleWrite\<close> does then.\<close>

lemma handleWrite_drained_ok:
  assumes spec: "kernel_spec K interest sent" and hc: "half_close_spec K shut"
    and ok: "reactor_ok interest w" and here: "conn_here w p"
    and t: "conns w p = Some (t\<lparr>tc_outputBuffer := b\<rparr>)" "tc_state t \<noteq> kDisconnected"
    and b: "buffer_ok b" "Buffer_contents b = []" "buffer_ok (tc_inputBuffer t)"
    and c: "chans w (tc_channel t) = Some c" "chan_loop c = Some (tc_loop t)" "chan_fd c = socket_fd (tc_socket t)"
    and drain: "handleWrite_drained K p t w = Inr w'"
  shows "conn_ok w' p \<and> reactor_ok interest w' \<and> conn_here w' p \<and> conns w' = conns w \<and>
    sent (w_kern w') (socket_fd (tc_socket t)) = sent (w_kern w) (socket_fd (tc_socket t)) \<and>
    (shut (w_kern w') (socket_fd (tc_socket t)) \<longrightarrow>
       shut (w_kern w) (socket_fd (tc_socket t)) \<or> tc_state t = kDisconnecting)"
proof -
  let ?f = "socket_fd (tc_socket t)" and ?t = "t\<lparr>tc_outputBuffer := b\<rparr>"
  obtain e where e: "loops w (tc_loop t) = Some e" "el_threadId e = w_thread w"
    "el_wakeupFd e \<noteq> ?f" "may_register w (tc_channel t)" "tc_loop t \<in> dom (pollers w)"
    using conn_hereE [OF here t(1)] by auto
  obtain w1 w2 where w1: "disableWriting K (tc_channel t) w = Inr w1"
    and w2: "queue_writeComplete K p t w1 = Inr w2"
    and w3: "(if tc_state t = kDisconnecting then shutdownInLoop K p w2 else Inr w2) = Inr w'"
    using drain unfolding handleWrite_drained_def by (elim rbind_InrE)
  note cv = half_close_call_view [OF hc]
  have shut1: "shut (w_kern w1) = shut (w_kern w)"
    using Channel_update_frame(2) [OF w1 [unfolded disableWriting_def], of shut] cv by (simp add: call_view_def)
  have shut2: "shut (w_kern w2) = shut (w_kern w)" using queue_writeComplete_view [OF w2 cv] shut1 by simp
  show ?thesis
  proof (rule change_maskE [OF spec ok e(4) c(1,2) w1 [unfolded disableWriting_def]], goal_cases)
    case (1 c')
    have nw: "\<not> isWriting c'" using 1(2) by (rule isWriting_disable)
    note one = 1
    show ?case
    proof (rule queue_writeCompleteE [OF w2 spec, of e], use e(1) 1(7) in simp, goal_cases)
      case (1 e')
      have okw2: "reactor_ok interest w2" using 1 by (intro reactor_ok_kern [OF one(10)]) simp_all
      have conn2: "conns w2 p = Some ?t" using 1 one t by simp
      have cok2: "conn_ok w2 p"
        using 1 one b c nw by (intro conn_okI [OF conn2, of c']) simp_all
      have here2: "conn_here w2 p"
        using 1 one e conn2 unfolding conn_here_def by (auto simp: may_register_def)
      show ?thesis
      proof (cases "tc_state t = kDisconnecting")
        case False
        then show ?thesis using w3 okw2 cok2 here2 1 one shut2 e(3) by auto
      next
        case True
        obtain r w4 where sys: "syscall (k_shutdown_wr K ?f) w2 = (r, w4)" by (cases "syscall (k_shutdown_wr K ?f) w2")
        have "w' = w4"
          using w3 True shutdownInLoop_eq [OF cok2 here2 conn2, of K] t(2) b sys
          by (simp add: conn_pending_def conn2)
        then show ?thesis using True cok2 here2 1 one e(3) shutdown_wr_frame [OF spec okw2 sys] by auto
      qed
    qed
  qed
qed

lemma read_contents:
  "buffer_ok b \<Longrightarrow> read_block (Buffer_peek b) (unat (readableBytes b)) (buf_data b) = Inr (Buffer_contents b)"
  using buffer_ok_bounds [of b] by (simp add: read_block_def Buffer_peek_def unat_readableBytes Buffer_contents_def)

text \<open>The end of \<^verbatim>\<open>handleWrite\<close> when the kernel has taken \<open>n\<close> bytes.\<close>

lemma handleWrite_written_ok:
  assumes spec: "kernel_spec K interest sent" and hc: "half_close_spec K shut"
    and ok: "reactor_ok interest w" and here: "conn_here w p"
    and t: "conns w p = Some t" "tc_state t \<noteq> kDisconnected"
    and c: "chans w (tc_channel t) = Some c" "chan_loop c = Some (tc_loop t)" "chan_fd c = socket_fd (tc_socket t)"
      "isWriting c" and bufs: "buffer_ok (tc_inputBuffer t)" "buffer_ok (tc_outputBuffer t)"
    and n: "n \<le> length (Buffer_contents (tc_outputBuffer t))" and b_def: "b = retrieve (of_nat n) (tc_outputBuffer t)"
    and w2: "w2 = upd_conn p (\<lambda>t. t\<lparr>tc_outputBuffer := b\<rparr>) w"
    and rest: "(if readableBytes b = 0 then handleWrite_drained K p t w2 else Inr w2) = Inr w'"
  shows "conn_ok w' p \<and> reactor_ok interest w' \<and> conn_here w' p \<and>
    conns w' = (conns w)(p \<mapsto> t\<lparr>tc_outputBuffer := b\<rparr>) \<and>
    Buffer_contents b = drop n (Buffer_contents (tc_outputBuffer t)) \<and>
    sent (w_kern w') (socket_fd (tc_socket t)) = sent (w_kern w) (socket_fd (tc_socket t)) \<and>
    (shut (w_kern w') (socket_fd (tc_socket t)) \<longrightarrow>
       shut (w_kern w) (socket_fd (tc_socket t)) \<or> tc_state t = kDisconnecting \<and> Buffer_contents b = [])"
proof -
  let ?t = "t\<lparr>tc_outputBuffer := b\<rparr>"
  have "n < 2 ^ 64"
    using n buffer_ok_bounds [OF bufs(2)] by (simp add: length_contents bufs(2) unat_readableBytes)
  then have b: "buffer_ok b" "Buffer_contents b = drop n (Buffer_contents (tc_outputBuffer t))"
    by (simp_all add: b_def retrieve_ok bufs(2) unat_size_t_of_nat)
  have okw: "reactor_ok interest w2" by (rule reactor_ok_kern [OF ok]) (simp_all add: w2)
  obtain e where e: "loops w (tc_loop t) = Some e" "el_threadId e = w_thread w" "el_wakeupFd e \<noteq> socket_fd (tc_socket t)"
    "may_register w (tc_channel t)" "tc_loop t \<in> dom (pollers w)"
    by (rule conn_hereE [OF here t(1)])
  have herew: "conn_here w2 p" using e t unfolding conn_here_def by (auto simp: w2 may_register_def)
  have conw: "conns w2 p = Some ?t" and cw: "chans w2 (tc_channel t) = Some c" using t c(1) by (simp_all add: w2)
  show ?thesis
  proof (cases "readableBytes b = 0")
    case True
    then have empty: "Buffer_contents b = []" using buf.count_zero [OF b(1)] by simp
    then show ?thesis
      using handleWrite_drained_ok [OF spec hc okw herew conw t(2) b(1) empty bufs(1) cw c(2,3), of w'] rest True b t
      by (auto simp: w2)
  next
    case False
    then have "Buffer_contents b \<noteq> []" using buf.count_zero [OF b(1)] by simp
    then have "conn_ok w2 p" using c bufs b cw t(2) by (intro conn_okI [OF conw, of c]) simp_all
    then show ?thesis using rest False okw herew b t by (auto simp: w2)
  qed
qed

text \<open>\<^verbatim>\<open>handleWrite\<close> moves bytes from the front of the output buffer to the kernel and changes nothing else of the stream.\<close>

lemma handleWrite_ok:
  assumes spec: "kernel_spec K interest sent" and hc: "half_close_spec K shut"
    and ok: "reactor_ok interest w" and here: "conn_here w p" and conn: "conn_ok w p"
    and t: "conns w p = Some t" "tc_state t \<noteq> kDisconnected"
    and hw: "handleWrite K p w = Inr w'"
  shows "conn_ok w' p \<and> reactor_ok interest w' \<and> conn_here w' p \<and>
    (\<exists>b. conns w' = (conns w)(p \<mapsto> t\<lparr>tc_outputBuffer := b\<rparr>)) \<and>
    conn_stream sent w' p = conn_stream sent w p \<and>
    (shut (w_kern w') (socket_fd (tc_socket t)) \<longrightarrow>
       shut (w_kern w) (socket_fd (tc_socket t)) \<or> tc_state t = kDisconnecting \<and> conn_pending w' p = [])"
proof -
  let ?f = "socket_fd (tc_socket t)" and ?bs = "Buffer_contents (tc_outputBuffer t)"
  obtain c where c: "chans w (tc_channel t) = Some c" "chan_loop c = Some (tc_loop t)"
    "chan_fd c = ?f" "buffer_ok (tc_inputBuffer t)" "buffer_ok (tc_outputBuffer t)"
    using conn_okE [OF conn] t by (metis option.inject)
  obtain e where e: "loops w (tc_loop t) = Some e" "el_threadId e = w_thread w" by (rule conn_hereE [OF here t(1)])
  note unfold = handleWrite_def conn_at_def chan_at_def assertInLoopThread_def isInLoopThread_def loop_at_def
    read_contents [OF c(5)]
  obtain r w1 where wr: "sockets_write K ?f ?bs w = (r, w1)" by (cases "sockets_write K ?f ?bs w")
  have shut1: "shut (w_kern w1) = shut (w_kern w)"
    using syscall_leaves [OF _ wr [unfolded sockets_write_def]] half_close_call_view [OF hc] by (auto simp: call_view_def)
  show ?thesis
  proof (rule sockets_writeE [OF wr spec], goal_cases)
    case 1
    have w1: "reactor_ok interest w1" "conn_here w1 p" "conn_ok w1 p" "conns w1 p = Some t" "chans w1 (tc_channel t) = Some c"
      using reactor_ok_kern [OF ok 1(2,3,7)] here conn conn_ok_cong [OF 1(1,2)] conn_here_cong [OF 1(1-5)] 1(1,2) t(1) c(1)
      by simp_all
    consider (idle) "\<not> isWriting c" | (failed) "isWriting c" "\<not> (\<exists>n. r = Inr n \<and> 0 < n)"
      | (written) n where "isWriting c" "r = Inr n" "0 < n" by blast
    then show ?case
    proof cases
      case idle
      then have "w' = LOG_ERROR ''TcpConnection fd is down, no more writing'' w"
        using hw t c e by (simp add: unfold Let_def)
      then show ?thesis using ok here conn conns_self [OF t(1)] by simp
    next
      case failed
      then have "w' = handleWrite_failed K w1"
        using hw t c e wr by (cases r) (auto simp: unfold Let_def)
      moreover have "sent (w_kern w1) = sent (w_kern w)"
        using failed(2) 1(8) [of 0] 1(9) by (cases r) auto
      ultimately show ?thesis
        using w1 1(1) conns_self [OF t(1)] shut1
        by (simp add: handleWrite_failed_def conn_stream_def conn_sent_def conn_pending_def cong: option.case_cong)
    next
      case (written n)
      have n: "n \<le> length ?bs" "sent (w_kern w1) ?f = sent (w_kern w) ?f @ take n ?bs" using 1(8) written by auto
      note ok = handleWrite_written_ok [OF spec hc w1(1,2,4) t(2) w1(5) c(2,3) written(1) c(4,5) n(1) refl refl, of w']
      show ?thesis
        using ok hw t c e wr written n 1(1) shut1
        by (auto simp: unfold Let_def conn_stream_def conn_view_simps conn_pending_def)
    qed
  qed
qed

lemma handleWrite_view:
  assumes hw: "handleWrite K p w = Inr w'" and v: "call_view K v" "\<forall>f. leaves (k_shutdown_wr K f) v"
  shows "v (w_kern w') = v (w_kern w)"
proof -
  have drained: "v (w_kern w2) = v (w_kern w1)" if dr: "handleWrite_drained K p t w1 = Inr w2" for t w1 w2
  proof -
    obtain u1 u2 where u: "disableWriting K (tc_channel t) w1 = Inr u1" "queue_writeComplete K p t u1 = Inr u2"
      "u2 = w2 \<or> shutdownInLoop K p u2 = Inr w2"
      using dr by (auto simp: handleWrite_drained_def split: if_splits elim!: rbind_InrE)
    have shut: "v (w_kern (snd (syscall (k_shutdown_wr K f) u2))) = v (w_kern u2)" for f
      using v(2) by (simp add: syscall_def leaves_def split: prod.splits) (metis snd_conv)
    have "v (w_kern w2) = v (w_kern u2)"
      using u(3) shut by (auto simp: shutdownInLoop_def split: if_splits elim!: rbind_InrE)
    then show ?thesis
      using queue_writeComplete_view [OF u(2) v(1)] Channel_update_frame(2) [of K "tc_channel t" _ w1 u1 v] u(1) v(1)
      by (simp add: disableWriting_def call_view_def)
  qed
  obtain t and c :: channel where s1: "(let b = tc_outputBuffer t
       in if isWriting c then
            rbind (read_block (Buffer_peek b) (unat (readableBytes b)) (buf_data b)) (\<lambda>bs.
              (case sockets_write K (chan_fd c) bs w of
                 (Inl e, w1) \<Rightarrow> Inr (handleWrite_failed K w1)
               | (Inr n, w1) \<Rightarrow>
                   if n > 0 then
                     let b' = retrieve (of_nat n) b;
                         w2 = upd_conn p (\<lambda>t. t\<lparr>tc_outputBuffer := b'\<rparr>) w1
                     in if readableBytes b' = 0 then handleWrite_drained K p t w2 else Inr w2
                   else Inr (handleWrite_failed K w1)))
          else Inr (LOG_ERROR ''TcpConnection fd is down, no more writing'' w)) = Inr w'"
    using hw unfolding handleWrite_def
    by (elim rbind_InrE) (drule iffD1 [OF assertInLoopThread_eq], elim conjE, hypsubst, rule that)
  show ?thesis
  proof (cases "isWriting c")
    case True
    then obtain bs where s2: "(case sockets_write K (chan_fd c) bs w of
         (Inl e, w1) \<Rightarrow> Inr (handleWrite_failed K w1)
       | (Inr n, w1) \<Rightarrow>
           if n > 0 then
             let b' = retrieve (of_nat n) (tc_outputBuffer t);
                 w2 = upd_conn p (\<lambda>t. t\<lparr>tc_outputBuffer := b'\<rparr>) w1
             in if readableBytes b' = 0 then handleWrite_drained K p t w2 else Inr w2
           else Inr (handleWrite_failed K w1)) = Inr w'"
      using s1 by (auto simp: Let_def elim!: rbind_InrE)
    obtain r w1 where wr: "sockets_write K (chan_fd c) bs w = (r, w1)" by (cases "sockets_write K (chan_fd c) bs w")
    have "v (w_kern w1) = v (w_kern w)"
      using wr v(1) by (auto simp: sockets_write_def call_view_def intro: syscall_leaves)
    then show ?thesis
      using s2 wr by (cases r) (auto simp: handleWrite_failed_def Let_def split: if_splits dest: drained)
  qed (use s1 in auto)
qed

section \<open>Runs of a connection\<close>

text \<open>
  What happens to a connection in its loop's thread while it is up: the user sends or shuts
  down, or the poller reports that the socket is writable.
\<close>

datatype conn_op = SendOp string | ShutdownOp | WritableOp

fun conn_step ::
  "'k kernel \<Rightarrow> ptr \<Rightarrow> conn_op \<Rightarrow> ('k, 'z) conn_world_scheme \<Rightarrow> ('k, 'z) conn_world_scheme res" where
  "conn_step K p (SendOp data) w = TcpConnection_send K p data w"
| "conn_step K p ShutdownOp w = TcpConnection_shutdown K p w"
| "conn_step K p WritableOp w = handleWrite K p w"

text \<open>The bytes a run accepts: those sent before the first shutdown.\<close>

fun accepted :: "conn_op list \<Rightarrow> string" where
  "accepted [] = []"
| "accepted (SendOp data # xs) = data @ accepted xs"
| "accepted (ShutdownOp # xs) = []"
| "accepted (WritableOp # xs) = accepted xs"

definition conn_connected :: "('k, 'z) conn_world_scheme \<Rightarrow> ptr \<Rightarrow> bool" where
  "conn_connected w p \<longleftrightarrow> (case conns w p of None \<Rightarrow> False | Some t \<Rightarrow> TcpConnection_connected t)"

fun step_faults :: "'k kernel \<Rightarrow> ptr \<Rightarrow> conn_op \<Rightarrow> ('k, 'z) conn_world_scheme \<Rightarrow> bool" where
  "step_faults K p (SendOp data) w \<longleftrightarrow> conn_connected w p \<and> send_fault K p data w"
| "step_faults K p _ w \<longleftrightarrow> False"

text \<open>Some send of the run found the peer gone.\<close>

fun run_faults :: "'k kernel \<Rightarrow> ptr \<Rightarrow> conn_op list \<Rightarrow> ('k, 'z) conn_world_scheme \<Rightarrow> bool" where
  "run_faults K p [] w \<longleftrightarrow> False"
| "run_faults K p (x # xs) w \<longleftrightarrow> step_faults K p x w \<or>
     (case conn_step K p x w of Inl e \<Rightarrow> False | Inr w1 \<Rightarrow> run_faults K p xs w1)"

fun conn_op_ok :: "conn_op \<Rightarrow> bool" where
  "conn_op_ok (SendOp data) \<longleftrightarrow> length data \<le> max_object_size"
| "conn_op_ok _ \<longleftrightarrow> True"

text \<open>
  The invariant of a live connection. Its last part is what makes a close graceful: the
  writing half is closed only after a shutdown request and with nothing left to write.
\<close>

definition conn_inv ::
  "('k \<Rightarrow> fd \<Rightarrow> fd \<Rightarrow> (32 word \<times> ptr) option) \<Rightarrow> ('k \<Rightarrow> fd \<Rightarrow> bool) \<Rightarrow> ('k, 'z) conn_world_scheme \<Rightarrow> ptr \<Rightarrow> bool" where
  "conn_inv interest shut w p \<longleftrightarrow>
     reactor_ok interest w \<and> conn_here w p \<and> conn_ok w p \<and>
     (\<exists>t. conns w p = Some t \<and> (tc_state t = kConnected \<or> tc_state t = kDisconnecting) \<and>
        (shut (w_kern w) (socket_fd (tc_socket t)) \<longrightarrow>
           tc_state t = kDisconnecting \<and> conn_pending w p = []))"

lemma send_step:
  assumes spec: "kernel_spec K interest sent" and hc: "half_close_spec K shut"
    and inv: "conn_inv interest shut w p" and data: "length data \<le> max_object_size"
    and send: "TcpConnection_send K p data w = Inr w'"
  shows "conn_inv interest shut w' p \<and> conn_connected w' p = conn_connected w p \<and>
    conn_stream sent w' p = conn_stream sent w p @
      (if conn_connected w p \<and> \<not> send_fault K p data w then data else [])"
proof -
  obtain t where t: "conns w p = Some t" "tc_state t = kConnected \<or> tc_state t = kDisconnecting"
    and sh: "shut (w_kern w) (socket_fd (tc_socket t)) \<Longrightarrow> tc_state t = kDisconnecting \<and> conn_pending w p = []"
    and rest: "reactor_ok interest w" "conn_here w p" "conn_ok w p"
    using inv by (auto simp: conn_inv_def)
  obtain e where e: "loops w (tc_loop t) = Some e" "el_threadId e = w_thread w"
    by (rule conn_hereE [OF rest(2) t(1)])
  show ?thesis
  proof (cases "tc_state t = kConnected")
    case False
    then have "w' = w" using send t by (simp add: TcpConnection_send_def conn_at_def)
    then show ?thesis using inv t False by (simp add: conn_connected_def TcpConnection_connected_def)
  next
    case True
    then have sl: "sendInLoop K p data w = Inr w'"
      using send t e by (simp add: TcpConnection_send_def conn_at_def isInLoopThread_def loop_at_def)
    have nd: "tc_state t \<noteq> kDisconnected" using True by simp
    note ok = sendInLoop_ok [OF spec rest(1,2,3) t(1) nd data sl]
    then obtain b where b: "conns w' p = Some (t\<lparr>tc_outputBuffer := b\<rparr>)" by auto
    have "shut (w_kern w') = shut (w_kern w)" by (rule sendInLoop_view [OF sl half_close_call_view [OF hc]])
    then show ?thesis
      using ok b t sh True by (auto simp: conn_inv_def conn_connected_def TcpConnection_connected_def)
  qed
qed

lemma writable_step:
  assumes spec: "kernel_spec K interest sent" and hc: "half_close_spec K shut"
    and inv: "conn_inv interest shut w p" and hw: "handleWrite K p w = Inr w'"
  shows "conn_inv interest shut w' p \<and> conn_connected w' p = conn_connected w p \<and>
    conn_stream sent w' p = conn_stream sent w p"
proof -
  obtain t where t: "conns w p = Some t" "tc_state t = kConnected \<or> tc_state t = kDisconnecting"
    and sh: "shut (w_kern w) (socket_fd (tc_socket t)) \<Longrightarrow> tc_state t = kDisconnecting \<and> conn_pending w p = []"
    and rest: "reactor_ok interest w" "conn_here w p" "conn_ok w p"
    using inv by (auto simp: conn_inv_def)
  have nd: "tc_state t \<noteq> kDisconnected" using t(2) by auto
  note ok = handleWrite_ok [OF spec hc rest t(1) nd hw]
  then obtain b where b: "conns w' p = Some (t\<lparr>tc_outputBuffer := b\<rparr>)" by auto
  have "conn_pending w' p = []" if "shut (w_kern w) (socket_fd (tc_socket t))"
  proof -
    have "conn_pending w p = []" using sh [OF that] by simp
    moreover obtain c where "chans w (tc_channel t) = Some c"
      "isWriting c \<longleftrightarrow> Buffer_contents (tc_outputBuffer t) \<noteq> []"
      using conn_okE [OF rest(3)] t nd by (metis option.inject)
    moreover obtain e where "loops w (tc_loop t) = Some e" "el_threadId e = w_thread w"
      by (rule conn_hereE [OF rest(2) t(1)])
    ultimately have "w' = LOG_ERROR ''TcpConnection fd is down, no more writing'' w"
      using hw t by (simp add: handleWrite_def conn_at_def chan_at_def conn_view_simps Let_def
          assertInLoopThread_def isInLoopThread_def loop_at_def)
    then show ?thesis using \<open>conn_pending w p = []\<close> by simp
  qed
  then show ?thesis
    using ok b t sh by (auto simp: conn_inv_def conn_connected_def TcpConnection_connected_def)
qed

lemma shutdown_step:
  assumes spec: "kernel_spec K interest sent" and hc: "half_close_spec K shut"
    and inv: "conn_inv interest shut w p" and sd: "TcpConnection_shutdown K p w = Inr w'"
  shows "conn_inv interest shut w' p \<and> \<not> conn_connected w' p \<and>
    conn_stream sent w' p = conn_stream sent w p"
proof -
  obtain t where t: "conns w p = Some t" "tc_state t = kConnected \<or> tc_state t = kDisconnecting"
    and sh: "shut (w_kern w) (socket_fd (tc_socket t)) \<Longrightarrow> tc_state t = kDisconnecting \<and> conn_pending w p = []"
    and rest: "reactor_ok interest w" "conn_here w p" "conn_ok w p"
    using inv by (auto simp: conn_inv_def)
  show ?thesis
  proof (cases "tc_state t = kConnected")
    case False
    then have "w' = w" using sd t by (simp add: TcpConnection_shutdown_def conn_at_def)
    then show ?thesis using inv t False by (simp add: conn_connected_def TcpConnection_connected_def)
  next
    case True
    obtain e where e: "loops w (tc_loop t) = Some e" "el_threadId e = w_thread w"
      by (rule conn_hereE [OF rest(2) t(1)])
    let ?w = "upd_conn p (setState kDisconnecting) w" and ?t = "setState kDisconnecting t"
    let ?f = "socket_fd (tc_socket t)"
    have conw: "conns ?w p = Some ?t" using t by simp
    have sl: "shutdownInLoop K p ?w = Inr w'"
      using sd t e True
      by (simp add: TcpConnection_shutdown_def conn_at_def runInLoop_def isInLoopThread_def loop_at_def setState_def)
    have okw: "reactor_ok interest ?w" by (rule reactor_ok_kern [OF rest(1)]) simp_all
    have herew: "conn_here ?w p" using rest(2) t unfolding conn_here_def
      by (auto simp: may_register_def setState_def)
    have cokw: "conn_ok ?w p" using rest(3) t True by (auto simp: conn_ok_def setState_def split: option.splits)
    have pend: "conn_pending ?w p = conn_pending w p" using t by (simp add: conn_pending_def setState_def)
    have str: "conn_stream sent ?w p = conn_stream sent w p"
      using t by (simp add: conn_stream_def conn_view_simps conn_sent_def pend setState_def)
    have nd: "tc_state ?t \<noteq> kDisconnected" "tc_socket ?t = tc_socket t" by (simp_all add: setState_def)
    note eq = shutdownInLoop_eq [OF cokw herew conw nd(1), of K]
    obtain r w1 where sys: "syscall (k_shutdown_wr K ?f) ?w = (r, w1)" by (cases "syscall (k_shutdown_wr K ?f) ?w")
    note w1 = shutdown_wr_frame [OF spec okw sys]
    have "w' = (if conn_pending w p = [] then w1 else ?w)" using sl eq [unfolded nd(2) pend] sys by auto
    moreover have "conn_inv interest shut ?w p"
      using okw herew cokw conw sh True by (auto simp: conn_inv_def setState_def)
    moreover have "conn_inv interest shut w1 p" if "conn_pending w p = []"
      using herew cokw conw w1 that pend by (auto simp: conn_inv_def setState_def conn_pending_def)
    moreover have "conn_stream sent w1 p = conn_stream sent ?w p"
      using w1(1,5) t by (simp add: conn_stream_def conn_sent_def conn_pending_def)
    ultimately show ?thesis
      using str conw w1(1) by (auto simp: conn_connected_def TcpConnection_connected_def setState_def)
  qed
qed

lemma conn_run_ok:
  assumes spec: "kernel_spec K interest sent" and hc: "half_close_spec K shut"
    and inv: "conn_inv interest shut w p" and ops: "list_all conn_op_ok xs"
    and run: "rfold (conn_step K p) xs w = Inr w'" and nf: "\<not> run_faults K p xs w"
  shows "conn_inv interest shut w' p \<and>
    conn_stream sent w' p = conn_stream sent w p @ (if conn_connected w p then accepted xs else [])"
  using inv ops run nf
proof (induction xs arbitrary: w)
  case (Cons x xs)
  obtain w1 where w1: "conn_step K p x w = Inr w1" and rest: "rfold (conn_step K p) xs w1 = Inr w'"
    using Cons.prems(3) by (auto simp: rbind_eq_Inr)
  have nf: "\<not> step_faults K p x w" "\<not> run_faults K p xs w1" using Cons.prems(4) w1 by simp_all
  have ops: "list_all conn_op_ok xs" "conn_op_ok x" using Cons.prems(2) by simp_all
  show ?case
  proof (cases x)
    case (SendOp d)
    then have "TcpConnection_send K p d w = Inr w1" "length d \<le> max_object_size" using w1 ops by simp_all
    from send_step [OF spec hc Cons.prems(1) this(2,1)] show ?thesis
      using Cons.IH [OF _ ops(1) rest nf(2)] nf(1) SendOp by auto
  next
    case ShutdownOp
    then have "TcpConnection_shutdown K p w = Inr w1" using w1 by simp
    from shutdown_step [OF spec hc Cons.prems(1) this] show ?thesis
      using Cons.IH [OF _ ops(1) rest nf(2)] ShutdownOp by auto
  next
    case WritableOp
    then have "handleWrite K p w = Inr w1" using w1 by simp
    from writable_step [OF spec hc Cons.prems(1) this] show ?thesis
      using Cons.IH [OF _ ops(1) rest nf(2)] WritableOp by auto
  qed
qed simp

section \<open>Every handler keeps the connection well-formed\<close>

definition conn_env ::
  "('k \<Rightarrow> fd \<Rightarrow> fd \<Rightarrow> (32 word \<times> ptr) option) \<Rightarrow> ptr \<Rightarrow> ('k, 'z) conn_world_scheme \<Rightarrow> bool" where
  "conn_env interest p w \<longleftrightarrow> reactor_ok interest w \<and> conn_here w p \<and> conn_ok w p"

lemma world_frame_fields:
  assumes "world_frame w w'"
  shows "conns w' = conns w" and "chans w' = chans w" and "pollers w' = pollers w"
    and "loops w' = loops w" and "w_thread w' = w_thread w"
  using assms by (cases w; cases w'; simp add: world_frame_def)+

lemma conn_env_kern:
  assumes "conn_env interest p w" and "world_frame w w'" and "interest (w_kern w') = interest (w_kern w)"
  shows "conn_env interest p w'"
  using assms reactor_ok_kern [of interest w w'] world_frame_fields [OF assms(2)]
    conn_ok_cong [of w' w p] conn_here_cong [of w' w p] by (auto simp: conn_env_def)

lemma conn_env_errno: "conn_env interest p (w\<lparr>w_errno := e\<rparr>) = conn_env interest p w"
  unfolding conn_env_def
  by (simp add: conn_ok_def conn_here_def may_register_def reactor_ok_def poller_ok_def cong: option.case_cong)

lemma conn_env_LOG [simp]: "conn_env interest p (LOG_ERROR m w) = conn_env interest p w"
  by (simp add: conn_env_def)

lemma conn_env_callback:
  assumes "\<And>cb. keeps (conn_env interest p) (call cb p)"
  shows "keeps (conn_env interest p) (conn_call call cb p)"
  using assms by (cases cb) (auto simp: conn_call_def keeps_def)

text \<open>A state change followed by a change of the mask, as in \<^verbatim>\<open>handleClose\<close>.\<close>

lemma conn_env_state_mask:
  assumes spec: "kernel_spec K interest sent" and env: "conn_env interest p w" and t: "conns w p = Some t"
    and upd: "Channel_update K (tc_channel t) (upd_chan (tc_channel t) (change_events g) (upd_conn p (setState st) w)) = Inr w'"
    and mask: "\<And>c c'. chan_events c' = g (chan_events c) \<Longrightarrow>
      isWriting c = (tc_state t \<noteq> kDisconnected \<and> Buffer_contents (tc_outputBuffer t) \<noteq> []) \<Longrightarrow>
      isWriting c' = (st \<noteq> kDisconnected \<and> Buffer_contents (tc_outputBuffer t) \<noteq> [])"
  shows "conn_env interest p w'" and "conns w' = (conns w)(p \<mapsto> setState st t)"
proof -
  let ?w = "upd_conn p (setState st) w" and ?t = "setState st t"
  obtain c where c: "chans w (tc_channel t) = Some c" "chan_loop c = Some (tc_loop t)"
    "chan_fd c = socket_fd (tc_socket t)" "buffer_ok (tc_inputBuffer t)" "buffer_ok (tc_outputBuffer t)"
    "isWriting c = (tc_state t \<noteq> kDisconnected \<and> Buffer_contents (tc_outputBuffer t) \<noteq> [])"
    using env t conn_okE [of w p] by (metis conn_env_def option.inject)
  obtain e where e: "loops w (tc_loop t) = Some e" "el_threadId e = w_thread w"
    "el_wakeupFd e \<noteq> socket_fd (tc_socket t)" "may_register w (tc_channel t)"
    "tc_loop t \<in> dom (pollers w)"
    by (rule conn_hereE [OF _ t]) (use env in \<open>auto simp: conn_env_def\<close>)
  have okw: "reactor_ok interest ?w" by (rule reactor_ok_kern [of _ w]) (use env in \<open>simp_all add: conn_env_def\<close>)
  have may: "may_register ?w (tc_channel t)" using e(4) by (simp add: may_register_def)
  have cw: "chans ?w (tc_channel t) = Some c" using c by simp
  have "conn_env interest p w' \<and> conns w' = (conns w)(p \<mapsto> ?t)"
  proof (rule change_maskE [OF spec okw may cw c(2) upd], goal_cases)
    case (1 c')
    have t': "conns w' p = Some ?t" using 1 t by simp
    have "conn_ok w' p" using 1 c mask [OF 1(2) c(6)] by (intro conn_okI [OF t', of c']) (simp_all add: setState_def)
    moreover have "conn_here w' p" using 1 e t' unfolding conn_here_def by (auto simp: setState_def)
    ultimately show ?thesis using 1 t by (simp add: conn_env_def)
  qed
  then show "conn_env interest p w'" and "conns w' = (conns w)(p \<mapsto> ?t)" by auto
qed

lemma conn_env_disableAll:
  assumes "kernel_spec K interest sent" and "conn_env interest p w" and "conns w p = Some t"
    and "disableAll K (tc_channel t) (upd_conn p (setState kDisconnected) w) = Inr w'"
  shows "conn_env interest p w'" and "conns w' = (conns w)(p \<mapsto> setState kDisconnected t)"
  using conn_env_state_mask [OF assms(1-3) assms(4) [unfolded disableAll_def]] isWriting_none by auto

lemma conn_env_remove:
  assumes spec: "kernel_spec K interest sent" and env: "conn_env interest p w" and t: "conns w p = Some t"
    and rem: "Channel_remove K (tc_channel t) w = Inr w'"
  shows "conn_env interest p w'"
proof -
  obtain c where c: "chans w (tc_channel t) = Some c" "chan_loop c = Some (tc_loop t)"
    "chan_fd c = socket_fd (tc_socket t)" "buffer_ok (tc_inputBuffer t)" "buffer_ok (tc_outputBuffer t)"
    "isWriting c = (tc_state t \<noteq> kDisconnected \<and> Buffer_contents (tc_outputBuffer t) \<noteq> [])"
    using env t conn_okE [of w p] by (metis conn_env_def option.inject)
  obtain e where e: "loops w (tc_loop t) = Some e" "el_threadId e = w_thread w"
    "el_wakeupFd e \<noteq> socket_fd (tc_socket t)" "may_register w (tc_channel t)"
    "tc_loop t \<in> dom (pollers w)"
    by (rule conn_hereE [OF _ t]) (use env in \<open>auto simp: conn_env_def\<close>)
  then obtain po where po: "pollers w (tc_loop t) = Some po" by auto
  have ok: "reactor_ok interest w" using env by (simp add: conn_env_def)
  have rem': "EPollPoller_removeChannel K (tc_loop t) (tc_channel t) w = Inr w'"
    using rem c by (simp add: Channel_remove_def chan_at_def EventLoop_removeChannel_def)
  note r = removeChannel_ok [OF kernel_specD(1) [OF spec] ok c(1,2) po e(4) rem']
  note frame = Channel_remove_frame(1) [OF rem]
  have t': "conns w' p = Some t" using reactor_frame_conns [OF frame] t by simp
  have c': "chans w' (tc_channel t) = Some (set_index kNew c)" using r(2) by simp
  have free: "may_register w' (tc_channel t)"
  proof -
    have "ep_channels po' (chan_fd c) = None" if there: "pollers w' (tc_loop t) = Some po'" for po'
    proof (rule ccontr)
      assume "ep_channels po' (chan_fd c) \<noteq> None"
      then obtain q d where q: "chans w' q = Some d" "chan_loop d = Some (tc_loop t)" "chan_fd d = chan_fd c" "enrolled d"
        using reactor_okD(1) [OF r(1) there] by blast
      then have "q \<noteq> tc_channel t" using c' by auto
      then have "chans w q = Some d" using q r(2) by simp
      then have "ep_channels po (chan_fd c) = Some q" using reactor_okD(1) [OF ok po] q by blast
      then show False using e(4) c po \<open>q \<noteq> tc_channel t\<close> by (auto simp: may_register_def)
    qed
    then show ?thesis using c' c(2) by (auto simp: may_register_def)
  qed
  have "conn_ok w' p" using c c' by (intro conn_okI [OF t' c']) (simp_all add: isWriting_def)
  moreover have "conn_here w' p"
    using e t' free r(3,4) reactor_frame_loops [OF frame] unfolding conn_here_def by auto
  ultimately show ?thesis using r(1) by (simp add: conn_env_def)
qed

lemma readFd_frame:
  assumes "readFd K f b w = Inr (r, b', w')"
  shows "world_frame w w'" and "\<forall>iov. leaves (k_readv K f iov) v \<Longrightarrow> v (w_kern w') = v (w_kern w)"
proof -
  obtain x w1 where sys: "syscall (k_readv K f (readFd_iov b)) w = (x, w1)"
    by (cases "syscall (k_readv K f (readFd_iov b)) w")
  then have "w' = w1" using assms by (cases x) (auto simp: readFd_def rbind_eq_Inr)
  then show "world_frame w w'" and "\<forall>iov. leaves (k_readv K f iov) v \<Longrightarrow> v (w_kern w') = v (w_kern w)"
    using syscall_frame [OF sys] syscall_leaves [OF _ sys] by auto
qed

lemma readFd_buffer:
  assumes "readFd K f b w = Inr (r, b', w')" and "readv_spec K" and "buffer_ok b"
  shows "buffer_ok b'"
proof -
  obtain x w1 where sys: "syscall (k_readv K f (readFd_iov b)) w = (x, w1)"
    by (cases "syscall (k_readv K f (readFd_iov b)) w")
  show ?thesis
  proof (cases x)
    case (Inl e)
    then show ?thesis using assms sys by (simp add: readFd_def)
  next
    case (Inr bs)
    then have "readFd_store bs b = Inr b'" using assms sys by (auto simp: readFd_def rbind_eq_Inr)
    moreover have "length bs \<le> sum_list (readFd_iov b)"
      using sys Inr assms(2) unfolding readv_spec_def syscall_eq by blast
    ultimately show ?thesis by (elim readFd_store_ok [OF assms(3)]) simp_all
  qed
qed

lemma conn_env_input:
  assumes "conn_env interest p w" and "buffer_ok b"
  shows "conn_env interest p (upd_conn p (\<lambda>t. t\<lparr>tc_inputBuffer := b\<rparr>) w)"
proof -
  have "reactor_ok interest (upd_conn p (\<lambda>t. t\<lparr>tc_inputBuffer := b\<rparr>) w)"
    by (rule reactor_ok_kern [of _ w]) (use assms in \<open>simp_all add: conn_env_def\<close>)
  then show ?thesis
    using assms by (auto simp: conn_env_def conn_ok_def conn_here_def may_register_def split: option.splits)
qed

lemma handleClose_keeps:
  assumes spec: "kernel_spec K interest sent" and call: "\<And>cb. keeps (conn_env interest p) (call cb p)"
  shows "keeps (conn_env interest p) (handleClose K call p)"
proof (rule keepsI)
  fix w w'
  assume env: "conn_env interest p w" and hc: "handleClose K call p w = Inr w'"
  obtain t where t: "conns w p = Some t" using hc by (auto simp: handleClose_def conn_at_def rbind_eq_Inr)
  then have "rbind (disableAll K (tc_channel t) (upd_conn p (setState kDisconnected) w)) (\<lambda>w1.
     rbind (conn_call call (tc_connectionCallback t) p w1) (\<lambda>w2.
     rbind (conn_at p w2) (\<lambda>t2. conn_call call (tc_closeCallback t2) p w2))) = Inr w'"
    using hc by (simp add: handleClose_def conn_at_def rbind_eq_Inr [of "assertInLoopThread _ _"])
  then show "conn_env interest p w'"
  proof (elim rbind_InrE)
    fix w1 w2 t2
    assume w1: "disableAll K (tc_channel t) (upd_conn p (setState kDisconnected) w) = Inr w1"
      and w2: "conn_call call (tc_connectionCallback t) p w1 = Inr w2"
      and w3: "conn_call call (tc_closeCallback t2) p w2 = Inr w'"
    note cb = keepsD [OF conn_env_callback [of interest p call, OF call]]
    show ?thesis by (rule cb [OF cb [OF conn_env_disableAll(1) [OF spec env t w1] w2] w3])
  qed
qed

lemma handleRead_keeps:
  assumes spec: "kernel_spec K interest sent" and call: "\<And>cb. keeps (conn_env interest p) (call cb p)"
  shows "keeps (conn_env interest p) (TcpConnection_handleRead K call p)"
proof (rule keepsI)
  fix w w'
  assume env: "conn_env interest p w" and hr: "TcpConnection_handleRead K call p w = Inr w'"
  obtain t where t: "conns w p = Some t" using hr by (auto simp: TcpConnection_handleRead_def conn_at_def rbind_eq_Inr)
  obtain c :: channel and x where rdx: "readFd K (chan_fd c) (tc_inputBuffer t) w = Inr x"
    and restx: "(case x of (n, b, w1) \<Rightarrow>
       let w2 = upd_conn p (\<lambda>t. t\<lparr>tc_inputBuffer := b\<rparr>) w1
       in case n of
            Inr m \<Rightarrow> if m > 0 then conn_call call (tc_messageCallback t) p w2
                     else handleClose K call p w2
          | Inl savedErrno \<Rightarrow> handleError K p (w2\<lparr>w_errno := savedErrno\<rparr>)) = Inr w'"
    using hr [unfolded TcpConnection_handleRead_def conn_at_def t deref_Some rbind_Inr]
    by (elim rbind_InrE) (rule that)
  obtain n b w1 where x: "x = (n, b, w1)" by (cases x)
  note rd = rdx [unfolded x] and rest = restx [unfolded x Let_def, simplified]
  let ?w = "upd_conn p (\<lambda>t. t\<lparr>tc_inputBuffer := b\<rparr>) w1"
  have "buffer_ok (tc_inputBuffer t)" using env t by (auto simp: conn_env_def conn_ok_def split: option.splits)
  then have "buffer_ok b" by (rule readFd_buffer [OF rd kernel_specD(3) [OF spec]])
  moreover have "conn_env interest p w1"
    using conn_env_kern [OF env readFd_frame(1) [OF rd]] readFd_frame(2) [OF rd, of interest]
      reads_leaveD(2) [OF kernel_specD(5) [OF spec]] by blast
  ultimately have env': "conn_env interest p ?w" by (intro conn_env_input)
  show "conn_env interest p w'"
  proof (cases n)
    case (Inl e)
    then have "\<exists>m. w' = LOG_ERROR m (?w\<lparr>w_errno := e\<rparr>)"
      using rest by (auto simp: handleError_def conn_at_def rbind_eq_Inr)
    then show ?thesis using env' by (auto simp: conn_env_errno)
  next
    case (Inr m)
    then show ?thesis
      using rest keepsD [OF conn_env_callback [of interest p call, OF call] env'] keepsD [OF handleClose_keeps [where call = call and p = p, OF spec call] env']
      by (auto split: if_splits)
  qed
qed

lemma connectDestroyed_keeps:
  assumes spec: "kernel_spec K interest sent" and call: "\<And>cb. keeps (conn_env interest p) (call cb p)"
    and same: "\<And>cb w w' t. call cb p w = Inr w' \<Longrightarrow> conns w p = Some t \<Longrightarrow> \<exists>t'. conns w' p = Some t' \<and> tc_channel t' = tc_channel t"
  shows "keeps (conn_env interest p) (connectDestroyed K call p)"
proof (rule keepsI)
  fix w w'
  assume env: "conn_env interest p w" and cd: "connectDestroyed K call p w = Inr w'"
  obtain t where t: "conns w p = Some t" using cd by (auto simp: connectDestroyed_def conn_at_def rbind_eq_Inr)
  obtain w2 where w2: "(if tc_state t = kConnected
      then rbind (disableAll K (tc_channel t) (upd_conn p (setState kDisconnected) w)) (\<lambda>w1.
             conn_call call (tc_connectionCallback t) p w1)
      else Inr w) = Inr w2" and rem: "Channel_remove K (tc_channel t) w2 = Inr w'"
    using cd t by (auto simp: connectDestroyed_def conn_at_def rbind_eq_Inr [of "assertInLoopThread _ _"]
        elim!: rbind_InrE)
  have "conn_env interest p w2 \<and> (\<exists>t2. conns w2 p = Some t2 \<and> tc_channel t2 = tc_channel t)"
  proof (cases "tc_state t = kConnected")
    case True
    then obtain w1 where w1: "disableAll K (tc_channel t) (upd_conn p (setState kDisconnected) w) = Inr w1"
      and cb: "conn_call call (tc_connectionCallback t) p w1 = Inr w2"
      using w2 by (auto elim: rbind_InrE)
    note d = conn_env_disableAll [OF spec env t w1]
    have "\<exists>t2. conns w2 p = Some t2 \<and> tc_channel t2 = tc_channel t"
      using cb d(2) same [of _ w1 w2 "setState kDisconnected t"]
      by (cases "tc_connectionCallback t") (auto simp: conn_call_def setState_def)
    then show ?thesis using keepsD [OF conn_env_callback [of interest p call, OF call] d(1) cb] by simp
  qed (use w2 env t in auto)
  then show "conn_env interest p w'" using conn_env_remove [OF spec] rem by metis
qed

lemma connectEstablished_ok:
  assumes spec: "kernel_spec K interest sent" and call: "\<And>cb. keeps (conn_env interest p) (call cb p)"
    and env: "conn_env interest p w" and t: "conns w p = Some t" "tc_state t \<noteq> kDisconnected"
    and ce: "connectEstablished K call p w = Inr w'"
  shows "conn_env interest p w'"
proof -
  obtain w1 where w1: "enableReading K (tc_channel t) (upd_conn p (setState kConnected) w) = Inr w1"
    and cb: "conn_call call (tc_connectionCallback t) p w1 = Inr w'"
    using ce t by (auto simp: connectEstablished_def conn_at_def rbind_eq_Inr [of "assertInLoopThread _ _"]
        elim!: rbind_InrE)
  have "conn_env interest p w1"
    by (rule conn_env_state_mask(1) [OF spec env t(1) w1 [unfolded enableReading_def]])
      (use t(2) isWriting_read in auto)
  then show ?thesis using keepsD [OF conn_env_callback [of interest p call, OF call]] cb by blast
qed

lemma handleWrite_keeps:
  assumes spec: "kernel_spec K interest sent" and hc: "half_close_spec K shut"
  shows "keeps (conn_env interest p) (handleWrite K p)"
proof (rule keepsI)
  fix w w'
  assume env: "conn_env interest p w" and hw: "handleWrite K p w = Inr w'"
  obtain t c where t: "conns w p = Some t" "chans w (tc_channel t) = Some c"
    "isWriting c \<longleftrightarrow> tc_state t \<noteq> kDisconnected \<and> Buffer_contents (tc_outputBuffer t) \<noteq> []"
    using env unfolding conn_env_def by (metis conn_okE)
  show "conn_env interest p w'"
  proof (cases "tc_state t = kDisconnected")
    case True
    then have "w' = LOG_ERROR ''TcpConnection fd is down, no more writing'' w"
      using hw t by (simp add: handleWrite_def conn_at_def chan_at_def Let_def
          rbind_eq_Inr [of "assertInLoopThread _ _"])
    then show ?thesis using env by simp
  next
    case False
    then show ?thesis
      using handleWrite_ok [OF spec hc _ _ _ t(1) False hw] env by (auto simp: conn_env_def)
  qed
qed

lemma sendInLoop_keeps:
  assumes spec: "kernel_spec K interest sent" and data: "length data \<le> max_object_size"
  shows "keeps (conn_env interest p) (sendInLoop K p data)"
proof (rule keepsI)
  fix w w'
  assume env: "conn_env interest p w" and send: "sendInLoop K p data w = Inr w'"
  obtain t where t: "conns w p = Some t"
    using env unfolding conn_env_def by (metis conn_okE)
  show "conn_env interest p w'"
  proof (cases "tc_state t = kDisconnected")
    case True
    then have "w' = w"
      using send t by (simp add: sendInLoop_def conn_at_def rbind_eq_Inr [of "assertInLoopThread _ _"])
    then show ?thesis using env by simp
  next
    case False
    then show ?thesis
      using sendInLoop_ok [OF spec _ _ _ t False data send] env by (auto simp: conn_env_def)
  qed
qed

lemma shutdownInLoop_keeps:
  assumes spec: "kernel_spec K interest sent"
  shows "keeps (conn_env interest p) (shutdownInLoop K p)"
proof (rule keepsI)
  fix w w'
  assume env: "conn_env interest p w" and sd: "shutdownInLoop K p w = Inr w'"
  obtain t c where t: "conns w p = Some t" "chans w (tc_channel t) = Some c"
    using env unfolding conn_env_def by (metis conn_okE)
  obtain r w1 where sys: "syscall (k_shutdown_wr K (socket_fd (tc_socket t))) w = (r, w1)"
    by (cases "syscall (k_shutdown_wr K (socket_fd (tc_socket t))) w")
  then have "w' = w \<or> w' = w1"
    using sd t by (auto simp: shutdownInLoop_def conn_at_def chan_at_def
        rbind_eq_Inr [of "assertInLoopThread _ _"] split: if_splits)
  moreover have "conn_env interest p w1"
    using conn_env_kern [OF env syscall_frame [OF sys]] syscall_leaves [OF _ sys, of interest]
      reads_leaveD(4) [OF kernel_specD(5) [OF spec]] by blast
  ultimately show "conn_env interest p w'" using env by auto
qed

section \<open>A sample connection\<close>

text \<open>A connected connection with small buffers on a one-loop world, for concrete runs.\<close>

definition sample_buffer :: buffer where
  "sample_buffer = \<lparr>buf_data = replicate 16 (CHR 0x00), readerIndex = 8, writerIndex = 8\<rparr>"

definition sample_conn :: tcp_connection where
  "sample_conn =
     \<lparr>tc_loop = 1, tc_name = ''srv-1'', tc_state = kConnected, tc_socket = Socket 7, tc_channel = 11,
      tc_localAddr = InetAddress_port 80 True, tc_peerAddr = InetAddress_port 81 True,
      tc_inputBuffer = sample_buffer, tc_outputBuffer = sample_buffer,
      tc_connectionCallback = None, tc_messageCallback = None, tc_closeCallback = None,
      tc_writeCompleteCallback = Some (cc_user 1)\<rparr>"

definition sample_world :: "sim conn_world" where
  "sample_world =
     \<lparr>w_kern = sim_init\<lparr>si_interest := (\<lambda>_ _. None)(3 := [7 \<mapsto> (kReadEvent, 11)])\<rparr>, w_errno = 0,
      w_log = [], w_thread = 1,
      chans = [11 \<mapsto> (TcpConnection_channel 10 1 7)\<lparr>chan_events := kReadEvent, chan_index := kAdded\<rparr>],
      pollers = [1 \<mapsto> \<lparr>ep_channels = [7 \<mapsto> 11], ep_fd = 3, ep_events_size = 16\<rparr>],
      loops = [1 \<mapsto> \<lparr>el_looping = True, el_quit = False, el_callingPendingFunctors = False,
        el_threadId = 1, el_wakeupFd = 5, el_wakeupChannel = 12, el_activeChannels = [],
        el_pendingFunctors = []\<rparr>],
      timer_heap = Map.empty, numCreated = 0, tqueues = Map.empty, conns = [10 \<mapsto> sample_conn]\<rparr>"

lemma sample_reactor_ok: "reactor_ok si_interest sample_world"
  by (auto simp: reactor_ok_def poller_ok_def sample_world_def expected_interest_def enrolled_def
      sim_init_def TcpConnection_channel_def Channel_new_def setErrorCallback_def setCloseCallback_def
      setWriteCallback_def setReadCallback_def fun_eq_iff split: if_splits)

lemma sample_conn_inv: "conn_inv si_interest si_closed sample_world 10"
proof -
  have "conn_here sample_world 10"
    by (simp add: conn_here_def may_register_def sample_world_def sample_conn_def TcpConnection_channel_def
        Channel_new_def setErrorCallback_def setCloseCallback_def setWriteCallback_def setReadCallback_def)
  moreover have "conn_ok sample_world 10"
    by (simp add: conn_ok_def sample_world_def sample_conn_def TcpConnection_channel_def Channel_new_def
        setErrorCallback_def setCloseCallback_def setWriteCallback_def setReadCallback_def buffer_ok_def
        sample_buffer_def max_object_size_def Buffer_contents_def isWriting_def kReadEvent_def
        kWriteEvent_def epoll_bits)
  moreover have "conns sample_world 10 = Some sample_conn" "tc_state sample_conn = kConnected"
    "\<not> si_closed (w_kern sample_world) (socket_fd (tc_socket sample_conn))"
    by (simp_all add: sample_world_def sample_conn_def sim_init_def)
  ultimately show ?thesis using sample_reactor_ok by (auto simp: conn_inv_def)
qed

section \<open>Properties\<close>

text \<open>
  C1: A connection delivers a byte stream. Whatever the user sends and however often the
  socket takes only part of it, the bytes the kernel accepted followed by the bytes in the
  output buffer are exactly the bytes sent before the first shutdown, in order; and once the
  writing half is closed, all of them have been handed to the kernel. (Sends that find the
  peer gone are excluded by \<open>run_faults\<close>.)
\<close>

theorem connection_delivers_stream:
  assumes "kernel_spec K interest sent" and "half_close_spec K shut"
    and "conn_inv interest shut w p" and "conn_connected w p" and "list_all conn_op_ok xs"
    and "rfold (conn_step K p) xs w = Inr w'" and "\<not> run_faults K p xs w"
  shows "conn_sent sent w' p @ conn_pending w' p = conn_stream sent w p @ accepted xs \<and>
    (\<forall>t. conns w' p = Some t \<longrightarrow> shut (w_kern w') (socket_fd (tc_socket t)) \<longrightarrow>
       conn_sent sent w' p = conn_stream sent w p @ accepted xs)"
proof -
  have run: "conn_inv interest shut w' p" "conn_stream sent w' p = conn_stream sent w p @ accepted xs"
    using conn_run_ok [OF assms(1-3,5-7)] assms(4) by simp_all
  then have "conn_pending w' p = []" if "conns w' p = Some t" "shut (w_kern w') (socket_fd (tc_socket t))" for t
    using that by (auto simp: conn_inv_def)
  then show ?thesis using run(2) by (auto simp: conn_stream_def)
qed

theorem connection_delivers_stream_witness:
  "\<exists>w'. rfold (conn_step sim_kernel 10) [SendOp ''hello '', SendOp ''world'', ShutdownOp, SendOp ''late'',
        WritableOp, WritableOp] sample_world = Inr w' \<and>
     conn_sent si_sent w' 10 @ conn_pending w' 10 = ''hello world''"
proof -
  let ?xs = "[SendOp ''hello '', SendOp ''world'', ShutdownOp, SendOp ''late'', WritableOp, WritableOp]"
  have "\<not> isl (rfold (conn_step sim_kernel 10) ?xs sample_world)" by code_simp
  then obtain w' where run: "rfold (conn_step sim_kernel 10) ?xs sample_world = Inr w'"
    by (cases "rfold (conn_step sim_kernel 10) ?xs sample_world") auto
  have conn: "conn_connected sample_world 10" by code_simp
  have nf: "\<not> run_faults sim_kernel 10 ?xs sample_world" by code_simp
  have ops: "list_all conn_op_ok ?xs" by (simp add: max_object_size_def)
  have start: "conn_stream si_sent sample_world 10 = []" by code_simp
  show ?thesis
    using connection_delivers_stream [OF sim_kernel_spec sim_half_close_spec sample_conn_inv conn ops run nf]
      run start by auto
qed

text \<open>
  C28: One \<^verbatim>\<open>sendInLoop\<close> on a live connection appends exactly its data to the stream and keeps
  the connection well-formed; the data is dropped only when a direct write reports that the
  peer is gone (\<^verbatim>\<open>EPIPE\<close> or \<^verbatim>\<open>ECONNRESET\<close>), never after a partial write, a full socket
  buffer or while earlier data waits.
\<close>

theorem sendInLoop_appends_to_stream:
  assumes "kernel_spec K interest sent" and "conn_env interest p w" and "conns w p = Some t"
    and "tc_state t \<noteq> kDisconnected" and "length data \<le> max_object_size"
    and "sendInLoop K p data w = Inr w'"
  shows "conn_env interest p w' \<and>
    conn_stream sent w' p = conn_stream sent w p @ (if send_fault K p data w then [] else data)"
  using sendInLoop_ok [OF assms(1) _ _ _ assms(3-6)] assms(2) by (auto simp: conn_env_def)

theorem sendInLoop_appends_to_stream_witness:
  "\<exists>w'. sendInLoop sim_kernel 10 ''hello!'' sample_world = Inr w' \<and>
     conn_stream si_sent w' 10 = ''hello!'' \<and> conn_pending w' 10 = ''o!''"
proof -
  have "(case sendInLoop sim_kernel 10 ''hello!'' sample_world of Inl e \<Rightarrow> False
         | Inr w' \<Rightarrow> conn_pending w' 10 = ''o!'')" by code_simp
  then obtain w' where run: "sendInLoop sim_kernel 10 ''hello!'' sample_world = Inr w'"
    and pend: "conn_pending w' 10 = ''o!''" by (auto split: sum.splits)
  have env: "conn_env si_interest 10 sample_world" using sample_conn_inv by (simp add: conn_inv_def conn_env_def)
  have t: "conns sample_world 10 = Some sample_conn" "tc_state sample_conn \<noteq> kDisconnected"
    by (simp_all add: sample_world_def sample_conn_def)
  have len: "length ''hello!'' \<le> max_object_size" by (simp add: max_object_size_def)
  have nf: "\<not> send_fault sim_kernel 10 ''hello!'' sample_world" by code_simp
  have start: "conn_stream si_sent sample_world 10 = []" by code_simp
  show ?thesis
    using sendInLoop_appends_to_stream [OF sim_kernel_spec env t len run] run pend nf start by auto
qed



end
