(* ===== verification/Acceptor.thy ===== *)
theory Acceptor
  imports TcpConnection
begin

text \<open>
  \<^verbatim>\<open>src/net/Acceptor.cc\<close>: the listening socket of a server and its channel. Acceptors are heap
  objects (\<open>acceptors\<close>) the read callback of their channel points to; \<open>ch\<close> is the address of the
  member \<^verbatim>\<open>acceptChannel_\<close>. What the stored new-connection callback does is the argument
  \<open>newconn\<close>.
\<close>

datatype newconn_callback = nc_newConnection ptr | nc_user nat

record acceptor =
  ac_loop :: ptr
  ac_socket :: socket
  ac_channel :: ptr
  ac_newConnectionCallback :: "newconn_callback option"
  ac_listening :: bool

record 'k acceptor_world = "'k conn_world" +
  acceptors :: "ptr \<Rightarrow> acceptor option"

definition acceptor_at :: "ptr \<Rightarrow> ('k, 'z) acceptor_world_scheme \<Rightarrow> acceptor res" where
  "acceptor_at a w = deref ''dangling Acceptor*'' (acceptors w a)"

definition upd_acceptor ::
  "ptr \<Rightarrow> (acceptor \<Rightarrow> acceptor) \<Rightarrow> ('k, 'z) acceptor_world_scheme \<Rightarrow> ('k, 'z) acceptor_world_scheme" where
  "upd_acceptor a f w = w\<lparr>acceptors := (acceptors w)(a := map_option f (acceptors w a))\<rparr>"

definition Acceptor_new ::
  "'k kernel \<Rightarrow> ptr \<Rightarrow> ptr \<Rightarrow> ptr \<Rightarrow> sockaddr_in \<Rightarrow> bool \<Rightarrow> ('k, 'z) acceptor_world_scheme \<Rightarrow>
     ('k, 'z) acceptor_world_scheme res" where
  "Acceptor_new K a ch loop listenAddr reuseport w =
     rbind (createNonblockingOrDie K w) (\<lambda>(sockfd, w1).
       let s = Socket sockfd;
           w2 = setReusePort K s reuseport (setReuseAddr K s True
                  (w1\<lparr>chans := (chans w1)(ch \<mapsto> Channel_new (Some loop) sockfd)\<rparr>))
       in rbind (bindAddress K s listenAddr w2) (\<lambda>w3.
            Inr ((upd_chan ch (setReadCallback (cb_Acceptor_handleRead a)) w3)
                 \<lparr>acceptors := (acceptors w3)(a \<mapsto> \<lparr>ac_loop = loop, ac_socket = s, ac_channel = ch,
                    ac_newConnectionCallback = None, ac_listening = False\<rparr>)\<rparr>)))"

text \<open>The destructor's body, then the members in reverse order: the channel, the socket.\<close>

definition Acceptor_destroy ::
  "'k kernel \<Rightarrow> ptr \<Rightarrow> ('k, 'z) acceptor_world_scheme \<Rightarrow> ('k, 'z) acceptor_world_scheme res" where
  "Acceptor_destroy K a w =
     rbind (acceptor_at a w) (\<lambda>ac.
     rbind (disableAll K (ac_channel ac) w) (\<lambda>w1.
     rbind (Channel_remove K (ac_channel ac) w1) (\<lambda>w2.
       Inr (Socket_destroy K (ac_socket ac)
         (w2\<lparr>chans := (chans w2)(ac_channel ac := None), acceptors := (acceptors w2)(a := None)\<rparr>)))))"

definition setNewConnectionCallback :: "newconn_callback \<Rightarrow> acceptor \<Rightarrow> acceptor" where
  "setNewConnectionCallback cb ac = ac\<lparr>ac_newConnectionCallback := Some cb\<rparr>"

definition Acceptor_listen ::
  "'k kernel \<Rightarrow> ptr \<Rightarrow> ('k, 'z) acceptor_world_scheme \<Rightarrow> ('k, 'z) acceptor_world_scheme res" where
  "Acceptor_listen K a w =
     rbind (acceptor_at a w) (\<lambda>ac.
     rbind (Socket_listen K (ac_socket ac) (upd_acceptor a (\<lambda>ac. ac\<lparr>ac_listening := True\<rparr>) w)) (\<lambda>w1.
       enableReading K (ac_channel ac) w1))"

definition Acceptor_handleRead ::
  "'k kernel \<Rightarrow> (newconn_callback \<Rightarrow> fd \<Rightarrow> sockaddr_in \<Rightarrow> ('k, 'z) acceptor_world_scheme \<Rightarrow> ('k, 'z) acceptor_world_scheme res) \<Rightarrow>
   ptr \<Rightarrow> ('k, 'z) acceptor_world_scheme \<Rightarrow> ('k, 'z) acceptor_world_scheme res" where
  "Acceptor_handleRead K newconn a w =
     rbind (acceptor_at a w) (\<lambda>ac.
       (case Socket_accept K (ac_socket ac) w of
          (Some (connfd, peerAddr), w1) \<Rightarrow>
            (case ac_newConnectionCallback ac of
               Some cb \<Rightarrow> newconn cb connfd peerAddr w1
             | None \<Rightarrow> Inr (sockets_close K connfd w1))
        | (None, w1) \<Rightarrow>
            Inr (LOG_ERROR (''Acceptor::handleRead accept failed: '' @ k_strerror K (w_errno w1)) w1)))"

section \<open>Lemmas\<close>

lemma upd_acceptor_simps [simp]:
  "acceptors (upd_acceptor a f w) = (acceptors w)(a := map_option f (acceptors w a))"
  "conns (upd_acceptor a f w) = conns w" "chans (upd_acceptor a f w) = chans w"
  "pollers (upd_acceptor a f w) = pollers w" "loops (upd_acceptor a f w) = loops w"
  "w_kern (upd_acceptor a f w) = w_kern w" "w_thread (upd_acceptor a f w) = w_thread w"
  by (simp_all add: upd_acceptor_def)

lemma reactor_frame_acceptors: "reactor_frame w w' \<Longrightarrow> acceptors w' = acceptors w \<and> conns w' = conns w"
  by (cases w; cases w') (simp add: reactor_frame_def)

lemma world_frame_acceptors:
  assumes "world_frame w w'"
  shows "acceptors w' = acceptors w" "conns w' = conns w" "loops w' = loops w" "chans w' = chans w"
    "pollers w' = pollers w" "w_thread w' = w_thread w"
  using assms by (cases w; cases w'; simp add: world_frame_def)+

text \<open>An acceptor is well-formed when the channel at its address is its own.\<close>

definition acceptor_ok :: "('k, 'z) acceptor_world_scheme \<Rightarrow> ptr \<Rightarrow> bool" where
  "acceptor_ok w a \<longleftrightarrow>
     (\<exists>ac c. acceptors w a = Some ac \<and> chans w (ac_channel ac) = Some c \<and> chan_loop c = Some (ac_loop ac) \<and>
        chan_fd c = socket_fd (ac_socket ac) \<and> readCallback c = Some (cb_Acceptor_handleRead a))"

lemma acceptor_okE:
  assumes "acceptor_ok w a"
  obtains ac and c :: channel where "acceptors w a = Some ac" and "chans w (ac_channel ac) = Some c"
    and "chan_loop c = Some (ac_loop ac)" and "chan_fd c = socket_fd (ac_socket ac)"
    and "readCallback c = Some (cb_Acceptor_handleRead a)"
  using assms by (auto simp: acceptor_ok_def)

section \<open>Properties\<close>

text \<open>A listening acceptor at 20 whose socket is fd 7 in the loop at 1.\<close>

definition sample_acceptor_world :: "newconn_callback option \<Rightarrow> sim acceptor_world" where
  "sample_acceptor_world cb =
     \<lparr>w_kern = sim_init\<lparr>si_interest := (\<lambda>_ _. None)(3 := [7 \<mapsto> (kReadEvent, 21)]), si_next_fd := 9\<rparr>, w_errno = 0,
      w_log = [], w_thread = 1,
      chans = [21 \<mapsto> (setReadCallback (cb_Acceptor_handleRead 20) (Channel_new (Some 1) 7))\<lparr>chan_events := kReadEvent, chan_index := kAdded\<rparr>],
      pollers = [1 \<mapsto> \<lparr>ep_channels = [7 \<mapsto> 21], ep_fd = 3, ep_events_size = 16\<rparr>],
      loops = Map.empty, timer_heap = Map.empty, numCreated = 0, tqueues = Map.empty, conns = Map.empty,
      acceptors = [20 \<mapsto> \<lparr>ac_loop = 1, ac_socket = Socket 7, ac_channel = 21, ac_newConnectionCallback = cb,
        ac_listening = True\<rparr>]\<rparr>"

lemma sample_acceptor_ok:
  "reactor_ok si_interest (sample_acceptor_world cb)" "acceptor_ok (sample_acceptor_world cb) 20"
  "fd_private (sample_acceptor_world cb) 21" "pollers (sample_acceptor_world cb) 1 \<noteq> None"
  by (auto simp: reactor_ok_def poller_ok_def sample_acceptor_world_def expected_interest_def enrolled_def
      sim_init_def Channel_new_def setReadCallback_def acceptor_ok_def fd_private_def fun_eq_iff split: if_splits)

text \<open>
  C36: Destroying an acceptor always succeeds and leaves nothing behind: its channel is neither in the
  heap nor in a poller, no interest list holds its fd, and the reactor invariant still holds for all
  other channels. This covers an acceptor that never listened, whose channel the destructor first
  registers with an empty mask.
\<close>

theorem acceptor_destroyed_cleanly:
  assumes "epoll_spec K interest" and "epoll_total K interest" and "close_spec K interest"
    and "reactor_ok interest w" and "acceptor_ok w a" and "acceptors w a = Some ac"
    and "fd_private w (ac_channel ac)" and "pollers w (ac_loop ac) \<noteq> None"
  shows "\<exists>w'. Acceptor_destroy K a w = Inr w' \<and> reactor_ok interest w' \<and>
    acceptors w' = (acceptors w)(a := None) \<and> chans w' = (chans w)(ac_channel ac := None) \<and>
    (\<forall>ep. interest (w_kern w') ep (socket_fd (ac_socket ac)) = None)"
proof -
  obtain c :: channel where c: "chans w (ac_channel ac) = Some c" "chan_loop c = Some (ac_loop ac)"
    "chan_fd c = socket_fd (ac_socket ac)"
    using assms(5,6) by (auto elim: acceptor_okE)
  obtain po where po: "pollers w (ac_loop ac) = Some po" using assms(8) by auto
  show ?thesis
  proof (rule retire_channel [OF assms(1,2,4,7) c(1,2) po], goal_cases)
    case (1 w1 w2 c2)
    let ?w3 = "w2\<lparr>chans := (chans w2)(ac_channel ac := None)\<rparr>"
    let ?w4 = "?w3\<lparr>acceptors := (acceptors w2)(a := None)\<rparr>"
    let ?w' = "Socket_destroy K (ac_socket ac) ?w4"
    have ok3: "reactor_ok interest ?w3" by (rule reactor_ok_forget [OF 1(3)]) (use 1(4,6) in simp)
    have frame: "world_frame ?w4 ?w'" by (simp add: Socket_destroy_def sockets_close_frame)
    note f = world_frame_acceptors [OF frame]
    have kern: "interest (w_kern ?w') = (\<lambda>ep. (interest (w_kern ?w3) ep)(socket_fd (ac_socket ac) := None))"
      using assms(3) by (simp add: Socket_destroy_def sockets_close_kern close_spec_def)
    have same: "chans ?w' = chans ?w3" "pollers ?w' = pollers ?w3" using f(4,5) by simp_all
    have ok: "reactor_ok interest ?w'"
    proof (rule reactor_ok_closed [OF ok3 _ same kern])
      show "\<not> enrolled d" if "chans ?w3 q = Some d" "chan_fd d = socket_fd (ac_socket ac)" for q d
        using that fd_privateD [OF assms(7) c(1), of q d] 1(4) c(3) by (auto split: if_splits)
    qed
    have "Acceptor_destroy K a w = Inr ?w'"
      using 1(1,2) assms(6) by (simp add: Acceptor_destroy_def acceptor_at_def)
    then show ?thesis
      using ok f kern 1(4) reactor_frame_acceptors [OF 1(8)] by (intro exI [of _ ?w']) simp
  qed
qed

theorem acceptor_destroyed_cleanly_witness:
  "\<exists>w'. Acceptor_destroy sim_kernel 20 (sample_acceptor_world None) = Inr w' \<and> reactor_ok si_interest w' \<and>
     acceptors w' 20 = None"
  using acceptor_destroyed_cleanly [OF sim_epoll_spec sim_epoll_total sim_close_spec sample_acceptor_ok(1,2)]
    sample_acceptor_ok(3,4) [of None] by (fastforce simp: sample_acceptor_world_def)

text \<open>
  C35: \<^verbatim>\<open>listen()\<close> makes the kernel report incoming connections: the acceptor is marked listening, and the
  kernel watches its fd for reading, with the acceptor's channel as the registered pointer.
\<close>

theorem listen_watches_socket:
  assumes "epoll_spec K interest" and "socket_calls_leave K interest"
    and "reactor_ok interest w" and "acceptor_ok w a" and "acceptors w a = Some ac"
    and "fd_private w (ac_channel ac)" and "chans w (ac_channel ac) = Some c"
    and "Acceptor_listen K a w = Inr w'"
  shows "reactor_ok interest w' \<and> acceptor_ok w' a \<and> map_option ac_listening (acceptors w' a) = Some True \<and>
    watched_mask interest w' (ac_channel ac) = Some (chan_events c OR kReadEvent)"
proof -
  let ?w0 = "upd_acceptor a (\<lambda>ac. ac\<lparr>ac_listening := True\<rparr>) w"
  have c: "chan_loop c = Some (ac_loop ac)" "chan_fd c = socket_fd (ac_socket ac)" "readCallback c = Some (cb_Acceptor_handleRead a)"
    using assms(4,5,7) by (auto elim!: acceptor_okE)
  obtain w1 where l: "Socket_listen K (ac_socket ac) ?w0 = Inr w1" and en: "enableReading K (ac_channel ac) w1 = Inr w'"
    using assms(5,8) by (auto simp: Acceptor_listen_def acceptor_at_def rbind_eq_Inr)
  obtain r where sys: "syscall (k_listen K (socket_fd (ac_socket ac)) SOMAXCONN) ?w0 = (r, w1)"
    using l by (auto simp: Socket_listen_def listenOrDie_def split: prod.splits sum.splits)
  note f = world_frame_acceptors [OF syscall_frame [OF sys]]
  have kern: "interest (w_kern w1) = interest (w_kern w)"
    using syscall_leaves [OF socket_calls_leaveD(3) [OF assms(2)] sys] by simp
  have ok1: "reactor_ok interest w1"
    by (rule reactor_ok_kern [OF assms(3)]) (simp_all add: f kern)
  have may: "may_register w1 (ac_channel ac)"
    by (rule may_register_private [OF ok1]) (use assms(6) fd_private_cong [of w1 w] f in simp)
  have c1: "chans w1 (ac_channel ac) = Some c" using f assms(7) by simp
  note upd = en [unfolded enableReading_def]
  obtain po where po: "pollers w1 (ac_loop ac) = Some po"
    using upd c c1 assms(1) ok1 may
    by (auto simp: Channel_update_def chan_at_def EventLoop_updateChannel_def elim: updateChannel_ok)
  show ?thesis
  proof (rule Channel_update_bound [OF assms(1) ok1 may c1 c(1) upd], goal_cases)
    case (1 c')
    have "chans w' (ac_channel ac) = Some c'" using 1 by simp
    moreover obtain po' where "pollers w' (ac_loop ac) = Some po'" using 1 po by blast
    moreover have "chan_events c OR kReadEvent \<noteq> 0" by (simp add: kReadEvent_def epoll_bits or_eq_0_iff)
    moreover have "acceptors w' a = Some (ac\<lparr>ac_listening := True\<rparr>)"
      using reactor_frame_acceptors [OF Channel_update_frame(1) [OF upd]] f assms(5) by simp
    moreover have "readCallback c' = readCallback c"
      using Channel_update_core [OF upd, of "ac_channel ac"] 1(1) c1 by (simp add: chan_core_def)
    ultimately show ?case using 1 c watched_mask_eq [OF 1(7), of "ac_channel ac" c' "ac_loop ac" po']
      by (auto simp: acceptor_ok_def)
  qed
qed

theorem listen_watches_socket_witness:
  "\<exists>w'. Acceptor_listen sim_kernel 20 (sample_acceptor_world None) = Inr w' \<and>
     watched_mask si_interest w' 21 = Some kReadEvent"
proof -
  let ?w = "sample_acceptor_world None"
  have "\<not> isl (Acceptor_listen sim_kernel 20 ?w)" by code_simp
  then obtain w' where w': "Acceptor_listen sim_kernel 20 ?w = Inr w'" by (cases "Acceptor_listen sim_kernel 20 ?w") auto
  let ?ac = "\<lparr>ac_loop = 1, ac_socket = Socket 7, ac_channel = 21, ac_newConnectionCallback = None, ac_listening = True\<rparr>"
  let ?c = "(setReadCallback (cb_Acceptor_handleRead 20) (Channel_new (Some 1) 7))\<lparr>chan_events := kReadEvent, chan_index := kAdded\<rparr>"
  have "acceptors ?w 20 = Some ?ac" "chans ?w (ac_channel ?ac) = Some ?c" "fd_private ?w (ac_channel ?ac)"
    using sample_acceptor_ok(3) by (simp_all add: sample_acceptor_world_def)
  from listen_watches_socket [OF sim_epoll_spec sim_socket_calls_leave(1) sample_acceptor_ok(1,2) this(1,3,2) w'] w'
  show ?thesis by simp
qed

text \<open>
  No accepted connection leaks: the new fd goes to the new-connection callback, or, if none is set, is
  closed again; a failed \<^verbatim>\<open>accept\<close> is logged. No object changes before the callback runs.
\<close>

lemma Acceptor_handleRead_outcome:
  assumes spec: "open_spec K opened" and ac: "acceptors w a = Some ac" and acc: "Socket_accept K (ac_socket ac) w = (r, w1)"
  shows "world_frame w w1 \<and>
    (case r of
       None \<Rightarrow> opened (w_kern w1) = opened (w_kern w) \<and>
         (\<exists>m. Acceptor_handleRead K newconn a w = Inr (LOG_ERROR m w1))
     | Some (f, addr) \<Rightarrow> f \<notin> opened (w_kern w) \<and> opened (w_kern w1) = insert f (opened (w_kern w)) \<and>
         (case ac_newConnectionCallback ac of
            Some cb \<Rightarrow> Acceptor_handleRead K newconn a w = newconn cb f addr w1
          | None \<Rightarrow> \<exists>w'. Acceptor_handleRead K newconn a w = Inr w' \<and> opened (w_kern w') = opened (w_kern w) \<and>
              world_frame w w'))"
proof -
  note acc' = acc [unfolded Socket_accept_def]
  note o = sockets_accept_opened [OF spec acc']
  note fr = sockets_accept_frame [OF acc']
  have eq: "Acceptor_handleRead K newconn a w =
      (case r of Some (connfd, peerAddr) \<Rightarrow>
            (case ac_newConnectionCallback ac of Some cb \<Rightarrow> newconn cb connfd peerAddr w1
             | None \<Rightarrow> Inr (sockets_close K connfd w1))
        | None \<Rightarrow> Inr (LOG_ERROR (''Acceptor::handleRead accept failed: '' @ k_strerror K (w_errno w1)) w1))"
    using acc ac by (simp add: Acceptor_handleRead_def acceptor_at_def split: option.splits)
  have "opened (w_kern (sockets_close K f w1)) = opened (w_kern w1) - {f}" for f
    by (simp add: sockets_close_kern open_specD(5) [OF spec])
  then show ?thesis
    using eq o fr world_frame_trans [OF fr sockets_close_frame] by (auto split: option.splits)
qed

end
