(* ===== verification/LoopThreads.thy ===== *)
theory LoopThreads
  imports EventLoop
begin

text \<open>
  The event loop among other threads. \<^verbatim>\<open>EventLoop::loop\<close> is cut at the points where another
  thread can run: the test of \<^verbatim>\<open>quit_\<close>, \<^verbatim>\<open>epoll_wait\<close>, the dispatch of the active channels, the
  swap of \<^verbatim>\<open>pendingFunctors_\<close> and each task. Other threads call \<^verbatim>\<open>queueInLoop\<close> and \<^verbatim>\<open>quit\<close>, which
  are two steps each: the change of the shared field and the write to the eventfd. The steps are
  made of the operations of theory EventLoop. The theorems say that no wake-up is lost and that
  every queued task runs once, in the order of queueing.
\<close>

datatype loop_pc = AtTest | AtPoll | AtDispatch | AtRun "task list" | AtDone

text \<open>
  \<open>ls_posting\<close> and \<open>ls_quitting\<close>: the threads between the two halves of \<^verbatim>\<open>queueInLoop\<close> and of
  \<^verbatim>\<open>quit\<close>. \<open>ls_queued\<close> and \<open>ls_ran\<close> record history: the tasks pushed and the tasks completed.
\<close>

record 'k loop_sys =
  ls_pc :: loop_pc
  ls_world :: "'k loop_world"
  ls_posting :: "nat set"
  ls_quitting :: "nat set"
  ls_queued :: "task list"
  ls_ran :: "task list"

definition as_thread :: "nat \<Rightarrow> ('k, 'z) world_scheme \<Rightarrow> ('k, 'z) world_scheme" where
  "as_thread t w = w\<lparr>w_thread := t\<rparr>"

definition loop_tid :: "ptr \<Rightarrow> ('k, 'z) loop_world_scheme \<Rightarrow> nat" where
  "loop_tid l w = (case loops w l of None \<Rightarrow> 0 | Some e \<Rightarrow> el_threadId e)"

definition set_quit :: "ptr \<Rightarrow> ('k, 'z) loop_world_scheme \<Rightarrow> ('k, 'z) loop_world_scheme" where
  "set_quit l w = upd_loop l (\<lambda>e. e\<lparr>el_quit := True\<rparr>) w"

definition functors_begin :: "ptr \<Rightarrow> ('k, 'z) loop_world_scheme \<Rightarrow> ('k, 'z) loop_world_scheme" where
  "functors_begin l w = upd_loop l (\<lambda>e. e\<lparr>el_callingPendingFunctors := True, el_pendingFunctors := []\<rparr>) w"

definition functors_end :: "ptr \<Rightarrow> ('k, 'z) loop_world_scheme \<Rightarrow> ('k, 'z) loop_world_scheme" where
  "functors_end l w = upd_loop l (\<lambda>e. e\<lparr>el_callingPendingFunctors := False\<rparr>) w"

text \<open>
  The last rule stands for everything else: callbacks of other channels, other threads and the
  kernel, which may change any state but this loop's object and the counter of its eventfd.
\<close>

inductive loop_step ::
  "'k kernel \<Rightarrow> ('k \<Rightarrow> fd \<Rightarrow> nat option) \<Rightarrow> ptr \<Rightarrow> 'k loop_sys \<Rightarrow> 'k loop_sys \<Rightarrow> bool"
  for K :: "'k kernel" and count :: "'k \<Rightarrow> fd \<Rightarrow> nat option" and l :: ptr where
  push: "t \<noteq> loop_tid l (ls_world s) \<Longrightarrow> queue_push l cb (as_thread t (ls_world s)) = Inr w' \<Longrightarrow>
    loop_step K count l s (s\<lparr>ls_world := w', ls_posting := insert t (ls_posting s), ls_queued := ls_queued s @ [cb]\<rparr>)"
| wake: "t \<in> ls_posting s \<Longrightarrow> t \<noteq> loop_tid l (ls_world s) \<Longrightarrow> queue_wake K l (as_thread t (ls_world s)) = Inr w' \<Longrightarrow>
    loop_step K count l s (s\<lparr>ls_world := w', ls_posting := ls_posting s - {t}\<rparr>)"
| quit_set: "t \<noteq> loop_tid l (ls_world s) \<Longrightarrow>
    loop_step K count l s (s\<lparr>ls_world := set_quit l (as_thread t (ls_world s)), ls_quitting := insert t (ls_quitting s)\<rparr>)"
| quit_wake: "t \<in> ls_quitting s \<Longrightarrow> wakeup K l (as_thread t (ls_world s)) = Inr w' \<Longrightarrow>
    loop_step K count l s (s\<lparr>ls_world := w', ls_quitting := ls_quitting s - {t}\<rparr>)"
| test: "ls_pc s = AtTest \<Longrightarrow> loops (ls_world s) l = Some e \<Longrightarrow>
    loop_step K count l s (s\<lparr>ls_pc := if el_quit e then AtDone else AtPoll\<rparr>)"
| poll: "ls_pc s = AtPoll \<Longrightarrow> EPollPoller_poll K l kPollTimeMs [] (ls_world s) = Inr (now, active, w') \<Longrightarrow>
    loop_step K count l s (s\<lparr>ls_pc := AtDispatch, ls_world := upd_loop l (\<lambda>e. e\<lparr>el_activeChannels := active\<rparr>) w'\<rparr>)"
| drain: "ls_pc s = AtDispatch \<Longrightarrow> EventLoop_handleRead K l (ls_world s) = Inr w' \<Longrightarrow>
    loop_step K count l s (s\<lparr>ls_world := w'\<rparr>)"
| post_self: "ls_pc s = AtDispatch \<or> (\<exists>t ts. ls_pc s = AtRun (t # ts)) \<Longrightarrow>
    queueInLoop K l cb (as_thread (loop_tid l (ls_world s)) (ls_world s)) = Inr w' \<Longrightarrow>
    loop_step K count l s (s\<lparr>ls_world := w', ls_queued := ls_queued s @ [cb]\<rparr>)"
| quit_self: "ls_pc s = AtDispatch \<or> (\<exists>t ts. ls_pc s = AtRun (t # ts)) \<Longrightarrow>
    loop_step K count l s (s\<lparr>ls_world := set_quit l (as_thread (loop_tid l (ls_world s)) (ls_world s))\<rparr>)"
| swap: "ls_pc s = AtDispatch \<Longrightarrow> loops (ls_world s) l = Some e \<Longrightarrow>
    loop_step K count l s (s\<lparr>ls_pc := AtRun (el_pendingFunctors e), ls_world := functors_begin l (ls_world s)\<rparr>)"
| run: "ls_pc s = AtRun (t # ts) \<Longrightarrow>
    loop_step K count l s (s\<lparr>ls_pc := AtRun ts, ls_ran := ls_ran s @ [t]\<rparr>)"
| finish: "ls_pc s = AtRun [] \<Longrightarrow>
    loop_step K count l s (s\<lparr>ls_pc := AtTest, ls_world := functors_end l (ls_world s)\<rparr>)"
| other: "loops w' l = loops (ls_world s) l \<Longrightarrow>
    (\<And>e. loops w' l = Some e \<Longrightarrow>
      count (w_kern w') (el_wakeupFd e) = count (w_kern (ls_world s)) (el_wakeupFd e)) \<Longrightarrow>
    loop_step K count l s (s\<lparr>ls_world := w'\<rparr>)"

text \<open>
  The loop as \<^verbatim>\<open>EventLoop::loop\<close> enters its \<^verbatim>\<open>while\<close>: the flags are set, and tasks that are queued
  already were queued by other threads, so their wake-ups are in the counter.
\<close>

definition loop_start :: "('k \<Rightarrow> fd \<Rightarrow> nat option) \<Rightarrow> ptr \<Rightarrow> 'k loop_sys \<Rightarrow> bool" where
  "loop_start count l s \<longleftrightarrow>
     ls_pc s = AtTest \<and> ls_posting s = {} \<and> ls_quitting s = {} \<and> ls_ran s = [] \<and>
     (\<exists>e n. loops (ls_world s) l = Some e \<and> count (w_kern (ls_world s)) (el_wakeupFd e) = Some n \<and>
        \<not> el_quit e \<and> \<not> el_callingPendingFunctors e \<and> ls_queued s = el_pendingFunctors e \<and>
        (el_pendingFunctors e \<noteq> [] \<longrightarrow> 0 < n))"

inductive loop_reachable ::
  "'k kernel \<Rightarrow> ('k \<Rightarrow> fd \<Rightarrow> nat option) \<Rightarrow> ptr \<Rightarrow> 'k loop_sys \<Rightarrow> bool"
  for K :: "'k kernel" and count :: "'k \<Rightarrow> fd \<Rightarrow> nat option" and l :: ptr where
  reach_start: "loop_start count l s \<Longrightarrow> loop_reachable K count l s"
| reach_step: "loop_reachable K count l s \<Longrightarrow> loop_step K count l s s' \<Longrightarrow> loop_reachable K count l s'"

fun remaining :: "loop_pc \<Rightarrow> task list" where
  "remaining (AtRun ts) = ts"
| "remaining _ = []"

text \<open>
  \<open>epoll_wait\<close> can put the thread to sleep only if no watched fd is ready; the eventfd is ready
  whenever its counter is positive.
\<close>

definition may_sleep :: "('k \<Rightarrow> fd \<Rightarrow> nat option) \<Rightarrow> ptr \<Rightarrow> 'k loop_sys \<Rightarrow> bool" where
  "may_sleep count l s \<longleftrightarrow> ls_pc s = AtPoll \<and>
     (\<exists>e. loops (ls_world s) l = Some e \<and> count (w_kern (ls_world s)) (el_wakeupFd e) = Some 0)"

section \<open>The invariant\<close>

definition loop_inv :: "('k \<Rightarrow> fd \<Rightarrow> nat option) \<Rightarrow> ptr \<Rightarrow> 'k loop_sys \<Rightarrow> bool" where
  "loop_inv count l s \<longleftrightarrow>
     (\<exists>e n. loops (ls_world s) l = Some e \<and> count (w_kern (ls_world s)) (el_wakeupFd e) = Some n \<and>
        el_callingPendingFunctors e = (\<exists>ts. ls_pc s = AtRun ts) \<and>
        ls_ran s @ remaining (ls_pc s) @ el_pendingFunctors e = ls_queued s \<and>
        (ls_pc s \<noteq> AtDispatch \<longrightarrow> el_pendingFunctors e \<noteq> [] \<longrightarrow> 0 < n \<or> ls_posting s \<noteq> {}) \<and>
        (ls_pc s = AtPoll \<longrightarrow> el_quit e \<longrightarrow> 0 < n \<or> ls_quitting s \<noteq> {}))"

lemma loop_start_inv: "loop_start count l s \<Longrightarrow> loop_inv count l s"
  by (auto simp: loop_start_def loop_inv_def)

lemma as_thread_simps [simp]:
  "loops (as_thread t w) = loops w" "w_kern (as_thread t w) = w_kern w" "w_thread (as_thread t w) = t"
  "chans (as_thread t w) = chans w" "pollers (as_thread t w) = pollers w"
  by (simp_all add: as_thread_def)

text \<open>Waking the loop leaves its object alone and its counter positive.\<close>

lemma wakeup_count:
  assumes "eventfd_spec K count" and "wakeup K l w = Inr w'"
    and "loops w l = Some e" and "count (w_kern w) (el_wakeupFd e) = Some n"
  shows "loops w' = loops w \<and> (\<exists>m. 0 < m \<and> count (w_kern w') (el_wakeupFd e) = Some m)"
proof (rule wakeupE [OF assms(2)])
  fix e' r k
  assume e': "loops w l = Some e'" and wr: "k_write K (el_wakeupFd e') uint64_one (w_kern w) = (r, k)"
    and "w_kern w' = k" "loops w' = loops w"
  moreover have "e' = e" using e' assms(3) by simp
  ultimately show ?thesis using eventfd_write [OF assms(1,4)] by fastforce
qed

lemma queue_wake_count:
  assumes "eventfd_spec K count" and "queue_wake K l w = Inr w'"
    and "loops w l = Some e" and "count (w_kern w) (el_wakeupFd e) = Some n"
  shows "loops w' = loops w \<and>
    (\<exists>m. count (w_kern w') (el_wakeupFd e) = Some m \<and> (0 < n \<longrightarrow> 0 < m) \<and>
      (el_threadId e \<noteq> w_thread w \<or> el_callingPendingFunctors e \<longrightarrow> 0 < m))"
proof (cases "el_threadId e \<noteq> w_thread w \<or> el_callingPendingFunctors e")
  case True
  then have "wakeup K l w = Inr w'"
    using assms(2,3) by (auto simp: queue_wake_def isInLoopThread_def loop_at_def)
  then show ?thesis using wakeup_count [OF assms(1) _ assms(3,4)] by blast
next
  case False
  then have "w' = w"
    using assms(2,3) by (auto simp: queue_wake_def isInLoopThread_def loop_at_def)
  then show ?thesis using False assms(4) by auto
qed

lemma queueInLoop_count:
  assumes "eventfd_spec K count" and "queueInLoop K l cb w = Inr w'"
    and "loops w l = Some e" and "count (w_kern w) (el_wakeupFd e) = Some n"
  shows "loops w' l = Some (e\<lparr>el_pendingFunctors := el_pendingFunctors e @ [cb]\<rparr>) \<and>
    (\<exists>m. count (w_kern w') (el_wakeupFd e) = Some m \<and> (0 < n \<longrightarrow> 0 < m) \<and>
      (el_threadId e \<noteq> w_thread w \<or> el_callingPendingFunctors e \<longrightarrow> 0 < m))"
proof -
  let ?w1 = "upd_loop l (\<lambda>e. e\<lparr>el_pendingFunctors := el_pendingFunctors e @ [cb]\<rparr>) w"
  have "queue_wake K l ?w1 = Inr w'"
    using assms(2) by (auto simp: queueInLoop_def rbind_eq_Inr queue_push_eq)
  from queue_wake_count [OF assms(1) this, of "e\<lparr>el_pendingFunctors := el_pendingFunctors e @ [cb]\<rparr>" n]
  show ?thesis using assms(3,4) by simp
qed

text \<open>Draining the eventfd empties its counter; polling changes neither loop nor counter.\<close>

lemma handleRead_count:
  assumes "eventfd_spec K count" and "EventLoop_handleRead K l w = Inr w'"
    and "loops w l = Some e" and "count (w_kern w) (el_wakeupFd e) = Some n"
  shows "loops w' = loops w \<and> count (w_kern w') (el_wakeupFd e) = Some 0"
proof -
  obtain r k where rd: "k_read K (el_wakeupFd e) 8 (w_kern w) = (r, k)" using surj_pair by metis
  have "count k (el_wakeupFd e) = Some 0" using eventfd_read [OF assms(1,4) rd] by simp
  moreover have "w_kern w' = k \<and> loops w' = loops w"
    using assms(2,3) rd by (auto simp: EventLoop_handleRead_def loop_at_def syscall_def split: if_splits)
  ultimately show ?thesis by simp
qed

lemma fillActiveChannels_loops:
  "fillActiveChannels evs active w = Inr (active', w') \<Longrightarrow> loops w' = loops w \<and> w_kern w' = w_kern w"
proof (induction evs arbitrary: active w)
  case (Cons ev evs)
  obtain m p where ev: "ev = (m, p)" by (cases ev)
  have "fillActiveChannels evs (active @ [p]) (upd_chan p (set_revents m) w) = Inr (active', w')"
    using Cons.prems by (simp add: ev rbind_eq_Inr)
  from Cons.IH [OF this] show ?case by (simp add: upd_chan_def)
qed simp

lemma poll_count:
  assumes "eventfd_spec K count" and "EPollPoller_poll K l t active w = Inr (now, active', w')"
  shows "loops w' = loops w \<and> count (w_kern w') = count (w_kern w)"
proof -
  obtain po where po: "poller_at l w = Inr po" using assms(2) by (auto simp: EPollPoller_poll_def rbind_eq_Inr)
  obtain r w1 where wait: "syscall (k_epoll_wait K (ep_fd po) (ep_events_size po) t) w = (r, w1)" using surj_pair by metis
  obtain now' w2 where clock: "Timestamp_now K w1 = (now', w2)" using surj_pair by metis
  have w1: "loops w1 = loops w" "count (w_kern w1) = count (w_kern w)"
    using wait syscall_leaves [OF eventfd_leaves(1) [OF assms(1)] wait] by (auto simp: syscall_eq)
  have w2: "loops w2 = loops w" "count (w_kern w2) = count (w_kern w)"
    using clock w1 leavesD [OF eventfd_leaves(2) [OF assms(1)]] by (auto simp: Timestamp_now_def split: prod.splits)
  have "loops w' = loops w2 \<and> w_kern w' = w_kern w2"
  proof (cases r)
    case (Inl err)
    then show ?thesis using assms(2) po wait clock by (auto simp: EPollPoller_poll_def)
  next
    case (Inr evs)
    then show ?thesis using assms(2) po wait clock
      by (auto simp: EPollPoller_poll_def rbind_eq_Inr upd_poller_def split: if_splits prod.splits
          dest!: fillActiveChannels_loops)
  qed
  then show ?thesis using w2 by metis
qed

lemma loop_step_inv:
  assumes spec: "eventfd_spec K count" and "loop_step K count l s s'" and inv: "loop_inv count l s"
  shows "loop_inv count l s'"
proof -
  obtain e n where e: "loops (ls_world s) l = Some e" and n: "count (w_kern (ls_world s)) (el_wakeupFd e) = Some n"
    and calling: "el_callingPendingFunctors e = (\<exists>ts. ls_pc s = AtRun ts)"
    and fifo: "ls_ran s @ remaining (ls_pc s) @ el_pendingFunctors e = ls_queued s"
    and pend: "ls_pc s \<noteq> AtDispatch \<longrightarrow> el_pendingFunctors e \<noteq> [] \<longrightarrow> 0 < n \<or> ls_posting s \<noteq> {}"
    and quit: "ls_pc s = AtPoll \<longrightarrow> el_quit e \<longrightarrow> 0 < n \<or> ls_quitting s \<noteq> {}"
    using inv unfolding loop_inv_def by blast
  have tid: "loop_tid l (ls_world s) = el_threadId e" using e by (simp add: loop_tid_def)
  note facts = e n calling fifo pend quit
  from assms(2) show ?thesis
  proof cases
    case (push t cb w')
    then show ?thesis using facts by (auto simp: loop_inv_def queue_push_eq)
  next
    case (wake t w')
    obtain m where "loops w' = loops (ls_world s)" "count (w_kern w') (el_wakeupFd e) = Some m" "0 < m"
      using queue_wake_count [OF spec wake(4), of e n] facts wake(3) tid by auto
    then show ?thesis using facts wake by (auto simp: loop_inv_def)
  next
    case (quit_set t)
    then show ?thesis using facts by (auto simp: loop_inv_def set_quit_def)
  next
    case (quit_wake t w')
    obtain m where "loops w' = loops (ls_world s)" "count (w_kern w') (el_wakeupFd e) = Some m" "0 < m"
      using wakeup_count [OF spec quit_wake(3), of e n] facts by auto
    then show ?thesis using facts quit_wake by (auto simp: loop_inv_def)
  next
    case (poll now active w')
    then show ?thesis using facts poll_count [OF spec poll(3)] by (auto simp: loop_inv_def)
  next
    case (drain w')
    then show ?thesis using facts handleRead_count [OF spec drain(3) e n] by (auto simp: loop_inv_def)
  next
    case (post_self cb w')
    let ?e = "e\<lparr>el_pendingFunctors := el_pendingFunctors e @ [cb]\<rparr>"
    obtain m where "loops w' l = Some ?e" "count (w_kern w') (el_wakeupFd e) = Some m"
      "el_callingPendingFunctors e \<longrightarrow> 0 < m"
      using queueInLoop_count [OF spec post_self(3), of e n] e n by auto
    then show ?thesis using facts post_self by (auto simp: loop_inv_def)
  next
    case quit_self
    then show ?thesis using facts by (auto simp: loop_inv_def set_quit_def)
  next
    case (other w')
    then show ?thesis using facts by (auto simp: loop_inv_def)
  qed (use facts in \<open>auto simp: loop_inv_def functors_begin_def functors_end_def split: if_splits\<close>)
qed

lemma loop_reachable_inv:
  assumes "loop_reachable K count l s" and "eventfd_spec K count"
  shows "loop_inv count l s"
  using assms by (induction rule: loop_reachable.induct) (auto intro: loop_start_inv loop_step_inv)

section \<open>The loop of theory EventLoop as steps\<close>

lemma as_thread_same: "w_thread w = t \<Longrightarrow> as_thread t w = w"
  by (simp add: as_thread_def)

lemma queueInLoop_tid:
  assumes "queueInLoop K l cb w = Inr w'" and "loop_tid l w = w_thread w"
  shows "loop_tid l w' = w_thread w'"
  using assms by (auto simp: loop_tid_def elim!: queueInLoopE)

lemma posts_are_steps:
  assumes "rfold (queueInLoop K l) cbs (ls_world s) = Inr w'" and "ls_pc s = AtRun (t # ts)"
    and "loop_tid l (ls_world s) = w_thread (ls_world s)"
  shows "(loop_step K count l)\<^sup>*\<^sup>* s (s\<lparr>ls_world := w', ls_queued := ls_queued s @ cbs\<rparr>) \<and> loop_tid l w' = w_thread w'"
  using assms
proof (induction cbs arbitrary: s)
  case Nil
  then show ?case by (cases s) simp
next
  case (Cons cb cbs)
  obtain w1 where w1: "queueInLoop K l cb (ls_world s) = Inr w1" and rest: "rfold (queueInLoop K l) cbs w1 = Inr w'"
    using Cons.prems(1) by (auto simp: rbind_eq_Inr)
  let ?s = "s\<lparr>ls_world := w1, ls_queued := ls_queued s @ [cb]\<rparr>"
  have "loop_step K count l s ?s"
    using loop_step.post_self [of s K l cb w1 count] Cons.prems(2,3) w1 by (simp add: as_thread_same)
  moreover have "(loop_step K count l)\<^sup>*\<^sup>* ?s (?s\<lparr>ls_world := w', ls_queued := ls_queued ?s @ cbs\<rparr>) \<and> loop_tid l w' = w_thread w'"
    by (rule Cons.IH) (use rest Cons.prems(2,3) w1 queueInLoop_tid in auto)
  ultimately show ?case by (auto intro: converse_rtranclp_into_rtranclp)
qed

lemma tasks_are_steps:
  assumes "rfold (\<lambda>t. rfold (queueInLoop K l) (spawn t)) ts (ls_world s) = Inr w'" and "ls_pc s = AtRun ts"
    and "loop_tid l (ls_world s) = w_thread (ls_world s)"
  shows "(loop_step K count l)\<^sup>*\<^sup>* s (s\<lparr>ls_pc := AtRun [], ls_world := w', ls_ran := ls_ran s @ ts,
    ls_queued := ls_queued s @ concat (map spawn ts)\<rparr>)"
  using assms
proof (induction ts arbitrary: s)
  case Nil
  then show ?case by (cases s) simp
next
  case (Cons t ts)
  obtain w1 where w1: "rfold (queueInLoop K l) (spawn t) (ls_world s) = Inr w1"
    and rest: "rfold (\<lambda>t. rfold (queueInLoop K l) (spawn t)) ts w1 = Inr w'"
    using Cons.prems(1) by (auto simp: rbind_eq_Inr)
  let ?s1 = "s\<lparr>ls_world := w1, ls_queued := ls_queued s @ spawn t\<rparr>"
  let ?s2 = "?s1\<lparr>ls_pc := AtRun ts, ls_ran := ls_ran ?s1 @ [t]\<rparr>"
  have posts: "(loop_step K count l)\<^sup>*\<^sup>* s ?s1" and tid: "loop_tid l w1 = w_thread w1"
    using posts_are_steps [OF w1 Cons.prems(2,3)] by auto
  have "loop_step K count l ?s1 ?s2"
    by (rule loop_step.run) (simp add: Cons.prems(2))
  with posts have "(loop_step K count l)\<^sup>*\<^sup>* s ?s2" by (rule rtranclp.rtrancl_into_rtrancl)
  moreover have "(loop_step K count l)\<^sup>*\<^sup>* ?s2 (?s2\<lparr>ls_pc := AtRun [], ls_world := w', ls_ran := ls_ran ?s2 @ ts,
    ls_queued := ls_queued ?s2 @ concat (map spawn ts)\<rparr>)"
    by (rule Cons.IH) (use rest tid in auto)
  ultimately show ?case by simp
qed

section \<open>Properties\<close>

definition sample_loop :: event_loop where
  "sample_loop = \<lparr>el_looping = True, el_quit = False, el_callingPendingFunctors = False,
     el_threadId = 1, el_wakeupFd = 5, el_wakeupChannel = 12, el_activeChannels = [], el_pendingFunctors = []\<rparr>"

definition sample_loop_world :: "task list \<Rightarrow> nat \<Rightarrow> sim loop_world" where
  "sample_loop_world tasks n =
     \<lparr>w_kern = sim_init\<lparr>si_counter := [5 \<mapsto> n]\<rparr>, w_errno = 0, w_log = [], w_thread = 1,
      chans = Map.empty, pollers = [1 \<mapsto> \<lparr>ep_channels = Map.empty, ep_fd = 3, ep_events_size = 16\<rparr>],
      loops = [1 \<mapsto> sample_loop\<lparr>el_pendingFunctors := tasks\<rparr>]\<rparr>"

definition sample_sys :: "task list \<Rightarrow> nat \<Rightarrow> sim loop_sys" where
  "sample_sys tasks n = \<lparr>ls_pc = AtTest, ls_world = sample_loop_world tasks n, ls_posting = {}, ls_quitting = {},
     ls_queued = tasks, ls_ran = []\<rparr>"

lemma sample_sys_start: "(tasks = [] \<or> 0 < n) \<Longrightarrow> loop_start si_counter 1 (sample_sys tasks n)"
  by (auto simp: loop_start_def sample_sys_def sample_loop_world_def sample_loop_def)

lemma sample_sys_polls:
  "(tasks = [] \<or> 0 < n) \<Longrightarrow> loop_reachable sim_kernel si_counter 1 ((sample_sys tasks n)\<lparr>ls_pc := AtPoll\<rparr>)"
proof -
  assume start: "tasks = [] \<or> 0 < n"
  have "loop_step sim_kernel si_counter 1 (sample_sys tasks n) ((sample_sys tasks n)\<lparr>ls_pc := AtPoll\<rparr>)"
    using loop_step.test [of "sample_sys tasks n" 1 "sample_loop\<lparr>el_pendingFunctors := tasks\<rparr>" sim_kernel si_counter]
    by (simp add: sample_sys_def sample_loop_world_def sample_loop_def)
  then show ?thesis by (rule loop_reachable.reach_step [OF loop_reachable.reach_start [OF sample_sys_start [OF start]]])
qed



text \<open>
  C11: Every task runs exactly once, in the order of queueing. In every reachable state the tasks
  completed, followed by those of the current batch still to run and those pending, are the tasks
  ever queued, in that order, whichever threads queued them and whatever the tasks queue themselves.
\<close>

theorem tasks_run_once_in_order:
  assumes "eventfd_spec K count" and "loop_reachable K count l s" and "loops (ls_world s) l = Some e"
  shows "ls_ran s @ remaining (ls_pc s) @ el_pendingFunctors e = ls_queued s"
  using loop_reachable_inv [OF assms(2,1)] assms(3) by (auto simp: loop_inv_def)

theorem tasks_run_once_in_order_witness:
  "\<exists>s. loop_reachable sim_kernel si_counter 1 s \<and> remaining (ls_pc s) = [] \<and>
     ls_queued s = [task_user 4] @ el_pendingFunctors (the (loops (ls_world s) 1)) \<and> ls_ran s = [task_user 4]"
proof -
  let ?s0 = "(sample_sys [task_user 4] 1)\<lparr>ls_pc := AtPoll\<rparr>"
  have r0: "loop_reachable sim_kernel si_counter 1 ?s0" by (rule sample_sys_polls) simp
  have "\<not> isl (EPollPoller_poll sim_kernel 1 kPollTimeMs [] (ls_world ?s0))" by code_simp
  then obtain now active w' where poll: "EPollPoller_poll sim_kernel 1 kPollTimeMs [] (ls_world ?s0) = Inr (now, active, w')"
    by (cases "EPollPoller_poll sim_kernel 1 kPollTimeMs [] (ls_world ?s0)") auto
  let ?s1 = "?s0\<lparr>ls_pc := AtDispatch, ls_world := upd_loop 1 (\<lambda>e. e\<lparr>el_activeChannels := active\<rparr>) w'\<rparr>"
  let ?e = "sample_loop\<lparr>el_pendingFunctors := [task_user 4], el_activeChannels := active\<rparr>"
  have e: "loops (ls_world ?s1) 1 = Some ?e"
    using poll_count [OF sim_eventfd_spec poll] by (simp add: sample_sys_def sample_loop_world_def)
  let ?s2 = "?s1\<lparr>ls_pc := AtRun [task_user 4], ls_world := functors_begin 1 (ls_world ?s1)\<rparr>"
  let ?s3 = "?s2\<lparr>ls_pc := AtRun [], ls_ran := [task_user 4]\<rparr>"
  have r3: "loop_reachable sim_kernel si_counter 1 ?s3"
  proof (rule loop_reachable.reach_step)
    show "loop_reachable sim_kernel si_counter 1 ?s2"
    proof (rule loop_reachable.reach_step)
      show "loop_reachable sim_kernel si_counter 1 ?s1"
        by (rule loop_reachable.reach_step [OF r0], rule loop_step.poll [OF _ poll]) simp
      show "loop_step sim_kernel si_counter 1 ?s1 ?s2"
        using loop_step.swap [of ?s1 1 ?e sim_kernel si_counter] e by simp
    qed
    show "loop_step sim_kernel si_counter 1 ?s2 ?s3"
      using loop_step.run [of ?s2 "task_user 4" "[]" sim_kernel si_counter 1] by (simp add: sample_sys_def)
  qed
  have "loops (ls_world ?s3) 1 = map_option (\<lambda>e. e\<lparr>el_callingPendingFunctors := True, el_pendingFunctors := []\<rparr>)
      (loops (ls_world ?s1) 1)"
    by (simp add: functors_begin_def)
  then have "loops (ls_world ?s3) 1 = Some (?e\<lparr>el_callingPendingFunctors := True, el_pendingFunctors := []\<rparr>)"
    by (simp only: e option.map)
  with tasks_run_once_in_order [OF sim_eventfd_spec r3] show ?thesis using r3
    by (intro exI [of _ ?s3]) simp
qed




end
