(* ===== verification/EventLoopThread.thy ===== *)
theory EventLoopThread
  imports LoopThreads TimerQueue
begin

text \<open>
  \<^verbatim>\<open>src/net/EventLoopThread.cc\<close>: an object that runs an event loop in a thread of its own. The loop is
  a local variable of \<^verbatim>\<open>threadFunc\<close>; its address is published in \<^verbatim>\<open>loop_\<close> under the mutex. The owner's
  and the loop's thread are a step relation: \<open>owner_pc\<close> follows \<^verbatim>\<open>startLoop\<close> and the destructor,
  \<open>thread_pc\<close> follows \<^verbatim>\<open>threadFunc\<close>. The address \<open>l\<close> of the loop and those of its channels, and the
  numbers of the two threads, are parameters. \<open>init\<close> is what the initialisation callback does.
\<close>

record event_loop_thread =
  et_loop :: "ptr option"
  et_exiting :: bool
  et_callback :: "nat option"
  et_thread :: "nat option"

definition EventLoopThread_new :: "nat option \<Rightarrow> event_loop_thread" where
  "EventLoopThread_new cb = \<lparr>et_loop = None, et_exiting = False, et_callback = cb, et_thread = None\<rparr>"

text \<open>The first half of \<^verbatim>\<open>threadFunc\<close>, in the new thread \<open>tid\<close>: construct the loop, call the callback.\<close>

definition threadFunc_init ::
  "'k kernel \<Rightarrow> (nat \<Rightarrow> ptr \<Rightarrow> ('k, 'z) timer_world_scheme \<Rightarrow> ('k, 'z) timer_world_scheme res) \<Rightarrow> nat \<Rightarrow> nat option \<Rightarrow>
   ptr \<Rightarrow> ptr \<Rightarrow> ptr \<Rightarrow> ('k, 'z) timer_world_scheme \<Rightarrow> ('k, 'z) timer_world_scheme res" where
  "threadFunc_init K init tid cb l tch wch w =
     rbind (EventLoop_new K l tch wch (as_thread tid w)) (\<lambda>w1.
       case cb of None \<Rightarrow> Inr w1 | Some f \<Rightarrow> init f l w1)"

text \<open>
  \<^verbatim>\<open>startLoop\<close> as its caller sees it: it waits until the thread has published the loop, so all of
  \<^verbatim>\<open>threadFunc_init\<close> has happened when it returns.
\<close>

definition startLoop ::
  "'k kernel \<Rightarrow> (nat \<Rightarrow> ptr \<Rightarrow> ('k, 'z) timer_world_scheme \<Rightarrow> ('k, 'z) timer_world_scheme res) \<Rightarrow> nat \<Rightarrow>
   ptr \<Rightarrow> ptr \<Rightarrow> ptr \<Rightarrow> event_loop_thread \<Rightarrow> ('k, 'z) timer_world_scheme \<Rightarrow>
   (ptr \<times> event_loop_thread \<times> ('k, 'z) timer_world_scheme) res" where
  "startLoop K init tid l tch wch et w =
     rbind (threadFunc_init K init tid (et_callback et) l tch wch w) (\<lambda>w1.
       Inr (l, et\<lparr>et_thread := Some tid, et_loop := Some l\<rparr>, as_thread (w_thread w) w1))"

section \<open>The two threads\<close>

datatype owner_pc = OCreated | OWaiting | OStarted | ODestroying | OQuitting "ptr option" | OJoining | OGone
datatype thread_pc = TNone | TInit | TPublishing | TEntering | TLooping | TLeft | TUnpublished | TExited

record 'k thread_sys =
  ts_owner :: owner_pc
  ts_thread :: thread_pc
  ts_object :: event_loop_thread
  ts_world :: "'k timer_world"

text \<open>
  While the loop runs, its turns may do anything to the world that keeps the loop object and does
  not ask it to quit: the only caller of \<^verbatim>\<open>quit\<close> considered is the destructor.
\<close>

inductive thread_step ::
  "'k kernel \<Rightarrow> (nat \<Rightarrow> ptr \<Rightarrow> 'k timer_world \<Rightarrow> 'k timer_world res) \<Rightarrow> nat \<Rightarrow> nat \<Rightarrow> ptr \<Rightarrow> ptr \<Rightarrow> ptr \<Rightarrow>
   'k thread_sys \<Rightarrow> 'k thread_sys \<Rightarrow> bool"
  for K :: "'k kernel" and init :: "nat \<Rightarrow> ptr \<Rightarrow> 'k timer_world \<Rightarrow> 'k timer_world res"
    and otid :: nat and tid :: nat and l :: ptr and tch :: ptr and wch :: ptr where
  spawn: "ts_owner s = OCreated \<Longrightarrow> thread_step K init otid tid l tch wch s
    (s\<lparr>ts_owner := OWaiting, ts_thread := TInit, ts_object := (ts_object s)\<lparr>et_thread := Some tid\<rparr>\<rparr>)"
| construct: "ts_thread s = TInit \<Longrightarrow>
    threadFunc_init K init tid (et_callback (ts_object s)) l tch wch (ts_world s) = Inr w' \<Longrightarrow>
    thread_step K init otid tid l tch wch s (s\<lparr>ts_thread := TPublishing, ts_world := w'\<rparr>)"
| publish: "ts_thread s = TPublishing \<Longrightarrow> thread_step K init otid tid l tch wch s
    (s\<lparr>ts_thread := TEntering, ts_object := (ts_object s)\<lparr>et_loop := Some l\<rparr>\<rparr>)"
| started: "ts_owner s = OWaiting \<Longrightarrow> et_loop (ts_object s) \<noteq> None \<Longrightarrow>
    thread_step K init otid tid l tch wch s (s\<lparr>ts_owner := OStarted\<rparr>)"
| enter: "ts_thread s = TEntering \<Longrightarrow>
    thread_step K init otid tid l tch wch s (s\<lparr>ts_thread := TLooping, ts_world := loop_enter l (ts_world s)\<rparr>)"
| turn: "ts_thread s = TLooping \<Longrightarrow> loops (ts_world s) l = Some e \<Longrightarrow> \<not> el_quit e \<Longrightarrow>
    loops w' l = Some e' \<Longrightarrow> \<not> el_quit e' \<Longrightarrow> el_threadId e' = el_threadId e \<Longrightarrow>
    thread_step K init otid tid l tch wch s (s\<lparr>ts_world := w'\<rparr>)"
| leave: "ts_thread s = TLooping \<Longrightarrow> quit_requested l (ts_world s) \<Longrightarrow>
    thread_step K init otid tid l tch wch s (s\<lparr>ts_thread := TLeft, ts_world := loop_leave l (ts_world s)\<rparr>)"
| unpublish: "ts_thread s = TLeft \<Longrightarrow> thread_step K init otid tid l tch wch s
    (s\<lparr>ts_thread := TUnpublished, ts_object := (ts_object s)\<lparr>et_loop := None\<rparr>\<rparr>)"
| destroy: "ts_thread s = TUnpublished \<Longrightarrow> EventLoop_destroy K l (ts_world s) = Inr w' \<Longrightarrow>
    thread_step K init otid tid l tch wch s (s\<lparr>ts_thread := TExited, ts_world := w'\<rparr>)"
| destructor: "ts_owner s = OStarted \<Longrightarrow> thread_step K init otid tid l tch wch s
    (s\<lparr>ts_owner := ODestroying, ts_object := (ts_object s)\<lparr>et_exiting := True\<rparr>\<rparr>)"
| read_loop: "ts_owner s = ODestroying \<Longrightarrow>
    thread_step K init otid tid l tch wch s (s\<lparr>ts_owner := OQuitting (et_loop (ts_object s))\<rparr>)"
| quit: "ts_owner s = OQuitting (Some p) \<Longrightarrow> EventLoop_quit K p (as_thread otid (ts_world s)) = Inr w' \<Longrightarrow>
    thread_step K init otid tid l tch wch s (s\<lparr>ts_owner := OJoining, ts_world := w'\<rparr>)"
| no_loop: "ts_owner s = OQuitting None \<Longrightarrow>
    thread_step K init otid tid l tch wch s (s\<lparr>ts_owner := OJoining\<rparr>)"
| join: "ts_owner s = OJoining \<Longrightarrow> ts_thread s = TExited \<Longrightarrow>
    thread_step K init otid tid l tch wch s (s\<lparr>ts_owner := OGone\<rparr>)"

definition thread_start :: "nat option \<Rightarrow> 'k timer_world \<Rightarrow> 'k thread_sys" where
  "thread_start cb w = \<lparr>ts_owner = OCreated, ts_thread = TNone, ts_object = EventLoopThread_new cb, ts_world = w\<rparr>"

section \<open>The invariant\<close>

text \<open>The loop object exists from its construction to its destruction, and belongs to thread \<open>tid\<close>.\<close>

definition loop_lives :: "thread_pc \<Rightarrow> bool" where
  "loop_lives pc \<longleftrightarrow> pc \<in> {TPublishing, TEntering, TLooping, TLeft, TUnpublished}"

definition published :: "thread_pc \<Rightarrow> bool" where
  "published pc \<longleftrightarrow> pc \<in> {TEntering, TLooping, TLeft}"

text \<open>Before the destructor calls \<^verbatim>\<open>quit\<close>, the loop has not been asked to quit and does not end.\<close>

definition thread_inv :: "nat \<Rightarrow> ptr \<Rightarrow> 'k thread_sys \<Rightarrow> bool" where
  "thread_inv tid l s \<longleftrightarrow>
     (loop_lives (ts_thread s) \<longrightarrow> (\<exists>e. loops (ts_world s) l = Some e \<and> el_threadId e = tid)) \<and>
     et_loop (ts_object s) = (if published (ts_thread s) then Some l else None) \<and>
     (ts_owner s = OCreated \<longleftrightarrow> ts_thread s = TNone) \<and>
     (ts_owner s \<notin> {OCreated, OWaiting, OJoining, OGone} \<longrightarrow> ts_thread s \<in> {TEntering, TLooping}) \<and>
     (ts_owner s = OWaiting \<longrightarrow> ts_thread s \<in> {TInit, TPublishing, TEntering, TLooping}) \<and>
     (\<forall>p. ts_owner s = OQuitting p \<longrightarrow> p = Some l) \<and>
     (ts_owner s \<notin> {OJoining, OGone} \<longrightarrow> ts_thread s = TLooping \<longrightarrow> \<not> quit_requested l (ts_world s))"

lemma enableReading_loops: "enableReading K p w = Inr w' \<Longrightarrow> loops w' = loops w \<and> w_thread w' = w_thread w"
  using Channel_update_frame(1) [of K p _ w w'] reactor_frame_loops [of w w']
  by (auto simp: enableReading_def reactor_frame_def)

lemma EventLoop_new_loop:
  assumes "EventLoop_new K l tch wch w = Inr w'"
  shows "\<exists>e. loops w' = (loops w)(l \<mapsto> e) \<and> el_threadId e = w_thread w \<and> \<not> el_quit e \<and> el_pendingFunctors e = [] \<and>
    w_thread w' = w_thread w"
proof -
  obtain w1 w2 fd w3 where w1: "EPollPoller_new K l w = Inr w1" and w2: "TimerQueue_new K l tch w1 = Inr w2"
    and w3: "createEventfd K w2 = Inr (fd, w3)"
    and en: "enableReading K wch (w3\<lparr>chans := (chans w3)(wch \<mapsto> setReadCallback (cb_EventLoop_handleRead l) (Channel_new (Some l) fd)),
            loops := (loops w3)(l \<mapsto> \<lparr>el_looping = False, el_quit = False,
              el_callingPendingFunctors = False, el_threadId = w_thread w3, el_wakeupFd = fd,
              el_wakeupChannel = wch, el_activeChannels = [], el_pendingFunctors = []\<rparr>)\<rparr>) = Inr w'" (is "enableReading K wch ?w = _")
    using assms by (auto simp: EventLoop_new_def rbind_eq_Inr)
  have "w_thread w1 = w_thread w" "loops w1 = loops w"
    using w1 by (auto simp: EPollPoller_new_def syscall_def split: prod.splits sum.splits)
  moreover have "w_thread w2 = w_thread w1 \<and> loops w2 = loops w1"
  proof -
    obtain tfd v where v: "createTimerfd K w1 = Inr (tfd, v)"
      and en2: "enableReading K tch (v\<lparr>chans := (chans v)(tch \<mapsto> setReadCallback (cb_TimerQueue_handleRead l) (Channel_new (Some l) tfd)),
            tqueues := (tqueues v)(l \<mapsto> \<lparr>tq_timerfd = tfd, tq_channel = tch, tq_timers = [],
              tq_activeTimers = [], tq_cancelingTimers = [], tq_callingExpiredTimers = False\<rparr>)\<rparr>) = Inr w2"
      using w2 by (auto simp: TimerQueue_new_def rbind_eq_Inr)
    have "w_thread v = w_thread w1 \<and> loops v = loops w1"
      using v by (auto simp: createTimerfd_def syscall_def split: prod.splits sum.splits)
    then show ?thesis using enableReading_loops [OF en2] by simp
  qed
  moreover have "w_thread w3 = w_thread w2 \<and> loops w3 = loops w2"
    using w3 by (auto simp: createEventfd_def syscall_def split: prod.splits sum.splits)
  moreover have "w_thread w' = w_thread ?w" "loops w' = loops ?w"
    using enableReading_loops [OF en] by simp_all
  ultimately show ?thesis
    by (intro exI [of _ "\<lparr>el_looping = False, el_quit = False, el_callingPendingFunctors = False, el_threadId = w_thread w,
      el_wakeupFd = fd, el_wakeupChannel = wch, el_activeChannels = [], el_pendingFunctors = []\<rparr>"]) simp
qed

text \<open>What the initialisation callback may do to the loop it gets.\<close>

definition init_keeps_loop :: "(nat \<Rightarrow> ptr \<Rightarrow> 'k timer_world \<Rightarrow> 'k timer_world res) \<Rightarrow> ptr \<Rightarrow> bool" where
  "init_keeps_loop init l \<longleftrightarrow>
     (\<forall>f w w' e. init f l w = Inr w' \<longrightarrow> loops w l = Some e \<longrightarrow>
        (\<exists>e'. loops w' l = Some e' \<and> el_threadId e' = el_threadId e))"

lemma threadFunc_init_loop:
  assumes "threadFunc_init K init tid cb l tch wch w = Inr w'" and "init_keeps_loop init l"
  shows "\<exists>e. loops w' l = Some e \<and> el_threadId e = tid"
proof -
  obtain w1 where w1: "EventLoop_new K l tch wch (as_thread tid w) = Inr w1"
    and cb: "(case cb of None \<Rightarrow> Inr w1 | Some f \<Rightarrow> init f l w1) = Inr w'"
    using assms(1) by (auto simp: threadFunc_init_def rbind_eq_Inr)
  obtain e where "loops w1 l = Some e" "el_threadId e = tid"
    using EventLoop_new_loop [OF w1] by auto
  then show ?thesis using cb assms(2) by (cases cb) (auto simp: init_keeps_loop_def)
qed

lemma EventLoop_quit_loop:
  assumes "EventLoop_quit K l w = Inr w'"
  shows "\<exists>e. loops w l = Some e \<and> loops w' = (loops w)(l \<mapsto> e\<lparr>el_quit := True\<rparr>)"
proof -
  obtain e where e: "loops w l = Some e" using assms by (auto simp: EventLoop_quit_def loop_at_def rbind_eq_Inr)
  let ?w = "upd_loop l (\<lambda>e. e\<lparr>el_quit := True\<rparr>) w"
  have "w' = ?w \<or> wakeup K l ?w = Inr w'"
    using assms e by (auto simp: EventLoop_quit_def loop_at_def isInLoopThread_def Let_def split: if_splits)
  then have "loops w' = loops ?w" by (auto elim: wakeupE)
  then show ?thesis using e by simp
qed

lemma EventLoop_quit_total:
  assumes "loops w l = Some e"
  shows "\<exists>w'. EventLoop_quit K l w = Inr w'"
  using assms wakeup_total [of "upd_loop l (\<lambda>e. e\<lparr>el_quit := True\<rparr>) w" l "e\<lparr>el_quit := True\<rparr>" K]
  by (auto simp: EventLoop_quit_def loop_at_def isInLoopThread_def Let_def)

lemmas thread_inv_simps = thread_inv_def loop_lives_def published_def quit_requested_def loop_enter_def loop_leave_def

lemma thread_step_inv:
  assumes "thread_step K init otid tid l tch wch s s'" and "thread_inv tid l s" and "init_keeps_loop init l"
  shows "thread_inv tid l s'"
  using assms(1)
proof cases
  case (construct w')
  then show ?thesis using assms(2) threadFunc_init_loop [OF construct(3) assms(3)] by (auto simp: thread_inv_simps)
next
  case (quit p w')
  then show ?thesis using assms(2) EventLoop_quit_loop [OF quit(3)] by (auto simp: thread_inv_simps)
next
  case (destroy w')
  then show ?thesis using assms(2) by (auto simp: thread_inv_simps)
qed (use assms(2) in \<open>auto simp: thread_inv_simps\<close>)

lemma thread_steps_inv:
  assumes "(thread_step K init otid tid l tch wch)\<^sup>*\<^sup>* s s'" and "thread_inv tid l s" and "init_keeps_loop init l"
  shows "thread_inv tid l s'"
  using assms by (induction rule: rtranclp_induct) (auto intro: thread_step_inv)

lemma thread_start_inv: "thread_inv tid l (thread_start cb w)"
  by (simp add: thread_inv_simps thread_start_def EventLoopThread_new_def)

text \<open>The run of \<^verbatim>\<open>startLoop\<close>, up to its return and before the thread enters \<^verbatim>\<open>loop()\<close>.\<close>

definition started_sys :: "nat \<Rightarrow> ptr \<Rightarrow> nat option \<Rightarrow> 'k timer_world \<Rightarrow> 'k thread_sys" where
  "started_sys tid l cb w = \<lparr>ts_owner = OStarted, ts_thread = TEntering,
     ts_object = (EventLoopThread_new cb)\<lparr>et_thread := Some tid, et_loop := Some l\<rparr>, ts_world = w\<rparr>"

lemma startLoop_run:
  assumes "threadFunc_init K init tid cb l tch wch w = Inr w1"
  shows "(thread_step K init otid tid l tch wch)\<^sup>*\<^sup>* (thread_start cb w) (started_sys tid l cb w1)"
proof -
  let ?step = "thread_step K init otid tid l tch wch"
  let ?s0 = "thread_start cb w"
  let ?s1 = "?s0\<lparr>ts_owner := OWaiting, ts_thread := TInit, ts_object := (ts_object ?s0)\<lparr>et_thread := Some tid\<rparr>\<rparr>"
  let ?s2 = "?s1\<lparr>ts_thread := TPublishing, ts_world := w1\<rparr>"
  let ?s3 = "?s2\<lparr>ts_thread := TEntering, ts_object := (ts_object ?s2)\<lparr>et_loop := Some l\<rparr>\<rparr>"
  let ?s4 = "?s3\<lparr>ts_owner := OStarted\<rparr>"
  have "?step ?s0 ?s1" "?step ?s1 ?s2" "?step ?s2 ?s3" "?step ?s3 ?s4"
    by (rule thread_step.spawn thread_step.construct thread_step.publish thread_step.started;
        simp add: thread_start_def EventLoopThread_new_def assms)+
  then have "?step\<^sup>*\<^sup>* ?s0 ?s4" using successively_steps [of ?step ?s0 "[?s1, ?s2, ?s3, ?s4]"] by simp
  then show ?thesis by (simp add: thread_start_def started_sys_def EventLoopThread_new_def)
qed

section \<open>Properties\<close>

definition empty_world :: "sim timer_world" where
  "empty_world = \<lparr>w_kern = sim_init, w_errno = 0, w_log = [], w_thread = 1, chans = Map.empty, pollers = Map.empty,
     loops = Map.empty, timer_heap = Map.empty, numCreated = 0, tqueues = Map.empty\<rparr>"

lemma sample_thread_init:
  obtains w1 e where "threadFunc_init sim_kernel (\<lambda>_ _. Inr) 2 None 100 101 102 empty_world = Inr w1"
    and "loops w1 100 = Some e"
proof -
  have "\<not> isl (threadFunc_init sim_kernel (\<lambda>_ _. Inr) 2 None 100 101 102 empty_world)" by code_simp
  then obtain w1 where w1: "threadFunc_init sim_kernel (\<lambda>_ _. Inr) 2 None 100 101 102 empty_world = Inr w1"
    by (cases "threadFunc_init sim_kernel (\<lambda>_ _. Inr) 2 None 100 101 102 empty_world") auto
  have "init_keeps_loop (\<lambda>_ _. Inr) 100" by (auto simp: init_keeps_loop_def)
  from threadFunc_init_loop [OF w1 this] show thesis using w1 that by auto
qed



text \<open>
  C37: The destructor can hang. If it calls \<^verbatim>\<open>quit()\<close> after \<^verbatim>\<open>startLoop()\<close> returned but before the thread
  enters \<^verbatim>\<open>loop()\<close>, the flag is cleared on entry: there is a reachable state in which the owner waits in
  \<^verbatim>\<open>join()\<close> and, whatever happens next, the loop keeps running and the owner keeps waiting.
\<close>

theorem destructor_can_hang:
  "\<exists>s. (thread_step sim_kernel (\<lambda>_ _. Inr) 3 2 100 101 102)\<^sup>*\<^sup>* (thread_start None empty_world) s \<and>
     {s'. (thread_step sim_kernel (\<lambda>_ _. Inr) 3 2 100 101 102)\<^sup>*\<^sup>* s s'} \<subseteq>
     {s'. ts_owner s' = OJoining \<and> ts_thread s' = TLooping}"
proof -
  let ?step = "thread_step sim_kernel (\<lambda>_ _. Inr) 3 2 100 101 102"
  obtain w1 e where w1: "threadFunc_init sim_kernel (\<lambda>_ _. Inr) 2 None 100 101 102 empty_world = Inr w1"
    and e: "loops w1 100 = Some e" by (rule sample_thread_init)
  obtain w2 where w2: "EventLoop_quit sim_kernel 100 (as_thread 3 w1) = Inr w2"
    using EventLoop_quit_total [of "as_thread 3 w1" 100 e sim_kernel] e by auto
  let ?s4 = "started_sys 2 100 None w1"
  let ?s5 = "?s4\<lparr>ts_owner := ODestroying, ts_object := (ts_object ?s4)\<lparr>et_exiting := True\<rparr>\<rparr>"
  let ?s6 = "?s5\<lparr>ts_owner := OQuitting (et_loop (ts_object ?s5))\<rparr>"
  let ?s7 = "?s6\<lparr>ts_owner := OJoining, ts_world := w2\<rparr>"
  let ?s8 = "?s7\<lparr>ts_thread := TLooping, ts_world := loop_enter 100 (ts_world ?s7)\<rparr>"
  have "?step ?s4 ?s5" "?step ?s5 ?s6" "?step ?s6 ?s7" "?step ?s7 ?s8"
    by (rule thread_step.destructor thread_step.read_loop thread_step.quit [where p = 100] thread_step.enter;
        simp add: started_sys_def w2)+
  then have "?step\<^sup>*\<^sup>* ?s4 ?s8" using successively_steps [of ?step ?s4 "[?s5, ?s6, ?s7, ?s8]"] by simp
  with startLoop_run [OF w1, of 3] have reach: "?step\<^sup>*\<^sup>* (thread_start None empty_world) ?s8" by (rule rtranclp_trans)
  have stuck: "ts_owner s' = OJoining \<and> ts_thread s' = TLooping \<and> (\<exists>e. loops (ts_world s') 100 = Some e \<and> \<not> el_quit e)"
    if "?step\<^sup>*\<^sup>* ?s8 s'" for s'
    using that
  proof (induction rule: rtranclp_induct)
    case base
    then show ?case using EventLoop_quit_loop [OF w2] by (auto simp: loop_enter_def)
  next
    case (step y z)
    from step(2) show ?case by cases (use step(3) in \<open>auto simp: quit_requested_def\<close>)
  qed
  show ?thesis by (rule exI [of _ ?s8]) (use reach stuck in blast)
qed

end
