(* ===== verification/EventLoopThreadPool.thy ===== *)
theory EventLoopThreadPool
  imports EventLoopThread
begin

text \<open>
  \<^verbatim>\<open>src/net/EventLoopThreadPool.cc\<close>: the I/O threads of a server and the round-robin choice of the
  loop for a new connection. The pool is owned by its server, so its operations take and return its
  value. \<open>addr i\<close> gives the number of the \<open>i\<close>-th new thread and the addresses of its loop and of the
  loop's two channels. The locale \<open>round_robin\<close> is the contract of the choice.
\<close>

record thread_pool =
  tp_baseLoop :: ptr
  tp_name :: string
  tp_started :: bool
  tp_numThreads :: int
  tp_next :: int
  tp_threads :: "event_loop_thread list"
  tp_loops :: "ptr list"

definition EventLoopThreadPool_new :: "ptr \<Rightarrow> string \<Rightarrow> thread_pool" where
  "EventLoopThreadPool_new baseLoop name =
     \<lparr>tp_baseLoop = baseLoop, tp_name = name, tp_started = False, tp_numThreads = 0, tp_next = 0,
      tp_threads = [], tp_loops = []\<rparr>"

definition EventLoopThreadPool_setThreadNum :: "int \<Rightarrow> thread_pool \<Rightarrow> thread_pool res" where
  "EventLoopThreadPool_setThreadNum numThreads pool =
     rbind (assert_that ''numThreads >= 0'' (numThreads \<ge> 0) pool) (\<lambda>pool.
       Inr (pool\<lparr>tp_numThreads := numThreads\<rparr>))"

text \<open>One turn of the \<^verbatim>\<open>for\<close> loop of \<^verbatim>\<open>start\<close>.\<close>

definition start_thread ::
  "'k kernel \<Rightarrow> (nat \<Rightarrow> ptr \<Rightarrow> ('k, 'z) timer_world_scheme \<Rightarrow> ('k, 'z) timer_world_scheme res) \<Rightarrow>
   (nat \<Rightarrow> nat \<times> ptr \<times> ptr \<times> ptr) \<Rightarrow> nat option \<Rightarrow> nat \<Rightarrow> thread_pool \<times> ('k, 'z) timer_world_scheme \<Rightarrow>
   (thread_pool \<times> ('k, 'z) timer_world_scheme) res" where
  "start_thread K init addr cb i = (\<lambda>(pool, w).
     (case addr i of (tid, l, tch, wch) \<Rightarrow>
        rbind (startLoop K init tid l tch wch (EventLoopThread_new cb) w) (\<lambda>(loop, thread, w1).
          Inr (pool\<lparr>tp_threads := tp_threads pool @ [thread], tp_loops := tp_loops pool @ [loop]\<rparr>, w1))))"

definition EventLoopThreadPool_start ::
  "'k kernel \<Rightarrow> (nat \<Rightarrow> ptr \<Rightarrow> ('k, 'z) timer_world_scheme \<Rightarrow> ('k, 'z) timer_world_scheme res) \<Rightarrow>
   (nat \<Rightarrow> nat \<times> ptr \<times> ptr \<times> ptr) \<Rightarrow> nat option \<Rightarrow> thread_pool \<Rightarrow> ('k, 'z) timer_world_scheme \<Rightarrow>
   (thread_pool \<times> ('k, 'z) timer_world_scheme) res" where
  "EventLoopThreadPool_start K init addr cb pool w =
     rbind (assert_that ''!started_'' (\<not> tp_started pool) pool) (\<lambda>pool.
     rbind (assertInLoopThread (tp_baseLoop pool) w) (\<lambda>w.
     rbind (rfold (start_thread K init addr cb) [0..<nat (tp_numThreads pool)] (pool\<lparr>tp_started := True\<rparr>, w)) (\<lambda>(pool1, w1).
       if tp_numThreads pool = 0
       then (case cb of None \<Rightarrow> Inr (pool1, w1)
             | Some f \<Rightarrow> rbind (init f (tp_baseLoop pool1) w1) (\<lambda>w2. Inr (pool1, w2)))
       else Inr (pool1, w1))))"

text \<open>
  The choice itself. \<^verbatim>\<open>loops_\<close> has at most \<^verbatim>\<open>numThreads_\<close> elements, so its size is an \<^verbatim>\<open>int\<close>.
\<close>

definition pick_loop :: "thread_pool \<Rightarrow> (ptr \<times> thread_pool) res" where
  "pick_loop pool =
     (if tp_loops pool \<noteq> [] then
        if 0 \<le> tp_next pool \<and> tp_next pool < int (length (tp_loops pool)) then
          let loop = tp_loops pool ! nat (tp_next pool); next1 = tp_next pool + 1
          in Inr (loop, pool\<lparr>tp_next := if next1 \<ge> int (length (tp_loops pool)) then 0 else next1\<rparr>)
        else Inl (UndefinedBehaviour ''loops_[next_]'')
      else Inr (tp_baseLoop pool, pool))"

definition getNextLoop ::
  "thread_pool \<Rightarrow> ('k, 'z) loop_world_scheme \<Rightarrow> (ptr \<times> thread_pool) res" where
  "getNextLoop pool w = rbind (assertInLoopThread (tp_baseLoop pool) w) (\<lambda>w. pick_loop pool)"

section \<open>Round robin\<close>

text \<open>The results of \<open>n\<close> successive calls of an operation, and the state after them.\<close>

fun calls :: "('s \<Rightarrow> ('a \<times> 's) res) \<Rightarrow> nat \<Rightarrow> 's \<Rightarrow> ('a list \<times> 's) res" where
  "calls f 0 s = Inr ([], s)"
| "calls f (Suc n) s = rbind (f s) (\<lambda>(a, s1). rbind (calls f n s1) (\<lambda>(as, s2). Inr (a # as, s2)))"

locale round_robin =
  fixes pick :: "'s \<Rightarrow> ('a \<times> 's) res" and ring :: "'s \<Rightarrow> 'a list" and pos :: "'s \<Rightarrow> nat" and ok :: "'s \<Rightarrow> bool"
  assumes pos_bound: "ok s \<Longrightarrow> pos s < length (ring s)"
    and pick_step: "ok s \<Longrightarrow> \<exists>s'. pick s = Inr (ring s ! pos s, s') \<and> ok s' \<and> ring s' = ring s \<and>
      pos s' = Suc (pos s) mod length (ring s)"
begin

lemma calls_ring:
  assumes "ok s"
  shows "\<exists>s'. calls pick n s = Inr (map (\<lambda>i. ring s ! ((pos s + i) mod length (ring s))) [0..<n], s') \<and>
    ok s' \<and> ring s' = ring s \<and> pos s' = (pos s + n) mod length (ring s)"
  using assms
proof (induction n arbitrary: s)
  case 0
  then show ?case using pos_bound by simp
next
  case (Suc n)
  obtain s1 where s1: "pick s = Inr (ring s ! pos s, s1)" "ok s1" "ring s1 = ring s" "pos s1 = Suc (pos s) mod length (ring s)"
    using pick_step [OF Suc.prems] by blast
  obtain s2 where s2: "calls pick n s1 = Inr (map (\<lambda>i. ring s ! ((pos s1 + i) mod length (ring s))) [0..<n], s2)"
    "ok s2" "ring s2 = ring s" "pos s2 = (pos s1 + n) mod length (ring s)"
    using Suc.IH [OF s1(2)] s1(3) by auto
  have "map (\<lambda>i. ring s ! ((pos s1 + i) mod length (ring s))) [0..<n] =
      map (\<lambda>i. ring s ! ((pos s + Suc i) mod length (ring s))) [0..<n]"
    by (simp add: s1(4) mod_add_left_eq)
  also have "ring s ! pos s # \<dots> = map (\<lambda>i. ring s ! ((pos s + i) mod length (ring s))) [0..<Suc n]"
    using pos_bound [OF Suc.prems] by (simp add: upt_conv_Cons map_Suc_upt [symmetric] del: upt_Suc)
  finally show ?case using s1 s2 by (auto simp: mod_add_left_eq)
qed

text \<open>A full round is a rotation of the ring, so it serves every element once.\<close>

lemma full_round:
  assumes "ok s"
  shows "\<exists>s'. calls pick (length (ring s)) s = Inr (rotate (pos s) (ring s), s') \<and> ok s' \<and> pos s' = pos s"
proof -
  have "rotate (pos s) (ring s) = map (\<lambda>i. ring s ! ((pos s + i) mod length (ring s))) [0..<length (ring s)]"
    by (rule nth_equalityI) (simp_all add: nth_rotate)
  then show ?thesis using calls_ring [OF assms, of "length (ring s)"] pos_bound [OF assms] by auto
qed

end

text \<open>A pool with threads, as \<^verbatim>\<open>start\<close> leaves it.\<close>

definition pool_ok :: "thread_pool \<Rightarrow> bool" where
  "pool_ok pool \<longleftrightarrow> tp_loops pool \<noteq> [] \<and> 0 \<le> tp_next pool \<and> tp_next pool < int (length (tp_loops pool))"

interpretation pool: round_robin pick_loop tp_loops "\<lambda>pool. nat (tp_next pool)" pool_ok
proof unfold_locales
  fix p :: thread_pool
  assume ok: "pool_ok p"
  then show "nat (tp_next p) < length (tp_loops p)" by (auto simp: pool_ok_def)
  let ?n = "if tp_next p + 1 \<ge> int (length (tp_loops p)) then 0 else tp_next p + 1"
  have "nat ?n = Suc (nat (tp_next p)) mod length (tp_loops p)"
    using ok by (auto simp: pool_ok_def Suc_nat_eq_nat_zadd1 nat_less_iff)
      (metis Suc_nat_eq_nat_zadd1 add.commute mod_self nat_int of_nat_0_le_iff order_antisym zless_imp_add1_zle)
  then show "\<exists>p'. pick_loop p = Inr (tp_loops p ! nat (tp_next p), p') \<and> pool_ok p' \<and> tp_loops p' = tp_loops p \<and>
      nat (tp_next p') = Suc (nat (tp_next p)) mod length (tp_loops p)"
    using ok by (intro exI [of _ "p\<lparr>tp_next := ?n\<rparr>"]) (auto simp: pick_loop_def pool_ok_def Let_def)
qed

lemma pick_loop_base: "pick_loop p = Inr (a, p') \<Longrightarrow> tp_baseLoop p' = tp_baseLoop p"
  by (auto simp: pick_loop_def Let_def split: if_splits)

lemma calls_getNextLoop:
  assumes "loops w (tp_baseLoop p) = Some e" and "el_threadId e = w_thread w"
  shows "calls (\<lambda>p. getNextLoop p w) n p = calls pick_loop n p"
  using assms(1)
proof (induction n arbitrary: p)
  case (Suc n)
  have "getNextLoop p w = pick_loop p"
    using Suc.prems assms(2) by (simp add: getNextLoop_def assertInLoopThread_def isInLoopThread_def loop_at_def)
  then show ?case
    using Suc.IH Suc.prems pick_loop_base by (cases "pick_loop p") (auto split: prod.splits)
qed simp

section \<open>Starting\<close>

text \<open>The loop \<open>l\<close> exists and belongs to thread \<open>tid\<close>; what the initialisation callback keeps of loops.\<close>

definition loop_of_thread :: "ptr \<Rightarrow> nat \<Rightarrow> ('k, 'z) loop_world_scheme \<Rightarrow> bool" where
  "loop_of_thread l tid w \<longleftrightarrow> (\<exists>e. loops w l = Some e \<and> el_threadId e = tid)"

definition init_keeps_loops :: "(nat \<Rightarrow> ptr \<Rightarrow> ('k, 'z) timer_world_scheme \<Rightarrow> ('k, 'z) timer_world_scheme res) \<Rightarrow> bool" where
  "init_keeps_loops init \<longleftrightarrow>
     (\<forall>f l w w'. init f l w = Inr w' \<longrightarrow> w_thread w' = w_thread w \<and>
        (\<forall>l tid. loop_of_thread l tid w \<longrightarrow> loop_of_thread l tid w'))"

lemma startLoop_loop:
  assumes "startLoop K init tid l tch wch et w = Inr (loop, et', w')" and "init_keeps_loops init"
  shows "loop = l" and "loop_of_thread l tid w'" and "w_thread w' = w_thread w"
    and "k \<noteq> l \<Longrightarrow> loop_of_thread k t w \<Longrightarrow> loop_of_thread k t w'"
proof -
  obtain w1 w2 where w1: "EventLoop_new K l tch wch (as_thread tid w) = Inr w1"
    and w2: "(case et_callback et of None \<Rightarrow> Inr w1 | Some f \<Rightarrow> init f l w1) = Inr w2"
    and w': "loop = l" "w' = as_thread (w_thread w) w2"
    using assms(1) by (auto simp: startLoop_def threadFunc_init_def rbind_eq_Inr)
  obtain e where e: "loops w1 = (loops w)(l \<mapsto> e)" "el_threadId e = tid" using EventLoop_new_loop [OF w1] by auto
  have keep: "loop_of_thread k t w1 \<Longrightarrow> loop_of_thread k t w2" for k t
    using w2 assms(2) by (cases "et_callback et") (auto simp: init_keeps_loops_def)
  show "loop = l" and "w_thread w' = w_thread w" by (simp_all add: w')
  show "loop_of_thread l tid w'" using keep [of l tid] e by (auto simp: loop_of_thread_def w')
  show "k \<noteq> l \<Longrightarrow> loop_of_thread k t w \<Longrightarrow> loop_of_thread k t w'"
    using keep [of k t] e by (auto simp: loop_of_thread_def w')
qed

lemma start_thread_apply:
  "start_thread K init addr cb i (pool, w) =
     (case addr i of (tid, l, tch, wch) \<Rightarrow>
        rbind (startLoop K init tid l tch wch (EventLoopThread_new cb) w) (\<lambda>(loop, thread, w1).
          Inr (pool\<lparr>tp_threads := tp_threads pool @ [thread], tp_loops := tp_loops pool @ [loop]\<rparr>, w1)))"
  by (simp add: start_thread_def)

lemma start_threads:
  assumes "rfold (start_thread K init addr cb) is (pool, w) = Inr (pool', w')" and "init_keeps_loops init"
    and "distinct (map (\<lambda>i. fst (snd (addr i))) is)" and "set (tp_loops pool) \<inter> (\<lambda>i. fst (snd (addr i))) ` set is = {}"
  shows "tp_loops pool' = tp_loops pool @ map (\<lambda>i. fst (snd (addr i))) is \<and>
    length (tp_threads pool') = length (tp_threads pool) + length is \<and>
    tp_next pool' = tp_next pool \<and> tp_started pool' = tp_started pool \<and> tp_baseLoop pool' = tp_baseLoop pool \<and>
    w_thread w' = w_thread w \<and>
    (\<forall>i\<in>set is. loop_of_thread (fst (snd (addr i))) (fst (addr i)) w') \<and>
    (\<forall>k t. k \<notin> (\<lambda>i. fst (snd (addr i))) ` set is \<longrightarrow> loop_of_thread k t w \<longrightarrow> loop_of_thread k t w')"
  using assms(1,3,4)
proof (induction "is" arbitrary: pool w)
  case (Cons i "is")
  obtain tid l tch wch where a: "addr i = (tid, l, tch, wch)" by (cases "addr i")
  obtain loop et w1 where start: "startLoop K init tid l tch wch (EventLoopThread_new cb) w = Inr (loop, et, w1)"
    and rest: "rfold (start_thread K init addr cb) is
      (pool\<lparr>tp_threads := tp_threads pool @ [et], tp_loops := tp_loops pool @ [loop]\<rparr>, w1) = Inr (pool', w')"
    using Cons.prems(1) by (auto simp: start_thread_apply a rbind_eq_Inr)
  note s = startLoop_loop [OF start assms(2)]
  have ih: "tp_loops pool' = (tp_loops pool @ [loop]) @ map (\<lambda>i. fst (snd (addr i))) is \<and>
    length (tp_threads pool') = length (tp_threads pool @ [et]) + length is \<and>
    tp_next pool' = tp_next pool \<and> tp_started pool' = tp_started pool \<and> tp_baseLoop pool' = tp_baseLoop pool \<and>
    w_thread w' = w_thread w1 \<and>
    (\<forall>i\<in>set is. loop_of_thread (fst (snd (addr i))) (fst (addr i)) w') \<and>
    (\<forall>k t. k \<notin> (\<lambda>i. fst (snd (addr i))) ` set is \<longrightarrow> loop_of_thread k t w1 \<longrightarrow> loop_of_thread k t w')"
    using Cons.IH [OF rest] Cons.prems(2,3) s(1) a by auto
  show ?case using ih s a Cons.prems(2) by auto
qed simp

section \<open>Properties\<close>

text \<open>
  C38: Connections are spread round robin. On a started pool the \<open>i\<close>-th of any number of successive
  calls of \<^verbatim>\<open>getNextLoop\<close> in the base loop's thread returns the loop \<open>i\<close> places after \<^verbatim>\<open>next_\<close>, cyclically;
  as many calls as there are threads return every loop exactly once and restore \<^verbatim>\<open>next_\<close>.
\<close>

theorem getNextLoop_round_robin:
  assumes "pool_ok pool" and "loops w (tp_baseLoop pool) = Some e" and "el_threadId e = w_thread w"
  shows "(\<exists>pool'. calls (\<lambda>p. getNextLoop p w) n pool =
      Inr (map (\<lambda>i. tp_loops pool ! ((nat (tp_next pool) + i) mod length (tp_loops pool))) [0..<n], pool') \<and> pool_ok pool') \<and>
    (\<exists>pool'. calls (\<lambda>p. getNextLoop p w) (length (tp_loops pool)) pool =
      Inr (rotate (nat (tp_next pool)) (tp_loops pool), pool') \<and> nat (tp_next pool') = nat (tp_next pool))"
  unfolding calls_getNextLoop [OF assms(2,3)]
  using pool.calls_ring [OF assms(1), of n] pool.full_round [OF assms(1)] by blast

definition sample_pool :: thread_pool where
  "sample_pool = \<lparr>tp_baseLoop = 1, tp_name = ''pool'', tp_started = True, tp_numThreads = 3, tp_next = 2,
     tp_threads = [], tp_loops = [10, 20, 30]\<rparr>"

theorem getNextLoop_round_robin_witness:
  "\<exists>pool'. calls (\<lambda>p. getNextLoop p (sample_loop_world [] 0)) 3 sample_pool = Inr ([30, 10, 20], pool')"
proof -
  have "pool_ok sample_pool" "loops (sample_loop_world [] 0) (tp_baseLoop sample_pool) = Some sample_loop"
    "el_threadId sample_loop = w_thread (sample_loop_world [] 0)"
    by (simp_all add: pool_ok_def sample_pool_def sample_loop_world_def sample_loop_def)
  from getNextLoop_round_robin [OF this] obtain pool' where
    "calls (\<lambda>p. getNextLoop p (sample_loop_world [] 0)) (length (tp_loops sample_pool)) sample_pool =
      Inr (rotate (nat (tp_next sample_pool)) (tp_loops sample_pool), pool')" by blast
  moreover have "length (tp_loops sample_pool) = 3" by (simp add: sample_pool_def)
  moreover have "rotate (nat (tp_next sample_pool)) (tp_loops sample_pool) = [30, 10, 20]" by code_simp
  ultimately show ?thesis by metis
qed

text \<open>
  C39: \<^verbatim>\<open>start\<close> brings up the requested number of threads. If it returns, the pool is started, holds one
  loop per thread in order of creation, and every one of them is a live loop of its own thread; the
  calling thread is unchanged, and the round robin begins at the first loop.
\<close>

theorem pool_start_brings_up_threads:
  assumes "EventLoopThreadPool_start K init addr cb (pool\<lparr>tp_numThreads := int n\<rparr>) w = Inr (pool', w')"
    and "pool = EventLoopThreadPool_new base name" and "init_keeps_loops init"
    and "distinct (map (\<lambda>i. fst (snd (addr i))) [0..<n])"
  shows "tp_started pool' \<and> tp_loops pool' = map (\<lambda>i. fst (snd (addr i))) [0..<n] \<and> length (tp_threads pool') = n \<and>
    (\<forall>i<n. loop_of_thread (fst (snd (addr i))) (fst (addr i)) w') \<and> w_thread w' = w_thread w \<and>
    (0 < n \<longrightarrow> pool_ok pool')"
proof -
  let ?pool = "pool\<lparr>tp_numThreads := int n, tp_started := True\<rparr>"
  obtain pool1 w1 where run: "rfold (start_thread K init addr cb) [0..<n] (?pool, w) = Inr (pool1, w1)"
    and rest: "(if n = 0 then (case cb of None \<Rightarrow> Inr (pool1, w1)
             | Some f \<Rightarrow> rbind (init f (tp_baseLoop pool1) w1) (\<lambda>w2. Inr (pool1, w2)))
       else Inr (pool1, w1)) = Inr (pool', w')"
    using assms(1,2) by (auto simp: EventLoopThreadPool_start_def EventLoopThreadPool_new_def
        rbind_eq_Inr [of "assertInLoopThread _ _"] rbind_eq_Inr [of "assert_that _ _ _"] elim!: rbind_InrE)
  have p: "pool' = pool1" and w': "n \<noteq> 0 \<Longrightarrow> w' = w1" "w_thread w' = w_thread w1"
    using rest assms(3) by (auto simp: rbind_eq_Inr init_keeps_loops_def split: if_splits option.splits)
  show ?thesis
    using start_threads [OF run assms(3,4)] assms(2) p w'
    by (auto simp: EventLoopThreadPool_new_def pool_ok_def)
qed

definition sample_addr :: "nat \<Rightarrow> nat \<times> ptr \<times> ptr \<times> ptr" where
  "sample_addr i = (if i = 0 then (2, 20, 21, 22) else (3, 30, 31, 32))"

theorem pool_start_brings_up_threads_witness:
  "\<exists>pool' w'. EventLoopThreadPool_start sim_kernel (\<lambda>_ _. Inr) sample_addr None
      ((EventLoopThreadPool_new 1 ''pool'')\<lparr>tp_numThreads := int 1\<rparr>)
      (empty_world\<lparr>loops := [1 \<mapsto> sample_loop]\<rparr>) = Inr (pool', w') \<and>
     tp_loops pool' = [20] \<and> loop_of_thread 20 2 w'"
proof -
  let ?r = "EventLoopThreadPool_start sim_kernel (\<lambda>_ _. Inr) sample_addr None
      ((EventLoopThreadPool_new 1 ''pool'')\<lparr>tp_numThreads := int 1\<rparr>) (empty_world\<lparr>loops := [1 \<mapsto> sample_loop]\<rparr>)"
  let ?w = "empty_world\<lparr>loops := [1 \<mapsto> sample_loop]\<rparr>"
  let ?start = "startLoop sim_kernel (\<lambda>_ _. Inr) 2 20 21 22 (EventLoopThread_new None) ?w"
  have "\<not> isl ?start" by code_simp
  then obtain x where x: "?start = Inr x" by (cases ?start) auto
  have inside: "assertInLoopThread 1 ?w = Inr ?w"
    by (simp add: assertInLoopThread_def isInLoopThread_def loop_at_def sample_loop_def empty_world_def)
  obtain pool' w' where r: "?r = Inr (pool', w')"
    using x inside by (cases x) (simp add: EventLoopThreadPool_start_def EventLoopThreadPool_new_def assert_that_def
        start_thread_apply sample_addr_def del: assertInLoopThread_eq)
  have init: "init_keeps_loops (\<lambda>_ _. Inr)" by (auto simp: init_keeps_loops_def)
  have dist: "distinct (map (\<lambda>i. fst (snd (sample_addr i))) [0..<1])" by (simp add: sample_addr_def)
  note p = pool_start_brings_up_threads [OF r refl init dist]
  have "tp_loops pool' = [20]" using p by (simp add: sample_addr_def)
  moreover have "loop_of_thread 20 2 w'" using p by (auto simp: sample_addr_def dest: spec [of _ 0])
  ultimately show ?thesis using r by blast
qed

end
