(* ===== verification/TcpServer.thy ===== *)
theory TcpServer
  imports Acceptor EventLoopThreadPool "HOL-Library.AList"
begin

text \<open>
  \<^verbatim>\<open>src/net/TcpServer.cc\<close>: the server that owns an acceptor, a thread pool and the map of its live
  connections. Servers are heap objects (\<open>servers\<close>); \<^verbatim>\<open>connections_\<close> is an association list from names to
  the addresses the shared pointers hold. \<open>alloc\<close> gives the addresses \<^verbatim>\<open>new\<close> returns for a connection
  and its channel; \<open>call\<close> is what the callbacks stored in connections do.
\<close>

record tcp_server =
  sv_loop :: ptr
  sv_name :: string
  sv_acceptor :: ptr
  sv_threadPool :: thread_pool
  sv_connectionCallback :: conn_callback
  sv_messageCallback :: conn_callback
  sv_writeCompleteCallback :: conn_callback
  sv_started :: bool
  sv_nextConnId :: int
  sv_connections :: "(string \<times> ptr) list"

record 'k server_world = "'k acceptor_world" +
  servers :: "ptr \<Rightarrow> tcp_server option"

definition server_at :: "ptr \<Rightarrow> ('k, 'z) server_world_scheme \<Rightarrow> tcp_server res" where
  "server_at s w = deref ''dangling TcpServer*'' (servers w s)"

definition upd_server ::
  "ptr \<Rightarrow> (tcp_server \<Rightarrow> tcp_server) \<Rightarrow> ('k, 'z) server_world_scheme \<Rightarrow> ('k, 'z) server_world_scheme" where
  "upd_server s f w = w\<lparr>servers := (servers w)(s := map_option f (servers w s))\<rparr>"

definition INT_MAX :: int where
  "INT_MAX = 2 ^ 31 - 1"

text \<open>The address stays zeroed when \<^verbatim>\<open>getsockname\<close> fails.\<close>

definition localAddressOf ::
  "'k kernel \<Rightarrow> fd \<Rightarrow> ('k, 'z) world_scheme \<Rightarrow> sockaddr_in \<times> ('k, 'z) world_scheme" where
  "localAddressOf K sockfd w =
     (case syscall (k_getsockname K sockfd) w of
        (Inl e, w1) \<Rightarrow> (\<lparr>sin_family = 0, sin_port = 0, sin_addr = 0\<rparr>, LOG_ERROR ''getsockname failed'' w1)
      | (Inr addr, w1) \<Rightarrow> (addr, w1))"

text \<open>The constructor; \<open>a\<close> and \<open>ch\<close> are the addresses of the acceptor and of its channel.\<close>

definition TcpServer_new ::
  "'k kernel \<Rightarrow> ptr \<Rightarrow> ptr \<Rightarrow> ptr \<Rightarrow> ptr \<Rightarrow> sockaddr_in \<Rightarrow> string \<Rightarrow> ('k, 'z) server_world_scheme \<Rightarrow>
     ('k, 'z) server_world_scheme res" where
  "TcpServer_new K s a ch loop listenAddr name w =
     rbind (Acceptor_new K a ch loop listenAddr True w) (\<lambda>w1.
       Inr (upd_acceptor a (setNewConnectionCallback (nc_newConnection s))
         (w1\<lparr>servers := (servers w1)(s \<mapsto> \<lparr>sv_loop = loop, sv_name = name, sv_acceptor = a,
            sv_threadPool = EventLoopThreadPool_new loop name, sv_connectionCallback = cc_empty,
            sv_messageCallback = cc_empty, sv_writeCompleteCallback = cc_empty, sv_started = False,
            sv_nextConnId = 1, sv_connections = []\<rparr>)\<rparr>)))"

definition TcpServer_setThreadNum ::
  "int \<Rightarrow> ptr \<Rightarrow> ('k, 'z) server_world_scheme \<Rightarrow> ('k, 'z) server_world_scheme res" where
  "TcpServer_setThreadNum numThreads s w =
     rbind (server_at s w) (\<lambda>sv.
     rbind (EventLoopThreadPool_setThreadNum numThreads (sv_threadPool sv)) (\<lambda>pool.
       Inr (upd_server s (\<lambda>sv. sv\<lparr>sv_threadPool := pool\<rparr>) w)))"

definition TcpServer_setConnectionCallback :: "conn_callback \<Rightarrow> tcp_server \<Rightarrow> tcp_server" where
  "TcpServer_setConnectionCallback cb sv = sv\<lparr>sv_connectionCallback := cb\<rparr>"

definition TcpServer_setMessageCallback :: "conn_callback \<Rightarrow> tcp_server \<Rightarrow> tcp_server" where
  "TcpServer_setMessageCallback cb sv = sv\<lparr>sv_messageCallback := cb\<rparr>"

definition TcpServer_setWriteCompleteCallback :: "conn_callback \<Rightarrow> tcp_server \<Rightarrow> tcp_server" where
  "TcpServer_setWriteCompleteCallback cb sv = sv\<lparr>sv_writeCompleteCallback := cb\<rparr>"

text \<open>The lambda \<^verbatim>\<open>start\<close> hands to \<^verbatim>\<open>runInLoop\<close>.\<close>

definition server_listen ::
  "'k kernel \<Rightarrow> ptr \<Rightarrow> ('k, 'z) server_world_scheme \<Rightarrow> ('k, 'z) server_world_scheme res" where
  "server_listen K s w = rbind (server_at s w) (\<lambda>sv. Acceptor_listen K (sv_acceptor sv) w)"

definition TcpServer_start ::
  "'k kernel \<Rightarrow> (nat \<Rightarrow> nat \<times> ptr \<times> ptr \<times> ptr) \<Rightarrow> ptr \<Rightarrow> ('k, 'z) server_world_scheme \<Rightarrow>
     ('k, 'z) server_world_scheme res" where
  "TcpServer_start K addr s w =
     rbind (server_at s w) (\<lambda>sv.
       if \<not> sv_started sv then
         rbind (EventLoopThreadPool_start K (\<lambda>_ _. Inr) addr None (sv_threadPool sv)
                  (upd_server s (\<lambda>sv. sv\<lparr>sv_started := True\<rparr>) w)) (\<lambda>(pool, w1).
           runInLoop K (sv_loop sv) (task_listen s) (server_listen K s)
             (upd_server s (\<lambda>sv. sv\<lparr>sv_threadPool := pool\<rparr>) w1))
       else Inr w)"

definition connection_name :: "tcp_server \<Rightarrow> string" where
  "connection_name sv = sv_name sv @ ''-'' @ to_string (sv_nextConnId sv)"

text \<open>The setters \<^verbatim>\<open>newConnection\<close> calls on the connection it made.\<close>

definition install_callbacks :: "ptr \<Rightarrow> tcp_server \<Rightarrow> tcp_connection \<Rightarrow> tcp_connection" where
  "install_callbacks s sv t =
     TcpConnection_setCloseCallback (cc_removeConnection s)
       (setWriteCompleteCallback (sv_writeCompleteCallback sv)
         (setMessageCallback (sv_messageCallback sv)
           (setConnectionCallback (sv_connectionCallback sv) t)))"

text \<open>
  \<^verbatim>\<open>newConnection\<close> up to the call of \<^verbatim>\<open>runInLoop\<close>: the chosen loop, the new connection, the state.
  \<^verbatim>\<open>nextConnId_++\<close> at INT_MAX is undefined.
\<close>

definition make_connection ::
  "'k kernel \<Rightarrow> (('k, 'z) server_world_scheme \<Rightarrow> ptr \<times> ptr) \<Rightarrow> ptr \<Rightarrow> tcp_server \<Rightarrow> fd \<Rightarrow> sockaddr_in \<Rightarrow>
   ('k, 'z) server_world_scheme \<Rightarrow> (ptr \<times> ptr \<times> ('k, 'z) server_world_scheme) res" where
  "make_connection K alloc s sv sockfd peerAddr w =
     (if sv_nextConnId sv = INT_MAX then Inl (UndefinedBehaviour ''nextConnId_++'')
      else
        (case localAddressOf K sockfd w of (localAddr, w1) \<Rightarrow>
           rbind (getNextLoop (sv_threadPool sv) w1) (\<lambda>(ioLoop, pool).
             let w2 = upd_server s (\<lambda>v. v\<lparr>sv_nextConnId := sv_nextConnId sv + 1, sv_threadPool := pool\<rparr>) w1
             in (case alloc w2 of (p, ch) \<Rightarrow>
                  rbind (TcpConnection_new K p ch ioLoop (connection_name sv) sockfd localAddr peerAddr w2) (\<lambda>w3.
                    Inr (ioLoop, p, upd_conn p (install_callbacks s sv)
                      (upd_server s (\<lambda>v. v\<lparr>sv_connections := AList.update (connection_name sv) p (sv_connections v)\<rparr>) w3)))))))"

definition newConnection ::
  "'k kernel \<Rightarrow> (conn_callback \<Rightarrow> ptr \<Rightarrow> ('k, 'z) server_world_scheme \<Rightarrow> ('k, 'z) server_world_scheme res) \<Rightarrow>
   (('k, 'z) server_world_scheme \<Rightarrow> ptr \<times> ptr) \<Rightarrow> ptr \<Rightarrow> fd \<Rightarrow> sockaddr_in \<Rightarrow>
   ('k, 'z) server_world_scheme \<Rightarrow> ('k, 'z) server_world_scheme res" where
  "newConnection K call alloc s sockfd peerAddr w =
     rbind (server_at s w) (\<lambda>sv.
     rbind (assertInLoopThread (sv_loop sv) w) (\<lambda>w.
     rbind (make_connection K alloc s sv sockfd peerAddr w) (\<lambda>(ioLoop, p, w1).
       runInLoop K ioLoop (task_connectEstablished p) (connectEstablished K call p) w1)))"

definition removeConnectionInLoop ::
  "'k kernel \<Rightarrow> ptr \<Rightarrow> ptr \<Rightarrow> ('k, 'z) server_world_scheme \<Rightarrow> ('k, 'z) server_world_scheme res" where
  "removeConnectionInLoop K s p w =
     rbind (server_at s w) (\<lambda>sv.
     rbind (assertInLoopThread (sv_loop sv) w) (\<lambda>w.
     rbind (conn_at p w) (\<lambda>t.
       queueInLoop K (tc_loop t) (task_connectDestroyed p)
         (upd_server s (\<lambda>sv. sv\<lparr>sv_connections := AList.delete (tc_name t) (sv_connections sv)\<rparr>) w))))"

definition removeConnection ::
  "'k kernel \<Rightarrow> ptr \<Rightarrow> ptr \<Rightarrow> ('k, 'z) server_world_scheme \<Rightarrow> ('k, 'z) server_world_scheme res" where
  "removeConnection K s p w =
     rbind (server_at s w) (\<lambda>sv.
       runInLoop K (sv_loop sv) (task_removeConnectionInLoop s p) (removeConnectionInLoop K s p) w)"

section \<open>The invariant\<close>

text \<open>
  Every entry of \<^verbatim>\<open>connections_\<close> is filed under the connection's own name, calls back this server when
  it closes, and has an id below \<^verbatim>\<open>nextConnId_\<close>; every name is the server's name and its id.
\<close>

definition server_ok :: "('k, 'z) server_world_scheme \<Rightarrow> ptr \<Rightarrow> bool" where
  "server_ok w s \<longleftrightarrow>
     (\<exists>sv. servers w s = Some sv \<and> 1 \<le> sv_nextConnId sv \<and> sv_nextConnId sv \<le> INT_MAX \<and>
        distinct (map fst (sv_connections sv)) \<and> distinct (map snd (sv_connections sv)) \<and>
        (\<forall>(name, p) \<in> set (sv_connections sv).
           (\<exists>t. conns w p = Some t \<and> tc_name t = name \<and> tc_closeCallback t = Some (cc_removeConnection s)) \<and>
           (\<exists>id. 1 \<le> id \<and> id < sv_nextConnId sv \<and> name = sv_name sv @ ''-'' @ to_string id)))"

section \<open>Lemmas\<close>

lemma upd_server_simps [simp]:
  "servers (upd_server s f w) = (servers w)(s := map_option f (servers w s))"
  "acceptors (upd_server s f w) = acceptors w" "conns (upd_server s f w) = conns w"
  "chans (upd_server s f w) = chans w" "pollers (upd_server s f w) = pollers w"
  "loops (upd_server s f w) = loops w" "w_kern (upd_server s f w) = w_kern w"
  "w_thread (upd_server s f w) = w_thread w"
  by (simp_all add: upd_server_def)

lemma servers_frame_simps [simp]:
  "servers (upd_conn p f w) = servers w" "acceptors (upd_conn p f w) = acceptors w"
  "servers (upd_loop l g w) = servers w" "acceptors (upd_loop l g w) = acceptors w" "conns (upd_loop l g w) = conns w"
  "servers (upd_acceptor a h w) = servers w" "servers (LOG_ERROR m w) = servers w" "acceptors (LOG_ERROR m w) = acceptors w"
  by (simp_all add: upd_conn_def upd_loop_def upd_acceptor_def log_defs)

lemma reactor_frame_servers:
  "reactor_frame w w' \<Longrightarrow> servers w' = servers w \<and> acceptors w' = acceptors w \<and> conns w' = conns w \<and> loops w' = loops w"
  by (cases w; cases w') (simp add: reactor_frame_def)

lemma world_frame_servers:
  assumes "world_frame w w'"
  shows "servers w' = servers w" "acceptors w' = acceptors w" "conns w' = conns w" "loops w' = loops w"
    "chans w' = chans w" "pollers w' = pollers w" "w_thread w' = w_thread w"
  using assms by (cases w; cases w'; simp add: world_frame_def)+

lemma queueInLoop_servers:
  assumes "queueInLoop K l cb w = Inr w'"
  shows "servers w' = servers w" "acceptors w' = acceptors w" "conns w' = conns w"
  using queueInLoop_more [OF assms] by (cases w; cases w'; simp)+

lemma localAddressOf_frame: "localAddressOf K f w = (a, w') \<Longrightarrow> world_frame w w'"
  by (auto simp: localAddressOf_def split: prod.splits sum.splits dest!: syscall_frame)

text \<open>The connection \<^verbatim>\<open>newConnection\<close> builds, before \<^verbatim>\<open>connectEstablished\<close>.\<close>

definition made_connection :: "ptr \<Rightarrow> tcp_server \<Rightarrow> ptr \<Rightarrow> ptr \<Rightarrow> fd \<Rightarrow> buffer \<Rightarrow> buffer \<Rightarrow> tcp_connection \<Rightarrow> bool" where
  "made_connection s sv ch ioLoop sockfd ib ob t \<longleftrightarrow>
     tc_loop t = ioLoop \<and> tc_name t = connection_name sv \<and> tc_state t = kConnecting \<and> tc_socket t = Socket sockfd \<and>
     tc_channel t = ch \<and> tc_inputBuffer t = ib \<and> tc_outputBuffer t = ob \<and>
     tc_connectionCallback t = Some (sv_connectionCallback sv) \<and> tc_messageCallback t = Some (sv_messageCallback sv) \<and>
     tc_writeCompleteCallback t = Some (sv_writeCompleteCallback sv) \<and>
     tc_closeCallback t = Some (cc_removeConnection s)"

lemma TcpConnection_newE:
  assumes "TcpConnection_new K p ch loop name sockfd la pa w = Inr w'"
  obtains t ib ob where "Buffer_new kInitialSize = Inr ib" and "Buffer_new kInitialSize = Inr ob"
    and "t = \<lparr>tc_loop = loop, tc_name = name, tc_state = kConnecting, tc_socket = Socket sockfd,
             tc_channel = ch, tc_localAddr = la, tc_peerAddr = pa, tc_inputBuffer = ib, tc_outputBuffer = ob,
             tc_connectionCallback = None, tc_messageCallback = None, tc_closeCallback = None, tc_writeCompleteCallback = None\<rparr>"
    and "world_frame (w\<lparr>chans := (chans w)(ch \<mapsto> TcpConnection_channel p loop sockfd), conns := (conns w)(p \<mapsto> t)\<rparr>) w'"
    and "w' = setKeepAlive K (Socket sockfd) True
      (w\<lparr>chans := (chans w)(ch \<mapsto> TcpConnection_channel p loop sockfd), conns := (conns w)(p \<mapsto> t)\<rparr>)"
  using assms
  by (auto simp: TcpConnection_new_def rbind_eq_Inr Let_def setKeepAlive_def setSocketOption_frame)

text \<open>Where \<^verbatim>\<open>new\<close> puts the connection and its channel is free memory.\<close>

definition alloc_fresh ::
  "(('k, 'z) server_world_scheme \<Rightarrow> ptr \<times> ptr) \<Rightarrow> ('k, 'z) server_world_scheme \<Rightarrow> bool" where
  "alloc_fresh alloc w \<longleftrightarrow>
     (\<forall>w'. conns w' = conns w \<longrightarrow> chans w' = chans w \<longrightarrow>
        conns w (fst (alloc w')) = None \<and> chans w (snd (alloc w')) = None)"

lemma make_connectionE:
  assumes make: "make_connection K alloc s sv sockfd peerAddr w = Inr (ioLoop, p, w5)"
    and sv: "servers w s = Some sv" and leave: "socket_calls_leave K v" and fresh: "alloc_fresh alloc w"
  obtains pool ch t ib ob where "sv_nextConnId sv \<noteq> INT_MAX"
    and "pick_loop (sv_threadPool sv) = Inr (ioLoop, pool)"
    and "Buffer_new kInitialSize = Inr ib" and "Buffer_new kInitialSize = Inr ob"
    and "made_connection s sv ch ioLoop sockfd ib ob t"
    and "servers w5 = (servers w)(s \<mapsto> sv\<lparr>sv_nextConnId := sv_nextConnId sv + 1, sv_threadPool := pool,
           sv_connections := AList.update (connection_name sv) p (sv_connections sv)\<rparr>)"
    and "conns w5 = (conns w)(p \<mapsto> t)" and "chans w5 = (chans w)(ch \<mapsto> TcpConnection_channel p ioLoop sockfd)"
    and "pollers w5 = pollers w" and "loops w5 = loops w" and "w_thread w5 = w_thread w" and "acceptors w5 = acceptors w"
    and "v (w_kern w5) = v (w_kern w)" and "conns w p = None" and "chans w ch = None"
proof -
  obtain la w1 where la: "localAddressOf K sockfd w = (la, w1)" using surj_pair by metis
  note f1 = world_frame_servers [OF localAddressOf_frame [OF la]]
  have v1: "v (w_kern w1) = v (w_kern w)"
    using la by (auto simp: localAddressOf_def split: prod.splits sum.splits
        dest!: syscall_leaves [OF socket_calls_leaveD(6) [OF leave]])
  have id: "sv_nextConnId sv \<noteq> INT_MAX" using make by (auto simp: make_connection_def)
  obtain io pool where pool0: "getNextLoop (sv_threadPool sv) w1 = Inr (io, pool)"
    using make la id by (auto simp: make_connection_def elim!: rbind_InrE)
  let ?w2 = "upd_server s (\<lambda>v. v\<lparr>sv_nextConnId := sv_nextConnId sv + 1, sv_threadPool := pool\<rparr>) w1"
  obtain q ch where al0: "alloc ?w2 = (q, ch)" using surj_pair by metis
  obtain w3 where w30: "TcpConnection_new K q ch io (connection_name sv) sockfd la peerAddr ?w2 = Inr w3"
    and eq: "io = ioLoop" "q = p" and w5: "w5 = upd_conn p (install_callbacks s sv)
      (upd_server s (\<lambda>v. v\<lparr>sv_connections := AList.update (connection_name sv) p (sv_connections v)\<rparr>) w3)"
    using make la id pool0 al0 by (auto simp: make_connection_def Let_def elim!: rbind_InrE)
  note pool = pool0 [unfolded eq] and al = al0 [unfolded eq] and w3 = w30 [unfolded eq]
  have free: "conns w p = None" "chans w ch = None"
    using fresh [unfolded alloc_fresh_def, rule_format, of ?w2] al f1 by simp_all
  show thesis
  proof (rule TcpConnection_newE [OF w3], goal_cases)
    case (1 t ib ob)
    note f = world_frame_servers [OF 1(4)]
    have v3: "v (w_kern w3) = v (w_kern w)"
      unfolding 1(5) setKeepAlive_def using v1 socket_calls_leaveD(7) [OF leave]
      by (simp add: setSocketOption_leaves [of K v])
    have pick: "pick_loop (sv_threadPool sv) = Inr (ioLoop, pool)"
      using pool by (auto simp: getNextLoop_def rbind_eq_Inr)
    show thesis
      by (rule that [of pool ib ob ch "install_callbacks s sv t"])
        (use id pick 1(1-3) f f1 w5 v3 sv free in \<open>simp_all add: made_connection_def
          install_callbacks_def TcpConnection_setCloseCallback_def setWriteCompleteCallback_def setMessageCallback_def
          setConnectionCallback_def\<close>)
  qed
qed

lemma connection_name_fresh:
  assumes "server_ok w s" and "servers w s = Some sv"
  shows "map_of (sv_connections sv) (connection_name sv) = None"
proof -
  have "connection_name sv \<noteq> name" if "(name, p) \<in> set (sv_connections sv)" for name p
    using assms that unfolding server_ok_def connection_name_def by fastforce
  then show ?thesis unfolding map_of_eq_None_iff by (metis imageE prod.collapse)
qed

text \<open>Only the names and close callbacks of the listed connections matter to the server.\<close>

lemma server_ok_cong:
  assumes "server_ok w s" and "servers w' s = servers w s"
    and "\<And>p t. conns w p = Some t \<Longrightarrow> \<exists>t'. conns w' p = Some t' \<and> tc_name t' = tc_name t \<and> tc_closeCallback t' = tc_closeCallback t"
  shows "server_ok w' s"
  using assms(1,2) unfolding server_ok_def by (elim exE conjE) (fastforce dest: assms(3))

lemma server_ok_upd_conn:
  assumes "server_ok w s" and "\<And>t. tc_name (f t) = tc_name t \<and> tc_closeCallback (f t) = tc_closeCallback t"
  shows "server_ok (upd_conn p f w) s"
  by (rule server_ok_cong [OF assms(1)]) (use assms(2) in auto)

lemma server_ok_reactor_frame: "server_ok w s \<Longrightarrow> reactor_frame w w' \<Longrightarrow> server_ok w' s"
  by (rule server_ok_cong [of w]) (simp_all add: reactor_frame_servers)

lemma server_ok_world_frame: "server_ok w s \<Longrightarrow> world_frame w w' \<Longrightarrow> server_ok w' s"
  by (rule server_ok_cong [of w]) (simp_all add: world_frame_servers)

lemma server_ok_queue: "queueInLoop K l cb w = Inr w' \<Longrightarrow> server_ok w s \<Longrightarrow> server_ok w' s"
  by (rule server_ok_cong [of w]) (simp_all add: queueInLoop_servers)

lemma runInLoop_cases:
  assumes "runInLoop K l cb body w = Inr w'"
  obtains "body w = Inr w'" | "queueInLoop K l cb w = Inr w'"
  using assms by (auto simp: runInLoop_def rbind_eq_Inr split: if_splits)

lemma alist_update_new: "map_of al k = None \<Longrightarrow> AList.update k v al = al @ [(k, v)]"
  by (induction al) (auto split: if_splits)

lemma make_connection_server_ok:
  assumes make: "make_connection K alloc s sv sockfd peerAddr w = Inr (ioLoop, p, w5)"
    and ok: "server_ok w s" and sv: "servers w s = Some sv" and fresh: "alloc_fresh alloc w"
  shows "server_ok w5 s"
proof -
  have leave: "socket_calls_leave K (\<lambda>_. ())" by (simp add: socket_calls_leave_def leaves_def)
  show ?thesis
  proof (rule make_connectionE [OF make sv leave fresh], goal_cases)
    case (1 pool ch t ib ob)
    let ?name = "connection_name sv"
    have new: "map_of (sv_connections sv) ?name = None" by (rule connection_name_fresh [OF ok sv])
    then have upd: "AList.update ?name p (sv_connections sv) = sv_connections sv @ [(?name, p)]"
      by (rule alist_update_new)
    have old: "1 \<le> sv_nextConnId sv" "sv_nextConnId sv \<le> INT_MAX" "distinct (map fst (sv_connections sv))"
      "distinct (map snd (sv_connections sv))"
      "\<forall>(name, q) \<in> set (sv_connections sv). (\<exists>t. conns w q = Some t \<and> tc_name t = name \<and> tc_closeCallback t = Some (cc_removeConnection s)) \<and>
         (\<exists>id. 1 \<le> id \<and> id < sv_nextConnId sv \<and> name = sv_name sv @ ''-'' @ to_string id)"
      using ok sv by (auto simp: server_ok_def)
    have "p \<notin> snd ` set (sv_connections sv)" using old(5) 1(14) by force
    moreover have "?name \<notin> fst ` set (sv_connections sv)" using new by (simp add: map_of_eq_None_iff)
    moreover have "\<forall>(name, q) \<in> set (sv_connections sv). (\<exists>t. conns w5 q = Some t \<and> tc_name t = name \<and> tc_closeCallback t = Some (cc_removeConnection s)) \<and>
         (\<exists>id. 1 \<le> id \<and> id < sv_nextConnId sv + 1 \<and> name = sv_name sv @ ''-'' @ to_string id)"
      using old(5) 1(7,14) by fastforce
    moreover have "\<exists>id. 1 \<le> id \<and> id < sv_nextConnId sv + 1 \<and> ?name = sv_name sv @ ''-'' @ to_string id"
      using old(1) by (intro exI [of _ "sv_nextConnId sv"]) (simp add: connection_name_def)
    ultimately show ?case
      using 1(1,5,6,7) old(1-4) by (auto simp: server_ok_def upd made_connection_def)
  qed
qed

lemma server_ok_call:
  "(\<And>cb p. keeps (\<lambda>w. server_ok w s) (call cb p)) \<Longrightarrow> conn_call call cb p w = Inr w' \<Longrightarrow> server_ok w s \<Longrightarrow> server_ok w' s"
  by (cases cb) (auto simp: conn_call_def keeps_def)

lemma setState_server: "tc_name (setState st t) = tc_name t \<and> tc_closeCallback (setState st t) = tc_closeCallback t"
  by (simp add: setState_def)

lemma connectEstablished_server_ok:
  assumes "connectEstablished K call p w = Inr w'" and "server_ok w s"
    and "\<And>cb p. keeps (\<lambda>w. server_ok w s) (call cb p)"
  shows "server_ok w' s"
proof -
  obtain w1 and t :: tcp_connection where w1: "enableReading K (tc_channel t) (upd_conn p (setState kConnected) w) = Inr w1"
    and cb: "conn_call call (tc_connectionCallback t) p w1 = Inr w'"
    using assms(1) by (auto simp: connectEstablished_def rbind_eq_Inr [of "assertInLoopThread _ _"] elim!: rbind_InrE)
  have "server_ok w1 s"
    by (rule server_ok_reactor_frame [OF server_ok_upd_conn [OF assms(2)] Channel_update_frame(1) [OF w1 [unfolded enableReading_def]]])
      (rule setState_server)
  then show ?thesis by (rule server_ok_call [OF assms(3) cb])
qed

lemma removeConnectionInLoop_eq:
  assumes "removeConnectionInLoop K s p w = Inr w'"
  obtains sv t w1 where "servers w s = Some sv" and "conns w p = Some t"
    and "w1 = upd_server s (\<lambda>v. v\<lparr>sv_connections := AList.delete (tc_name t) (sv_connections v)\<rparr>) w"
    and "queueInLoop K (tc_loop t) (task_connectDestroyed p) w1 = Inr w'"
  using assms
  by (auto simp: removeConnectionInLoop_def server_at_def conn_at_def rbind_eq_Inr [of "assertInLoopThread _ _"] elim!: rbind_InrE)

lemma removeConnectionInLoop_server_ok:
  assumes "removeConnectionInLoop K s p w = Inr w'" and "server_ok w s"
  shows "server_ok w' s"
proof (rule removeConnectionInLoop_eq [OF assms(1)])
  fix sv t w1
  assume sv: "servers w s = Some sv" and w1: "w1 = upd_server s (\<lambda>v. v\<lparr>sv_connections := AList.delete (tc_name t) (sv_connections v)\<rparr>) w"
    and q: "queueInLoop K (tc_loop t) (task_connectDestroyed p) w1 = Inr w'"
  have sub: "set (AList.delete k al) \<subseteq> set al" for k and al :: "(string \<times> ptr) list"
    by (auto simp: AList.delete_eq)
  have "distinct (map fst (AList.delete k al))" if "distinct (map fst al)" for k and al :: "(string \<times> ptr) list"
    using that by (simp add: AList.delete_eq distinct_map_filter)
  moreover have "distinct (map snd (AList.delete k al))" if "distinct (map snd al)" for k and al :: "(string \<times> ptr) list"
    using that by (simp add: AList.delete_eq distinct_map_filter)
  ultimately have "server_ok w1 s"
    using assms(2) sv sub [of "tc_name t" "sv_connections sv"] by (auto simp: server_ok_def w1)
  then show ?thesis by (rule server_ok_queue [OF q])
qed

lemma removeConnectionInLoop_ok:
  assumes "server_ok w s" and "servers w s = Some sv" and "(name, p) \<in> set (sv_connections sv)" and "conns w p = Some t"
    and "loops w (sv_loop sv) = Some e0" and "el_threadId e0 = w_thread w" and "loops w (tc_loop t) = Some e"
  shows "\<exists>w'. removeConnectionInLoop K s p w = Inr w' \<and> conns w' = conns w \<and> chans w' = chans w \<and>
    servers w' = (servers w)(s \<mapsto> sv\<lparr>sv_connections := filter (\<lambda>x. x \<noteq> (name, p)) (sv_connections sv)\<rparr>) \<and>
    loops w' = (loops w)(tc_loop t \<mapsto> e\<lparr>el_pendingFunctors := el_pendingFunctors e @ [task_connectDestroyed p]\<rparr>)"
proof -
  have name: "tc_name t = name" and dist: "distinct (map fst (sv_connections sv))"
    using assms(1-4) by (auto simp: server_ok_def)
  have del: "AList.delete name (sv_connections sv) = filter (\<lambda>x. x \<noteq> (name, p)) (sv_connections sv)"
    unfolding AList.delete_eq
  proof (rule filter_cong [OF refl])
    fix x
    assume "x \<in> set (sv_connections sv)"
    then show "(case x of (k, _) \<Rightarrow> name \<noteq> k) = (x \<noteq> (name, p))"
      using dist assms(3) by (auto dest: eq_key_imp_eq_value)
  qed
  let ?w1 = "upd_server s (\<lambda>v. v\<lparr>sv_connections := AList.delete (tc_name t) (sv_connections v)\<rparr>) w"
  obtain w' where q: "queueInLoop K (tc_loop t) (task_connectDestroyed p) ?w1 = Inr w'"
    using queueInLoop_total [of ?w1 "tc_loop t" e] assms(7) by auto
  have "removeConnectionInLoop K s p w = Inr w'"
    using q assms(2,4-6) by (simp add: removeConnectionInLoop_def server_at_def conn_at_def assertInLoopThread_def
        isInLoopThread_def loop_at_def)
  moreover have "loops w' = (loops w)(tc_loop t \<mapsto> e\<lparr>el_pendingFunctors := el_pendingFunctors e @ [task_connectDestroyed p]\<rparr>) \<and>
      chans w' = chans w"
    by (rule queueInLoopE [OF q]) (use assms(7) in simp)
  ultimately show ?thesis
    using queueInLoop_servers [OF q] assms(2) name del by (intro exI [of _ w']) simp
qed

lemma make_connection_total:
  assumes "servers w s = Some sv" and "sv_nextConnId sv \<noteq> INT_MAX" and "pick_loop (sv_threadPool sv) = Inr (ioLoop, pool)"
    and "loops w (tp_baseLoop (sv_threadPool sv)) = Some e" and "el_threadId e = w_thread w"
  shows "\<exists>p w5. make_connection K alloc s sv sockfd peerAddr w = Inr (ioLoop, p, w5)"
proof -
  obtain la w1 where la: "localAddressOf K sockfd w = (la, w1)" using surj_pair by metis
  note f1 = world_frame_servers [OF localAddressOf_frame [OF la]]
  have next1: "getNextLoop (sv_threadPool sv) w1 = Inr (ioLoop, pool)"
    using assms(3-5) f1 by (simp add: getNextLoop_def assertInLoopThread_def isInLoopThread_def loop_at_def)
  obtain b where "Buffer_new kInitialSize = Inr b"
    by (rule Buffer_new_ok [of kInitialSize]) (auto simp: kInitialSize_def max_object_size_def)
  then show ?thesis
    using assms(2) la next1 by (simp add: make_connection_def Let_def TcpConnection_new_def split: prod.splits)
qed

text \<open>The new channel is alone on its fd and unknown to the pollers.\<close>

lemma made_channel_ok:
  assumes ok: "reactor_ok interest w" and fd: "\<And>q c. chans w q = Some c \<Longrightarrow> chan_fd c \<noteq> sockfd"
    and new: "chans w ch = None" and w5: "chans w5 = (chans w)(ch \<mapsto> TcpConnection_channel p ioLoop sockfd)"
      "pollers w5 = pollers w" "interest (w_kern w5) = interest (w_kern w)"
  shows "reactor_ok interest w5" and "fd_private w5 ch"
proof -
  have c: "chan_fd (TcpConnection_channel p ioLoop sockfd) = sockfd" "chan_index (TcpConnection_channel p ioLoop sockfd) = kNew"
    by (simp_all add: TcpConnection_channel_def Channel_new_def setErrorCallback_def setCloseCallback_def
        setWriteCallback_def setReadCallback_def)
  have "reactor_ok interest (w\<lparr>chans := (chans w)(ch \<mapsto> TcpConnection_channel p ioLoop sockfd)\<rparr>)"
    by (rule reactor_ok_unbound [OF ok]) (use new c in \<open>simp_all add: enrolled_def\<close>)
  then show "reactor_ok interest w5" by (rule reactor_ok_kern) (use w5 in simp_all)
  show "fd_private w5 ch" unfolding fd_private_def using w5(1) fd c by auto
qed

lemma TcpConnection_channel_simps [simp]:
  "chan_loop (TcpConnection_channel p l f) = Some l" "chan_fd (TcpConnection_channel p l f) = f"
  "chan_index (TcpConnection_channel p l f) = kNew" "chan_events (TcpConnection_channel p l f) = 0"
  by (simp_all add: TcpConnection_channel_def Channel_new_def setErrorCallback_def setCloseCallback_def
      setWriteCallback_def setReadCallback_def kNoneEvent_def)

text \<open>A callback that logs or makes system calls which do not change what epoll watches.\<close>

definition quiet ::
  "('k \<Rightarrow> fd \<Rightarrow> fd \<Rightarrow> (32 word \<times> ptr) option) \<Rightarrow>
   (('k, 'z) server_world_scheme \<Rightarrow> ('k, 'z) server_world_scheme res) \<Rightarrow> bool" where
  "quiet interest f \<longleftrightarrow>
     (\<forall>w. \<exists>w'. f w = Inr w' \<and> world_frame w w' \<and> interest (w_kern w') = interest (w_kern w))"

lemma conn_call_quiet:
  assumes "\<And>f. cb = Some f \<Longrightarrow> quiet interest (call f p)"
  shows "\<exists>w'. conn_call call cb p w = Inr w' \<and> world_frame w w' \<and> interest (w_kern w') = interest (w_kern w)"
proof (cases cb)
  case (Some f)
  then show ?thesis using assms [OF Some] by (simp add: quiet_def conn_call_def)
qed (simp add: conn_call_def)

text \<open>\<^verbatim>\<open>connectEstablished\<close> of a connection whose channel is not registered yet.\<close>

lemma connectEstablished_watches:
  assumes spec: "epoll_spec K interest" and total: "epoll_total K interest"
    and ok: "reactor_ok interest w" and fd: "fd_private w ch"
    and t: "conns w p = Some t" "tc_channel t = ch" and c: "chans w ch = Some (TcpConnection_channel p (tc_loop t) f)"
    and po: "pollers w (tc_loop t) \<noteq> None" and e: "loops w (tc_loop t) = Some e" "el_threadId e = w_thread w"
    and quiet: "\<And>cb. tc_connectionCallback t = Some cb \<Longrightarrow> quiet interest (call cb p)"
  shows "\<exists>w'. connectEstablished K call p w = Inr w' \<and> reactor_ok interest w' \<and>
    conns w' = (conns w)(p \<mapsto> setState kConnected t) \<and> servers w' = servers w \<and>
    watched_mask interest w' ch = Some kReadEvent"
proof -
  let ?w = "upd_conn p (setState kConnected) w" and ?c = "TcpConnection_channel p (tc_loop t) f"
  have c': "chans ?w ch = Some ?c" using c by simp
  have ok': "reactor_ok interest ?w" by (rule reactor_ok_kern [OF ok]) simp_all
  have may: "may_register ?w ch"
    by (rule may_register_private [OF ok']) (use fd fd_private_cong [of ?w w] in simp)
  obtain w1 where en: "enableReading K ch ?w = Inr w1"
    using Channel_update_total [OF total ok' may c'] po by (auto simp: enableReading_def)
  note upd = en [unfolded enableReading_def]
  note fr = reactor_frame_servers [OF Channel_update_frame(1) [OF upd]]
  have w1: "reactor_ok interest w1 \<and> watched_mask interest w1 ch = Some kReadEvent"
  proof (rule Channel_update_bound [OF spec ok' may c' TcpConnection_channel_simps(1) upd], goal_cases)
    case (1 c1)
    obtain po1 where po1: "pollers w1 (tc_loop t) = Some po1" using 1(8) po by auto
    have "chans w1 ch = Some c1" using 1(1) by simp
    then show ?case using watched_mask_eq [OF 1(7) _ _ po1, of ch c1] 1 by simp
  qed
  obtain w' where w': "conn_call call (tc_connectionCallback t) p w1 = Inr w'" "world_frame w1 w'"
    "interest (w_kern w') = interest (w_kern w1)"
    using conn_call_quiet [where call = call and cb = "tc_connectionCallback t", OF quiet] by blast
  note f = world_frame_servers [OF w'(2)]
  have "connectEstablished K call p w = Inr w'"
    using t e en w'(1) by (simp add: connectEstablished_def conn_at_def assertInLoopThread_def isInLoopThread_def loop_at_def)
  moreover have "reactor_ok interest w'" by (rule reactor_ok_kern [OF conjunct1 [OF w1]]) (use f w'(3) in simp_all)
  moreover have "watched_mask interest w' ch = watched_mask interest w1 ch"
    using f w'(3) by (simp add: watched_mask_def cong: option.case_cong)
  ultimately show ?thesis using w1 f fr t by (intro exI [of _ w']) simp
qed

text \<open>
  What \<^verbatim>\<open>newConnection\<close> leaves behind: the connection \<open>t\<close> at \<open>p\<close> owns the fd, is filed under a name of its own,
  the server's counters have advanced, and it is established, or its loop has the task to do so.
\<close>

definition registered ::
  "('k \<Rightarrow> fd \<Rightarrow> fd \<Rightarrow> (32 word \<times> ptr) option) \<Rightarrow> ptr \<Rightarrow> tcp_server \<Rightarrow> thread_pool \<Rightarrow> fd \<Rightarrow> ptr \<Rightarrow> tcp_connection \<Rightarrow>
   ('k, 'z) server_world_scheme \<Rightarrow> ('k, 'z) server_world_scheme \<Rightarrow> bool" where
  "registered interest s sv pool sockfd p t w w' \<longleftrightarrow>
     conns w p = None \<and> conns w' = (conns w)(p \<mapsto> t) \<and> tc_socket t = Socket sockfd \<and>
     map_of (sv_connections sv) (connection_name sv) = None \<and> tc_name t = connection_name sv \<and>
     servers w' = (servers w)(s \<mapsto> sv\<lparr>sv_nextConnId := sv_nextConnId sv + 1, sv_threadPool := pool,
       sv_connections := sv_connections sv @ [(connection_name sv, p)]\<rparr>) \<and>
     (\<forall>e. loops w (tc_loop t) = Some e \<longrightarrow>
       (if el_threadId e = w_thread w
        then reactor_ok interest w' \<and> tc_state t = kConnected \<and> watched_mask interest w' (tc_channel t) = Some kReadEvent
        else tc_state t = kConnecting \<and>
          loops w' (tc_loop t) = Some (e\<lparr>el_pendingFunctors := el_pendingFunctors e @ [task_connectEstablished p]\<rparr>)))"

lemma newConnection_ok:
  assumes spec: "epoll_spec K interest" and total: "epoll_total K interest" and leave: "socket_calls_leave K interest"
    and ok: "reactor_ok interest w" and sok: "server_ok w s" and sv: "servers w s = Some sv" and id: "sv_nextConnId sv < INT_MAX"
    and fresh: "alloc_fresh alloc w" and e0: "loops w (sv_loop sv) = Some e0" "el_threadId e0 = w_thread w"
    and pool: "tp_baseLoop (sv_threadPool sv) = sv_loop sv" "pick_loop (sv_threadPool sv) = Inr (ioLoop, pool)"
    and e: "loops w ioLoop = Some e" and po: "pollers w ioLoop \<noteq> None"
    and fd: "\<And>q c. chans w q = Some c \<Longrightarrow> chan_fd c \<noteq> sockfd"
    and quiet: "\<And>p. quiet interest (call (sv_connectionCallback sv) p)"
  shows "\<exists>w' p t. newConnection K call alloc s sockfd peerAddr w = Inr w' \<and> tc_loop t = ioLoop \<and>
    registered interest s sv pool sockfd p t w w'"
proof -
  obtain p w5 where make: "make_connection K alloc s sv sockfd peerAddr w = Inr (ioLoop, p, w5)"
    using make_connection_total [OF sv _ pool(2)] id e0 pool(1) by fastforce
  have new: "map_of (sv_connections sv) (connection_name sv) = None" by (rule connection_name_fresh [OF sok sv])
  have run: "newConnection K call alloc s sockfd peerAddr w =
      runInLoop K ioLoop (task_connectEstablished p) (connectEstablished K call p) w5"
    using make sv e0 by (simp add: newConnection_def server_at_def assertInLoopThread_def isInLoopThread_def loop_at_def)
  show ?thesis
  proof (rule make_connectionE [OF make sv leave fresh], goal_cases)
    case (1 pool' ch t ib ob)
    note t = 1(5) [unfolded made_connection_def]
    have "pool' = pool" using 1(2) pool(2) by simp
    note sv5 = 1(6) [unfolded alist_update_new [OF new] this]
    have ok5: "reactor_ok interest w5" and fd5: "fd_private w5 ch"
      using made_channel_ok [OF ok _ 1(15,8,9,13)] fd by blast+
    show ?case
    proof (cases "el_threadId e = w_thread w")
      case False
      obtain w' where q: "queueInLoop K ioLoop (task_connectEstablished p) w5 = Inr w'"
        using queueInLoop_total [of w5 ioLoop e] 1(10) e by auto
      have "newConnection K call alloc s sockfd peerAddr w = Inr w'"
        using run q False 1(10,11) e by (simp add: runInLoop_outside)
      moreover have "loops w' ioLoop = Some (e\<lparr>el_pendingFunctors := el_pendingFunctors e @ [task_connectEstablished p]\<rparr>)"
        by (rule queueInLoopE [OF q]) (use 1(10) e in simp)
      ultimately show ?thesis
        using False new 1(7,14) t sv5 e queueInLoop_servers [OF q]
        by (intro exI [of _ w'] exI [of _ p] exI [of _ t]) (simp add: registered_def)
    next
      case True
      have here: "conns w5 p = Some t" "tc_channel t = ch" "chans w5 ch = Some (TcpConnection_channel p (tc_loop t) sockfd)"
        "pollers w5 (tc_loop t) \<noteq> None" "loops w5 (tc_loop t) = Some e" "el_threadId e = w_thread w5"
        using 1(7-11) t e po True by simp_all
      obtain w' where w': "connectEstablished K call p w5 = Inr w'" "reactor_ok interest w'"
        "conns w' = (conns w5)(p \<mapsto> setState kConnected t)" "servers w' = servers w5" "watched_mask interest w' ch = Some kReadEvent"
        using connectEstablished_watches [OF spec total ok5 fd5 here, of call] quiet t by auto
      then have "newConnection K call alloc s sockfd peerAddr w = Inr w'"
        using run True 1(10,11) e by (simp add: runInLoop_inside)
      then show ?thesis
        using True new 1(7,14) t sv5 e w'
        by (intro exI [of _ w'] exI [of _ p] exI [of _ "setState kConnected t"]) (simp add: registered_def setState_def)
    qed
  qed
qed

section \<open>Properties\<close>

text \<open>
  C8: An accepted connection is registered. \<^verbatim>\<open>newConnection\<close> always succeeds in the server's thread: the new
  connection gets an unused name and is entered in the map under it, and the next id and loop are
  advanced. If its loop runs in this thread it is established at once: connected, and its fd watched
  for reading. Otherwise it waits, unwatched, for the task \<^verbatim>\<open>connectEstablished\<close> that is queued in its
  loop. (The connection callback may log and make system calls that do not change what epoll watches.)
\<close>

theorem new_connection_registered:
  assumes "epoll_spec K interest" and "epoll_total K interest" and "socket_calls_leave K interest"
    and "reactor_ok interest w" and "server_ok w s" and "servers w s = Some sv" and "sv_nextConnId sv < INT_MAX"
    and "alloc_fresh alloc w" and "loops w (sv_loop sv) = Some e0" and "el_threadId e0 = w_thread w"
    and "tp_baseLoop (sv_threadPool sv) = sv_loop sv" and "pick_loop (sv_threadPool sv) = Inr (ioLoop, pool)"
    and "loops w ioLoop = Some e" and "pollers w ioLoop \<noteq> None" and "\<forall>q c. chans w q = Some c \<longrightarrow> chan_fd c \<noteq> sockfd"
    and "\<forall>p. quiet interest (call (sv_connectionCallback sv) p)"
  shows "\<exists>w' p t. newConnection K call alloc s sockfd peerAddr w = Inr w' \<and>
    map_of (sv_connections sv) (connection_name sv) = None \<and> conns w p = None \<and>
    conns w' = (conns w)(p \<mapsto> t) \<and> tc_name t = connection_name sv \<and> tc_loop t = ioLoop \<and> tc_socket t = Socket sockfd \<and>
    servers w' = (servers w)(s \<mapsto> sv\<lparr>sv_nextConnId := sv_nextConnId sv + 1, sv_threadPool := pool,
      sv_connections := sv_connections sv @ [(connection_name sv, p)]\<rparr>) \<and>
    (if el_threadId e = w_thread w
     then reactor_ok interest w' \<and> tc_state t = kConnected \<and> watched_mask interest w' (tc_channel t) = Some kReadEvent
     else tc_state t = kConnecting \<and>
       loops w' ioLoop = Some (e\<lparr>el_pendingFunctors := el_pendingFunctors e @ [task_connectEstablished p]\<rparr>))"
proof -
  obtain w' p t where w': "newConnection K call alloc s sockfd peerAddr w = Inr w'" "tc_loop t = ioLoop"
    and "registered interest s sv pool sockfd p t w w'"
    using newConnection_ok [OF assms(1-14), of sockfd call peerAddr] assms(15,16) by blast
  note r = this(3) [unfolded registered_def w'(2), THEN conjunct2]
  have "conns w p = None" using \<open>registered interest s sv pool sockfd p t w w'\<close> by (simp add: registered_def)
  then show ?thesis using w' r assms(13) by (intro exI [of _ w'] exI [of _ p] exI [of _ t]) simp
qed

text \<open>
  C10: The server's map of connections stays consistent. Accepting a connection, removing one and the
  request to remove one, from whichever thread, keep the invariant: names and connections are
  distinct, every entry is a live connection filed under its own name that reports its close to this
  server, and every name was made from an id already used up.
\<close>

theorem server_map_invariant:
  assumes "server_ok w s" and "alloc_fresh alloc w" and "\<forall>cb p. keeps (\<lambda>w. server_ok w s) (call cb p)"
    and "operation \<in> {newConnection K call alloc s sockfd peerAddr, removeConnectionInLoop K s p, removeConnection K s p}"
    and "operation w = Inr w'"
  shows "server_ok w' s"
proof -
  have calls: "\<And>cb p. keeps (\<lambda>w. server_ok w s) (call cb p)" using assms(3) by blast
  from assms(4) consider (new) "operation = newConnection K call alloc s sockfd peerAddr"
    | (rem) "operation = removeConnectionInLoop K s p" | (req) "operation = removeConnection K s p" by blast
  then show ?thesis
  proof cases
    case new
    then obtain sv io q w5 where sv: "servers w s = Some sv"
      and make: "make_connection K alloc s sv sockfd peerAddr w = Inr (io, q, w5)"
      and est: "runInLoop K io (task_connectEstablished q) (connectEstablished K call q) w5 = Inr w'"
      using assms(5) by (auto simp: newConnection_def server_at_def rbind_eq_Inr [of "assertInLoopThread _ _"] elim!: rbind_InrE)
    have ok: "server_ok w5 s" by (rule make_connection_server_ok [OF make assms(1) sv assms(2)])
    from est show ?thesis
    proof (rule runInLoop_cases)
      assume "connectEstablished K call q w5 = Inr w'"
      then show ?thesis using ok calls by (rule connectEstablished_server_ok)
    next
      assume "queueInLoop K io (task_connectEstablished q) w5 = Inr w'"
      then show ?thesis using ok by (rule server_ok_queue)
    qed
  next
    case rem
    then show ?thesis using assms(1,5) removeConnectionInLoop_server_ok by blast
  next
    case req
    then obtain l where "runInLoop K l (task_removeConnectionInLoop s p) (removeConnectionInLoop K s p) w = Inr w'"
      using assms(5) by (auto simp: removeConnection_def rbind_eq_Inr)
    then show ?thesis
      by (rule runInLoop_cases) (use assms(1) removeConnectionInLoop_server_ok server_ok_queue in blast)+
  qed
qed

text \<open>A server at 30 without threads of its own and with no connections yet.\<close>

definition sample_server_world :: "sim server_world" where
  "sample_server_world =
     \<lparr>w_kern = sim_init\<lparr>si_interest := (\<lambda>_ _. None)(3 := [7 \<mapsto> (kReadEvent, 21)]), si_next_fd := 9\<rparr>, w_errno = 0,
      w_log = [], w_thread = 1,
      chans = [21 \<mapsto> (setReadCallback (cb_Acceptor_handleRead 20) (Channel_new (Some 1) 7))\<lparr>chan_events := kReadEvent, chan_index := kAdded\<rparr>],
      pollers = [1 \<mapsto> \<lparr>ep_channels = [7 \<mapsto> 21], ep_fd = 3, ep_events_size = 16\<rparr>],
      loops = [1 \<mapsto> sample_loop], timer_heap = Map.empty, numCreated = 0, tqueues = Map.empty, conns = Map.empty,
      acceptors = [20 \<mapsto> \<lparr>ac_loop = 1, ac_socket = Socket 7, ac_channel = 21,
        ac_newConnectionCallback = Some (nc_newConnection 30), ac_listening = True\<rparr>],
      servers = [30 \<mapsto> \<lparr>sv_loop = 1, sv_name = ''echo'', sv_acceptor = 20, sv_threadPool = EventLoopThreadPool_new 1 ''echo'',
        sv_connectionCallback = cc_empty, sv_messageCallback = cc_empty, sv_writeCompleteCallback = cc_empty,
        sv_started = True, sv_nextConnId = 1, sv_connections = []\<rparr>]\<rparr>"

definition sample_peer :: sockaddr_in where
  "sample_peer = \<lparr>sin_family = 2, sin_port = 5, sin_addr = 7\<rparr>"

lemma sample_server_ok:
  "server_ok sample_server_world 30" "alloc_fresh (\<lambda>_. (50, 51)) sample_server_world"
  "reactor_ok si_interest sample_server_world"
  by (auto simp: server_ok_def INT_MAX_def alloc_fresh_def sample_server_world_def reactor_ok_def poller_ok_def
      expected_interest_def enrolled_def sim_init_def Channel_new_def setReadCallback_def fun_eq_iff split: if_splits)

lemma sample_server_eq:
  assumes "servers sample_server_world 30 = Some sv"
  shows "sv = \<lparr>sv_loop = 1, sv_name = ''echo'', sv_acceptor = 20, sv_threadPool = EventLoopThreadPool_new 1 ''echo'',
        sv_connectionCallback = cc_empty, sv_messageCallback = cc_empty, sv_writeCompleteCallback = cc_empty,
        sv_started = True, sv_nextConnId = 1, sv_connections = []\<rparr>"
  using assms by (simp add: sample_server_world_def)

theorem new_connection_registered_witness:
  "\<exists>w' p t. newConnection sim_kernel (\<lambda>_ _. Inr) (\<lambda>_. (50, 51)) 30 9 sample_peer sample_server_world = Inr w' \<and>
     conns w' p = Some t \<and> tc_state t = kConnected \<and> watched_mask si_interest w' (tc_channel t) = Some kReadEvent"
proof -
  let ?w = sample_server_world
  obtain sv where sv: "servers ?w 30 = Some sv" by (simp add: sample_server_world_def)
  note sv' = sample_server_eq [OF sv]
  have id: "sv_nextConnId sv < INT_MAX" by (simp add: sv' INT_MAX_def)
  have pick: "pick_loop (sv_threadPool sv) = Inr (1, sv_threadPool sv)"
    by (simp add: sv' pick_loop_def EventLoopThreadPool_new_def)
  have loop: "loops ?w 1 = Some sample_loop" "loops ?w (sv_loop sv) = Some sample_loop"
    by (simp_all add: sv' sample_server_world_def)
  have tid: "el_threadId sample_loop = w_thread ?w" by (simp add: sample_server_world_def sample_loop_def)
  have base: "tp_baseLoop (sv_threadPool sv) = sv_loop sv" by (simp add: sv' EventLoopThreadPool_new_def)
  have po: "pollers ?w 1 \<noteq> None" by (simp add: sample_server_world_def)
  have fd: "\<forall>q c. chans ?w q = Some c \<longrightarrow> chan_fd c \<noteq> 9"
    by (simp add: sample_server_world_def Channel_new_def setReadCallback_def)
  have call: "\<forall>p. quiet si_interest ((\<lambda>_ _. Inr) (sv_connectionCallback sv) p)" by (simp add: quiet_def)
  show ?thesis
    using new_connection_registered [where call = "\<lambda>_ _. Inr" and peerAddr = sample_peer, OF sim_epoll_spec sim_epoll_total
        sim_socket_calls_leave(1) sample_server_ok(3,1) sv id sample_server_ok(2) loop(2) tid base pick loop(1) po fd call] tid
    by (metis fun_upd_same)
qed

text \<open>The same server with one connection, at 50, in its own loop.\<close>

definition busy_conn :: tcp_connection where
  "busy_conn = sample_conn\<lparr>tc_name := ''echo-1'', tc_channel := 51, tc_closeCallback := Some (cc_removeConnection 30)\<rparr>"

definition busy_server_world :: "sim server_world" where
  "busy_server_world = sample_server_world\<lparr>conns := [50 \<mapsto> busy_conn],
     servers := [30 \<mapsto> (the (servers sample_server_world 30))\<lparr>sv_nextConnId := 2, sv_connections := [(''echo-1'', 50)]\<rparr>]\<rparr>"

lemma busy_server_ok: "server_ok busy_server_world 30" "alloc_fresh (\<lambda>_. (60, 61)) busy_server_world"
proof -
  have "''echo-1'' = ''echo'' @ ''-'' @ to_string 1"
    by code_simp
  then show "server_ok busy_server_world 30"
    by (auto simp: server_ok_def busy_server_world_def sample_server_world_def busy_conn_def INT_MAX_def intro: exI [of _ 1])
  show "alloc_fresh (\<lambda>_. (60, 61)) busy_server_world"
    by (simp add: alloc_fresh_def busy_server_world_def sample_server_world_def)
qed

theorem server_map_invariant_witness:
  "\<exists>w'. removeConnection sim_kernel 30 50 busy_server_world = Inr w' \<and> server_ok w' 30"
proof -
  have "\<not> isl (removeConnection sim_kernel 30 50 busy_server_world)" by code_simp
  then obtain w' where w': "removeConnection sim_kernel 30 50 busy_server_world = Inr w'"
    by (cases "removeConnection sim_kernel 30 50 busy_server_world") auto
  have call: "\<forall>cb p. keeps (\<lambda>w. server_ok w 30) ((\<lambda>_ _. Inr) cb p)" by (simp add: keeps_def)
  have "server_ok w' 30"
    by (rule server_map_invariant [where operation = "removeConnection sim_kernel 30 50" and K = sim_kernel and p = 50
          and sockfd = 9 and peerAddr = sample_peer, OF busy_server_ok call _ w']) simp
  then show ?thesis using w' by blast
qed

text \<open>
  C21: Removing a connection erases exactly its entry and defers its destruction: \<^verbatim>\<open>removeConnectionInLoop\<close>
  always succeeds in the server's thread, leaves every other connection in the map, keeps the connection
  object, and queues one \<^verbatim>\<open>connectDestroyed\<close> in the connection's own loop.
\<close>

theorem removal_defers_destruction:
  assumes "server_ok w s" and "servers w s = Some sv" and "(name, p) \<in> set (sv_connections sv)" and "conns w p = Some t"
    and "loops w (sv_loop sv) = Some e0" and "el_threadId e0 = w_thread w" and "loops w (tc_loop t) = Some e"
  shows "\<exists>w'. removeConnectionInLoop K s p w = Inr w' \<and> conns w' = conns w \<and> chans w' = chans w \<and>
    servers w' = (servers w)(s \<mapsto> sv\<lparr>sv_connections := filter (\<lambda>x. x \<noteq> (name, p)) (sv_connections sv)\<rparr>) \<and>
    loops w' = (loops w)(tc_loop t \<mapsto> e\<lparr>el_pendingFunctors := el_pendingFunctors e @ [task_connectDestroyed p]\<rparr>)"
  by (rule removeConnectionInLoop_ok [OF assms])

theorem removal_defers_destruction_witness:
  "\<exists>w'. removeConnectionInLoop sim_kernel 30 50 busy_server_world = Inr w' \<and> conns w' 50 = Some busy_conn \<and>
     map_option sv_connections (servers w' 30) = Some []"
proof -
  let ?w = busy_server_world
  obtain sv where sv: "servers ?w 30 = Some sv" "sv_connections sv = [(''echo-1'', 50)]" "sv_loop sv = 1"
    by (simp add: busy_server_world_def sample_server_world_def)
  have mem: "(''echo-1'', 50) \<in> set (sv_connections sv)" using sv by simp
  have c: "conns ?w 50 = Some busy_conn" by (simp add: busy_server_world_def)
  have l: "loops ?w (sv_loop sv) = Some sample_loop" "loops ?w (tc_loop busy_conn) = Some sample_loop"
    using sv by (simp_all add: busy_server_world_def sample_server_world_def busy_conn_def sample_conn_def)
  have tid: "el_threadId sample_loop = w_thread ?w" by (simp add: sample_loop_def busy_server_world_def sample_server_world_def)
  show ?thesis
    using removal_defers_destruction [OF busy_server_ok(1) sv(1) mem c l(1) tid l(2), of sim_kernel] c sv(2) by auto
qed

end
