(* ===== verification/Server.thy ===== *)
theory Server
  imports TcpServer
begin

text \<open>
  The components put together. \<open>server_exec\<close> and \<open>server_run\<close> say what the function objects in
  channels and task queues do, so that \<open>loop_iteration\<close> and \<open>EventLoop_loop\<close> of theory EventLoop
  become the program. \<open>server_release\<close> is the end of the shared pointers: a connection is destroyed
  when the last function object, map entry or user copy that holds it goes. Turns of several loops
  are taken one after the other here; theory LoopThreads has the interleaving of one loop with other
  threads. The record \<open>user_code\<close> is the program that uses the library.
\<close>

record 'w user_code =
  u_timer :: "nat \<Rightarrow> 'w \<Rightarrow> 'w res"
  u_event :: "nat \<Rightarrow> 'w \<Rightarrow> 'w res"
  u_task :: "nat \<Rightarrow> 'w \<Rightarrow> 'w res"
  u_conn :: "nat \<Rightarrow> ptr \<Rightarrow> 'w \<Rightarrow> 'w res"
  u_newconn :: "nat \<Rightarrow> fd \<Rightarrow> sockaddr_in \<Rightarrow> 'w \<Rightarrow> 'w res"
  u_holds :: "ptr \<Rightarrow> 'w \<Rightarrow> bool"

fun server_call ::
  "'k kernel \<Rightarrow> ('k, 'z) server_world_scheme user_code \<Rightarrow> conn_callback \<Rightarrow> ptr \<Rightarrow>
   ('k, 'z) server_world_scheme \<Rightarrow> ('k, 'z) server_world_scheme res" where
  "server_call K U (cc_user n) p w = u_conn U n p w"
| "server_call K U cc_empty p w = Inr w"
| "server_call K U (cc_removeConnection s) p w = removeConnection K s p w"

fun server_newconn ::
  "'k kernel \<Rightarrow> ('k, 'z) server_world_scheme user_code \<Rightarrow> (('k, 'z) server_world_scheme \<Rightarrow> ptr \<times> ptr) \<Rightarrow>
   newconn_callback \<Rightarrow> fd \<Rightarrow> sockaddr_in \<Rightarrow> ('k, 'z) server_world_scheme \<Rightarrow> ('k, 'z) server_world_scheme res" where
  "server_newconn K U alloc (nc_newConnection s) sockfd peerAddr w =
     newConnection K (server_call K U) alloc s sockfd peerAddr w"
| "server_newconn K U alloc (nc_user n) sockfd peerAddr w = u_newconn U n sockfd peerAddr w"

fun server_exec ::
  "'k kernel \<Rightarrow> ('k, 'z) server_world_scheme user_code \<Rightarrow> (('k, 'z) server_world_scheme \<Rightarrow> ptr \<times> ptr) \<Rightarrow>
   event_callback \<Rightarrow> ('k, 'z) server_world_scheme \<Rightarrow> ('k, 'z) server_world_scheme res" where
  "server_exec K U alloc (cb_EventLoop_handleRead l) w = EventLoop_handleRead K l w"
| "server_exec K U alloc (cb_TimerQueue_handleRead l) w = TimerQueue_handleRead K (u_timer U) l w"
| "server_exec K U alloc (cb_Acceptor_handleRead a) w = Acceptor_handleRead K (server_newconn K U alloc) a w"
| "server_exec K U alloc (cb_TcpConnection_handleRead p) w = TcpConnection_handleRead K (server_call K U) p w"
| "server_exec K U alloc (cb_TcpConnection_handleWrite p) w = handleWrite K p w"
| "server_exec K U alloc (cb_TcpConnection_handleClose p) w = handleClose K (server_call K U) p w"
| "server_exec K U alloc (cb_TcpConnection_handleError p) w = handleError K p w"
| "server_exec K U alloc (cb_user n) w = u_event U n w"

fun server_run ::
  "'k kernel \<Rightarrow> ('k, 'z) server_world_scheme user_code \<Rightarrow> task \<Rightarrow>
   ('k, 'z) server_world_scheme \<Rightarrow> ('k, 'z) server_world_scheme res" where
  "server_run K U (task_addTimerInLoop l tm) w = addTimerInLoop K l tm w"
| "server_run K U (task_cancelInLoop l timerId) w = cancelInLoop l timerId w"
| "server_run K U (task_sendInLoop p data) w = sendInLoop K p data w"
| "server_run K U (task_shutdownInLoop p) w = shutdownInLoop K p w"
| "server_run K U (task_connectEstablished p) w = connectEstablished K (server_call K U) p w"
| "server_run K U (task_connectDestroyed p) w = connectDestroyed K (server_call K U) p w"
| "server_run K U (task_writeComplete cb p) w = server_call K U cb p w"
| "server_run K U (task_removeConnectionInLoop s p) w = removeConnectionInLoop K s p w"
| "server_run K U (task_listen s) w = server_listen K s w"
| "server_run K U (task_user n) w = u_task U n w"

section \<open>Shared ownership of connections\<close>

text \<open>The tasks that hold a \<^verbatim>\<open>shared_ptr\<close>; \<^verbatim>\<open>sendInLoop\<close> and \<^verbatim>\<open>shutdownInLoop\<close> are bound to a plain \<^verbatim>\<open>this\<close>.\<close>

fun task_holds :: "task \<Rightarrow> ptr option" where
  "task_holds (task_connectEstablished p) = Some p"
| "task_holds (task_connectDestroyed p) = Some p"
| "task_holds (task_writeComplete cb p) = Some p"
| "task_holds (task_removeConnectionInLoop s p) = Some p"
| "task_holds _ = None"

definition queue_holds :: "ptr \<Rightarrow> ptr \<Rightarrow> ('k, 'z) loop_world_scheme \<Rightarrow> bool" where
  "queue_holds p l w \<longleftrightarrow>
     (case loops w l of None \<Rightarrow> False | Some e \<Rightarrow> Some p \<in> task_holds ` set (el_pendingFunctors e))"

text \<open>
  The owners of a connection: the user's copies, the map of the server it reports to, and the tasks
  in the queues of its own loop and of that server's loop, the only queues its tasks go to.
\<close>

definition conn_owned ::
  "('k, 'z) server_world_scheme user_code \<Rightarrow> ptr \<Rightarrow> ('k, 'z) server_world_scheme \<Rightarrow> bool" where
  "conn_owned U p w \<longleftrightarrow>
     (case conns w p of None \<Rightarrow> False | Some t \<Rightarrow>
        u_holds U p w \<or> queue_holds p (tc_loop t) w \<or>
        (case tc_closeCallback t of
           Some (cc_removeConnection s) \<Rightarrow>
             (case servers w s of None \<Rightarrow> False | Some sv \<Rightarrow>
                p \<in> snd ` set (sv_connections sv) \<or> queue_holds p (sv_loop sv) w)
         | _ \<Rightarrow> False))"

definition release_conn ::
  "'k kernel \<Rightarrow> ('k, 'z) server_world_scheme user_code \<Rightarrow> ptr \<Rightarrow>
   ('k, 'z) server_world_scheme \<Rightarrow> ('k, 'z) server_world_scheme res" where
  "release_conn K U p w =
     (if conns w p = None \<or> conn_owned U p w then Inr w else TcpConnection_destroy K p w)"

definition server_release ::
  "'k kernel \<Rightarrow> ('k, 'z) server_world_scheme user_code \<Rightarrow> task list \<Rightarrow>
   ('k, 'z) server_world_scheme \<Rightarrow> ('k, 'z) server_world_scheme res" where
  "server_release K U functors = rfold (release_conn K U) (List.map_filter task_holds functors)"

text \<open>The queued tasks of one loop, run in that loop's thread.\<close>

definition run_queued ::
  "'k kernel \<Rightarrow> ('k, 'z) server_world_scheme user_code \<Rightarrow> ptr \<Rightarrow>
   ('k, 'z) server_world_scheme \<Rightarrow> ('k, 'z) server_world_scheme res" where
  "run_queued K U l w =
     doPendingFunctors (server_run K U) (server_release K U) l (as_thread (loop_tid l w) w)"

text \<open>The whole program of a loop.\<close>

definition server_loop ::
  "'k kernel \<Rightarrow> ('k, 'z) server_world_scheme user_code \<Rightarrow> (('k, 'z) server_world_scheme \<Rightarrow> ptr \<times> ptr) \<Rightarrow> ptr \<Rightarrow>
   ('k, 'z) server_world_scheme \<Rightarrow> ('k, 'z) server_world_scheme res option" where
  "server_loop K U alloc l w =
     EventLoop_loop K (server_exec K U alloc) (server_run K U) (server_release K U) l w"

text \<open>
  The destructor of the server destroys its members in reverse order: the map of connections, which
  drops one owner of each; the thread pool, where \<open>join\<close> is what happens until the thread of an
  \<^verbatim>\<open>EventLoopThread\<close> has ended (theory EventLoopThread); the acceptor.
\<close>

definition TcpServer_destroy ::
  "'k kernel \<Rightarrow> ('k, 'z) server_world_scheme user_code \<Rightarrow>
   (event_loop_thread \<Rightarrow> ('k, 'z) server_world_scheme \<Rightarrow> ('k, 'z) server_world_scheme res) \<Rightarrow> ptr \<Rightarrow>
   ('k, 'z) server_world_scheme \<Rightarrow> ('k, 'z) server_world_scheme res" where
  "TcpServer_destroy K U join s w =
     rbind (server_at s w) (\<lambda>sv.
     rbind (rfold (release_conn K U) (map snd (sv_connections sv))
              (upd_server s (\<lambda>sv. sv\<lparr>sv_connections := []\<rparr>) w)) (\<lambda>w1.
     rbind (rfold join (tp_threads (sv_threadPool sv)) w1) (\<lambda>w2.
     rbind (Acceptor_destroy K (sv_acceptor sv) w2) (\<lambda>w3.
       Inr (w3\<lparr>servers := (servers w3)(s := None)\<rparr>)))))"

section \<open>Lemmas: from end of file to destruction\<close>

text \<open>A connection that is shut for good: still known to its poller, waiting to be destroyed.\<close>

definition closing ::
  "('k \<Rightarrow> fd \<Rightarrow> fd \<Rightarrow> (32 word \<times> ptr) option) \<Rightarrow> ptr \<Rightarrow> tcp_connection \<Rightarrow> ('k, 'z) server_world_scheme \<Rightarrow> bool" where
  "closing interest p t w \<longleftrightarrow>
     reactor_ok interest w \<and> conns w p = Some t \<and> tc_state t = kDisconnected \<and> fd_private w (tc_channel t) \<and>
     pollers w (tc_loop t) \<noteq> None \<and>
     (\<exists>c. chans w (tc_channel t) = Some c \<and> chan_loop c = Some (tc_loop t) \<and> chan_fd c = socket_fd (tc_socket t))"

lemma closing_cong:
  assumes "closing interest p t w" and "conns w' = conns w" and "chans w' = chans w" and "pollers w' = pollers w"
    and "interest (w_kern w') = interest (w_kern w)"
  shows "closing interest p t w'"
  using assms reactor_ok_kern [of interest w w'] fd_private_cong [of w' w "tc_channel t"] by (auto simp: closing_def)

lemma as_thread_servers [simp]:
  "servers (as_thread t w) = servers w" "conns (as_thread t w) = conns w" "acceptors (as_thread t w) = acceptors w"
  by (simp_all add: as_thread_def)

lemma queueInLoop_interest:
  assumes "queueInLoop K l cb w = Inr w'" and "\<forall>f bs. leaves (k_write K f bs) v"
  shows "v (w_kern w') = v (w_kern w)"
  using queueInLoop_kern [OF assms(1)] assms(2) unfolding leaves_def by (metis snd_conv)

lemma closing_queue:
  assumes "closing interest p t w" and "queueInLoop K l cb w = Inr w'" and "kernel_spec K interest sent"
  shows "closing interest p t w'"
proof (rule queueInLoopE [OF assms(2)])
  assume "chans w' = chans w" "pollers w' = pollers w"
  then show ?thesis
    using closing_cong [OF assms(1)] queueInLoop_servers [OF assms(2)]
      queueInLoop_interest [OF assms(2), of interest] kernel_specD(7) [OF assms(3)] by blast
qed

text \<open>The destructor of a connection whose channel is out of the poller.\<close>

lemma TcpConnection_destroy_ok:
  assumes ok: "reactor_ok interest w" and t: "conns w p = Some t" and c: "chans w (tc_channel t) = Some c"
    and fd: "fd_private w (tc_channel t)" "chan_fd c = socket_fd (tc_socket t)" and out: "\<not> enrolled c"
    and close: "close_spec K interest" and opened: "open_spec K opened"
  shows "\<exists>w'. TcpConnection_destroy K p w = Inr w' \<and> reactor_ok interest w' \<and> conns w' = (conns w)(p := None) \<and>
    chans w' = (chans w)(tc_channel t := None) \<and> servers w' = servers w \<and> loops w' = loops w \<and>
    (\<forall>ep. interest (w_kern w') ep (socket_fd (tc_socket t)) = None) \<and> socket_fd (tc_socket t) \<notin> opened (w_kern w')"
proof -
  let ?f = "socket_fd (tc_socket t)"
  let ?w1 = "w\<lparr>chans := (chans w)(tc_channel t := None)\<rparr>"
  let ?w2 = "w\<lparr>chans := (chans w)(tc_channel t := None), conns := (conns w)(p := None)\<rparr>"
  let ?w' = "Socket_destroy K (tc_socket t) ?w2"
  have frame: "world_frame ?w2 ?w'" by (simp add: Socket_destroy_def sockets_close_frame)
  note f = world_frame_servers [OF frame]
  have same: "chans ?w' = chans ?w1" "pollers ?w' = pollers ?w1" using f(5,6) by simp_all
  have kern: "interest (w_kern ?w') = (\<lambda>ep. (interest (w_kern ?w1) ep)(?f := None))"
    using close by (simp add: Socket_destroy_def sockets_close_kern close_spec_def)
  have "reactor_ok interest ?w1" by (rule reactor_ok_forget [OF ok]) (use c out in simp)
  then have "reactor_ok interest ?w'"
  proof (rule reactor_ok_closed [OF _ _ same kern])
    show "\<not> enrolled d" if "chans ?w1 q = Some d" "chan_fd d = ?f" for q d
      using that fd_privateD [OF fd(1) c, of q d] fd(2) by (auto split: if_splits)
  qed
  moreover have "?f \<notin> opened (w_kern ?w')"
    using opened by (simp add: Socket_destroy_def sockets_close_kern open_spec_def)
  ultimately show ?thesis
    using t f kern by (intro exI [of _ ?w']) (simp add: TcpConnection_destroy_def conn_at_def)
qed

text \<open>\<^verbatim>\<open>connectDestroyed\<close> takes the channel of a closing connection out of the poller.\<close>

lemma connectDestroyed_closing:
  assumes spec: "kernel_spec K interest sent" and cl: "closing interest p t w"
    and e: "loops w (tc_loop t) = Some e" "el_threadId e = w_thread w"
  obtains w' c' where "connectDestroyed K call p w = Inr w'" and "reactor_ok interest w'" and "reactor_frame w w'"
    and "chans w' = (chans w)(tc_channel t \<mapsto> c')" and "\<not> enrolled c'" and "chan_fd c' = socket_fd (tc_socket t)"
    and "fd_private w' (tc_channel t)"
proof -
  obtain c po where ok: "reactor_ok interest w" and t: "conns w p = Some t" "tc_state t = kDisconnected"
    and fd: "fd_private w (tc_channel t)" and po: "pollers w (tc_loop t) = Some po"
    and c: "chans w (tc_channel t) = Some c" "chan_loop c = Some (tc_loop t)" "chan_fd c = socket_fd (tc_socket t)"
    using cl by (auto simp: closing_def)
  obtain w' where rem: "Channel_remove K (tc_channel t) w = Inr w'"
    using Channel_remove_total [OF c(1)] c(2) po by auto
  then have "EPollPoller_removeChannel K (tc_loop t) (tc_channel t) w = Inr w'"
    using c by (simp add: Channel_remove_def chan_at_def EventLoop_removeChannel_def)
  note r = removeChannel_ok [OF kernel_specD(1) [OF spec] ok c(1,2) po may_register_private [OF ok fd] this]
  show thesis
  proof (rule that [OF _ r(1) Channel_remove_frame(1) [OF rem] r(2)])
    show "connectDestroyed K call p w = Inr w'"
      using rem t e by (simp add: connectDestroyed_def conn_at_def assertInLoopThread_def isInLoopThread_def loop_at_def)
    show "fd_private w' (tc_channel t)"
      using fd c(1) r(2) fd_private_cong [of w' w "tc_channel t"] by (simp add: set_index_def)
  qed (use c(3) in \<open>simp_all add: set_index_def enrolled_def kNew_def kAdded_def kDeleted_def\<close>)
qed

text \<open>The task that \<^verbatim>\<open>removeConnectionInLoop\<close> queued runs, and its function object is the last owner.\<close>

lemma run_queued_destroys:
  assumes spec: "kernel_spec K interest sent" and close: "close_spec K interest" and opened: "open_spec K opened"
    and cl: "closing interest p t w" and e: "loops w (tc_loop t) = Some e" "el_pendingFunctors e = [task_connectDestroyed p]"
    and server: "tc_closeCallback t = Some (cc_removeConnection s)" "servers w s = Some sv"
      "p \<notin> snd ` set (sv_connections sv)" "\<not> queue_holds p (sv_loop sv) (upd_loop (tc_loop t) (\<lambda>e. e\<lparr>el_pendingFunctors := []\<rparr>) w)"
    and user: "\<And>w. \<not> u_holds U p w"
  shows "\<exists>w'. run_queued K U (tc_loop t) w = Inr w' \<and> reactor_ok interest w' \<and> conns w' = (conns w)(p := None) \<and>
    chans w' = (chans w)(tc_channel t := None) \<and> servers w' = servers w \<and>
    (\<forall>ep. interest (w_kern w') ep (socket_fd (tc_socket t)) = None) \<and> socket_fd (tc_socket t) \<notin> opened (w_kern w') \<and>
    loops w' = (loops w)(tc_loop t \<mapsto> e\<lparr>el_pendingFunctors := [], el_callingPendingFunctors := False\<rparr>)"
proof -
  let ?l = "tc_loop t" and ?f = "socket_fd (tc_socket t)"
  let ?w0 = "as_thread (loop_tid ?l w) w"
  let ?w1 = "upd_loop ?l (\<lambda>e. e\<lparr>el_callingPendingFunctors := True, el_pendingFunctors := []\<rparr>) ?w0"
  have tc: "conns w p = Some t" using cl by (simp add: closing_def)
  have cl1: "closing interest p t ?w1" by (rule closing_cong [OF cl]) simp_all
  have e1: "loops ?w1 ?l = Some (e\<lparr>el_callingPendingFunctors := True, el_pendingFunctors := []\<rparr>)"
    "el_threadId (e\<lparr>el_callingPendingFunctors := True, el_pendingFunctors := []\<rparr>) = w_thread ?w1"
    using e by (simp_all add: loop_tid_def)
  show ?thesis
  proof (rule connectDestroyed_closing [OF spec cl1 e1, of "server_call K U"], goal_cases)
    case (1 w2 c')
    let ?w3 = "upd_loop ?l (\<lambda>e. e\<lparr>el_callingPendingFunctors := False\<rparr>) w2"
    note fr = reactor_frame_servers [OF 1(3)]
    have t3: "conns ?w3 p = Some t" using fr tc by simp
    have c3: "chans ?w3 (tc_channel t) = Some c'" using 1(4) by simp
    have ok3: "reactor_ok interest ?w3" by (rule reactor_ok_kern [OF 1(2)]) simp_all
    have fd3: "fd_private ?w3 (tc_channel t)" using 1(7) fd_private_cong [of ?w3 w2] by simp
    obtain w' where w': "TcpConnection_destroy K p ?w3 = Inr w'" "reactor_ok interest w'" "conns w' = (conns ?w3)(p := None)"
      "chans w' = (chans ?w3)(tc_channel t := None)" "servers w' = servers ?w3" "loops w' = loops ?w3"
      "\<forall>ep. interest (w_kern w') ep ?f = None" "?f \<notin> opened (w_kern w')"
      using TcpConnection_destroy_ok [OF ok3 t3 c3 fd3 1(6,5) close opened] by blast
    have l3: "loops ?w3 = (loops w)(?l \<mapsto> e\<lparr>el_pendingFunctors := [], el_callingPendingFunctors := False\<rparr>)"
      using fr e by simp
    have "\<not> conn_owned U p ?w3"
      using t3 l3 server user fr e
      by (auto simp: conn_owned_def queue_holds_def split: option.splits if_splits)
    then have "server_release K U [task_connectDestroyed p] ?w3 = Inr w'"
      using w'(1) t3 by (simp add: server_release_def release_conn_def)
    then have "run_queued K U ?l w = Inr w'"
      using 1(1) e fr by (simp add: run_queued_def doPendingFunctors_def loop_at_def Let_def)
    then show ?thesis
      using w' l3 fr 1(4) by (intro exI [of _ w']) simp
  qed
qed

lemma closing_frame:
  assumes "closing interest p t w" and "world_frame w w'" and "interest (w_kern w') = interest (w_kern w)"
  shows "closing interest p t w'"
  by (rule closing_cong [OF assms(1) _ _ _ assms(3)]) (use world_frame_servers [OF assms(2)] in simp_all)

lemma handleClose_closing:
  assumes spec: "kernel_spec K interest sent" and total: "epoll_total K interest" and env: "conn_env interest p w"
    and t: "conns w p = Some t" "tc_closeCallback t = Some (cc_removeConnection s)" and fd: "fd_private w (tc_channel t)"
    and quiet: "\<And>cb. tc_connectionCallback t = Some cb \<Longrightarrow> quiet interest (server_call K U cb p)"
  obtains w' where "handleClose K (server_call K U) p w = removeConnection K s p w'"
    and "closing interest p (setState kDisconnected t) w'" and "conns w' = (conns w)(p \<mapsto> setState kDisconnected t)"
    and "servers w' = servers w" and "loops w' = loops w" and "w_thread w' = w_thread w"
    and "\<And>q. q \<noteq> tc_channel t \<Longrightarrow> chans w' q = chans w q"
proof -
  let ?t = "setState kDisconnected t" and ?ch = "tc_channel t"
  let ?w0 = "upd_conn p (setState kDisconnected) w"
  obtain c where c: "chans w ?ch = Some c" "chan_loop c = Some (tc_loop t)" "chan_fd c = socket_fd (tc_socket t)"
    using env t(1) conn_okE [of w p] by (metis conn_env_def option.inject)
  obtain e where e: "loops w (tc_loop t) = Some e" "el_threadId e = w_thread w" "tc_loop t \<in> dom (pollers w)"
    by (rule conn_hereE [OF _ t(1)]) (use env in \<open>auto simp: conn_env_def\<close>)
  have ok: "reactor_ok interest ?w0" by (rule reactor_ok_kern [of _ w]) (use env in \<open>simp_all add: conn_env_def\<close>)
  have fd0: "fd_private ?w0 ?ch" using fd fd_private_cong [of ?w0 w] by simp
  have may: "may_register ?w0 ?ch" by (rule may_register_private [OF ok fd0])
  have c0: "chans ?w0 ?ch = Some c" using c by simp
  obtain w1 where w1: "disableAll K ?ch ?w0 = Inr w1"
    using Channel_update_total [OF total ok may c0, of "\<lambda>e. kNoneEvent"] c(2) e(3) by (auto simp: disableAll_def)
  note upd = w1 [unfolded disableAll_def]
  note fr = Channel_update_frame(1) [OF upd]
  have conns1: "conns w1 = (conns w)(p \<mapsto> ?t)" using reactor_frame_servers [OF fr] t(1) by simp
  have cl1: "closing interest p ?t w1 \<and> (\<forall>q. q \<noteq> ?ch \<longrightarrow> chans w1 q = chans w q)"
  proof (rule Channel_update_bound [OF kernel_specD(1) [OF spec] ok may c0 c(2) upd], goal_cases)
    case (1 c')
    then have "fd_private w1 ?ch" using fd0 c0 fd_private_cong [of w1 ?w0 ?ch] by simp
    moreover have "pollers w1 (tc_loop t) \<noteq> None" using 1(8) e(3) by (simp add: dom_def set_eq_iff)
    ultimately show ?case using 1 conns1 c(3) by (auto simp: closing_def setState_def)
  qed
  obtain w2 where w2: "conn_call (server_call K U) (tc_connectionCallback t) p w1 = Inr w2" "world_frame w1 w2"
    "interest (w_kern w2) = interest (w_kern w1)"
    using conn_call_quiet [where call = "server_call K U" and cb = "tc_connectionCallback t", OF quiet] by blast
  note f2 = world_frame_servers [OF w2(2)]
  have "handleClose K (server_call K U) p w = removeConnection K s p w2"
    using t e w1 w2(1) f2(3) conns1 setState_server [of kDisconnected t]
    by (simp add: handleClose_def conn_at_def assertInLoopThread_def isInLoopThread_def loop_at_def conn_call_def)
  moreover have "closing interest p ?t w2" by (rule closing_frame [OF conjunct1 [OF cl1] w2(2,3)])
  moreover have "w_thread w1 = w_thread w" using fr by (simp add: reactor_frame_def)
  ultimately show thesis
    using f2 conns1 cl1 reactor_frame_servers [OF fr] by (intro that [of w2]) simp_all
qed

lemma handleRead_eof:
  assumes spec: "kernel_spec K interest sent" and env: "conn_env interest p w" and t: "conns w p = Some t"
    and eof: "fst (k_readv K (socket_fd (tc_socket t)) (readFd_iov (tc_inputBuffer t)) (w_kern w)) = Inr []"
  obtains w' b where "TcpConnection_handleRead K call p w = handleClose K call p w'" and "conn_env interest p w'"
    and "conns w' = (conns w)(p \<mapsto> t\<lparr>tc_inputBuffer := b\<rparr>)" and "chans w' = chans w" and "servers w' = servers w"
    and "loops w' = loops w" and "w_thread w' = w_thread w"
proof -
  obtain c where c: "chans w (tc_channel t) = Some c" "chan_fd c = socket_fd (tc_socket t)" "buffer_ok (tc_inputBuffer t)"
    using env t conn_okE [of w p] by (metis conn_env_def option.inject)
  obtain w1 where sys: "syscall (k_readv K (chan_fd c) (readFd_iov (tc_inputBuffer t))) w = (Inr [], w1)"
    using eof c(2) by (cases "k_readv K (chan_fd c) (readFd_iov (tc_inputBuffer t)) (w_kern w)") (simp add: syscall_def)
  obtain b where b: "readFd_store [] (tc_inputBuffer t) = Inr b"
    by (rule readFd_store_ok [OF c(3), of "[]"]) (use c(3) in \<open>auto simp: buffer_ok_def\<close>)
  have rd: "readFd K (chan_fd c) (tc_inputBuffer t) w = Inr (Inr 0, b, w1)"
    using sys b by (simp add: readFd_def)
  have "conn_env interest p w1"
    using conn_env_kern [OF env readFd_frame(1) [OF rd]] readFd_frame(2) [OF rd, of interest]
      reads_leaveD(2) [OF kernel_specD(5) [OF spec]] by blast
  then have "conn_env interest p (upd_conn p (\<lambda>t. t\<lparr>tc_inputBuffer := b\<rparr>) w1)"
    using readFd_buffer [OF rd kernel_specD(3) [OF spec] c(3)] by (intro conn_env_input)
  moreover note f = world_frame_servers [OF readFd_frame(1) [OF rd]]
  ultimately show thesis
    using t c rd by (intro that [of "upd_conn p (\<lambda>t. t\<lparr>tc_inputBuffer := b\<rparr>) w1" b])
      (simp_all add: TcpConnection_handleRead_def conn_at_def chan_at_def)
qed

lemma run_queued_empty:
  assumes "loops w l = Some e" and "el_pendingFunctors e = []"
  obtains w' where "run_queued K U l w = Inr w'" and "conns w' = conns w" and "chans w' = chans w"
    and "pollers w' = pollers w" and "servers w' = servers w" and "w_kern w' = w_kern w"
    and "loops w' = (loops w)(l \<mapsto> e\<lparr>el_pendingFunctors := [], el_callingPendingFunctors := False\<rparr>)"
  using assms by (auto simp: run_queued_def doPendingFunctors_def loop_at_def Let_def server_release_def)

text \<open>What is left of a connection that was destroyed: nothing, and everything else as it was.\<close>

definition destroyed ::
  "('k \<Rightarrow> fd \<Rightarrow> fd \<Rightarrow> (32 word \<times> ptr) option) \<Rightarrow> ('k \<Rightarrow> fd set) \<Rightarrow> ptr \<Rightarrow> tcp_connection \<Rightarrow>
   ('k, 'z) server_world_scheme \<Rightarrow> ('k, 'z) server_world_scheme \<Rightarrow> bool" where
  "destroyed interest opened p t w w' \<longleftrightarrow>
     reactor_ok interest w' \<and> conns w' = (conns w)(p := None) \<and> chans w' = (chans w)(tc_channel t := None) \<and>
     servers w' = servers w \<and> (\<forall>ep. interest (w_kern w') ep (socket_fd (tc_socket t)) = None) \<and>
     socket_fd (tc_socket t) \<notin> opened (w_kern w')"

lemma destroyed_from: 
  assumes "destroyed interest opened p t w1 w'" and "\<And>q. q \<noteq> p \<Longrightarrow> conns w1 q = conns w q"
    and "\<And>q. q \<noteq> tc_channel t \<Longrightarrow> chans w1 q = chans w q" and "servers w1 = servers w"
  shows "destroyed interest opened p t w w'"
proof -
  have "conns w1 = (conns w)(p := conns w1 p)" "chans w1 = (chans w)(tc_channel t := chans w1 (tc_channel t))"
    using assms(2,3) by auto
  then have "(conns w1)(p := None) = (conns w)(p := None)" "(chans w1)(tc_channel t := None) = (chans w)(tc_channel t := None)"
    by (metis fun_upd_upd)+
  then show ?thesis using assms(1,4) by (simp add: destroyed_def)
qed

text \<open>
  With \<^verbatim>\<open>connectDestroyed\<close> queued in the connection's loop, a turn of the server's loop (the same loop,
  or one with an empty queue) and one of the connection's loop destroy it.
\<close>

lemma two_turns_destroy:
  assumes spec: "kernel_spec K interest sent" and close: "close_spec K interest" and opened: "open_spec K opened"
    and cl: "closing interest p t w" and e: "loops w (tc_loop t) = Some e" "el_pendingFunctors e = [task_connectDestroyed p]"
    and server: "tc_closeCallback t = Some (cc_removeConnection s)" "servers w s = Some sv"
      "p \<notin> snd ` set (sv_connections sv)"
    and base: "loops w (sv_loop sv) = Some e0" "sv_loop sv \<noteq> tc_loop t \<Longrightarrow> el_pendingFunctors e0 = []"
    and user: "\<And>w. \<not> u_holds U p w"
  shows "\<exists>w1 w2. run_queued K U (sv_loop sv) w = Inr w1 \<and> run_queued K U (tc_loop t) w1 = Inr w2 \<and>
    destroyed interest opened p t w w2"
proof (cases "sv_loop sv = tc_loop t")
  case True
  then have free: "\<not> queue_holds p (sv_loop sv) (upd_loop (tc_loop t) (\<lambda>e. e\<lparr>el_pendingFunctors := []\<rparr>) w)"
    using e by (simp add: queue_holds_def)
  obtain w1 where w1: "run_queued K U (tc_loop t) w = Inr w1" "destroyed interest opened p t w w1"
    "loops w1 = (loops w)(tc_loop t \<mapsto> e\<lparr>el_pendingFunctors := [], el_callingPendingFunctors := False\<rparr>)"
    using run_queued_destroys [where U = U, OF spec close opened cl e server free user] by (auto simp: destroyed_def)
  have "loops w1 (tc_loop t) = Some (e\<lparr>el_pendingFunctors := [], el_callingPendingFunctors := False\<rparr>)"
    using w1(3) by simp
  then show ?thesis
  proof (rule run_queued_empty [where K = K and U = U])
    fix w2
    assume w2: "run_queued K U (tc_loop t) w1 = Inr w2" "conns w2 = conns w1" "chans w2 = chans w1" "pollers w2 = pollers w1"
      "servers w2 = servers w1" "w_kern w2 = w_kern w1"
    have "reactor_ok interest w2" by (rule reactor_ok_kern [of interest w1]) (use w1(2) w2 in \<open>simp_all add: destroyed_def\<close>)
    then show ?thesis using w1 w2 True by (intro exI [of _ w1] exI [of _ w2]) (simp add: destroyed_def)
  qed simp
next
  case False
  note empty = base(2) [OF False]
  show ?thesis
  proof (rule run_queued_empty [where K = K and U = U, OF base(1) empty], goal_cases)
    case (1 w1)
    have cl1: "closing interest p t w1" by (rule closing_cong [OF cl]) (use 1 in simp_all)
    have e1: "loops w1 (tc_loop t) = Some e" using 1(7) False e by simp
    have sv1: "servers w1 s = Some sv" using 1(5) server by simp
    have free: "\<not> queue_holds p (sv_loop sv) (upd_loop (tc_loop t) (\<lambda>e. e\<lparr>el_pendingFunctors := []\<rparr>) w1)"
      using 1(7) False by (simp add: queue_holds_def)
    obtain w2 where "run_queued K U (tc_loop t) w1 = Inr w2" "destroyed interest opened p t w1 w2"
      using run_queued_destroys [where U = U, OF spec close opened cl1 e1 e(2) server(1) sv1 server(3) free user]
      by (auto simp: destroyed_def)
    then show ?thesis using 1 destroyed_from [of interest opened p t w1 w2 w] by auto
  qed
qed

lemma removeConnectionInLoop_closing:
  assumes "closing interest p t w" and "removeConnectionInLoop K s p w = Inr w'" and "kernel_spec K interest sent"
  shows "closing interest p t w'"
proof (rule removeConnectionInLoop_eq [OF assms(2)])
  fix sv t1 w1
  assume w1: "w1 = upd_server s (\<lambda>v. v\<lparr>sv_connections := AList.delete (tc_name t1) (sv_connections v)\<rparr>) w"
    and q: "queueInLoop K (tc_loop t1) (task_connectDestroyed p) w1 = Inr w'"
  have "closing interest p t w1" by (rule closing_cong [OF assms(1)]) (simp_all add: w1)
  then show ?thesis by (rule closing_queue [OF _ q assms(3)])
qed

text \<open>The server's loop runs the queued \<^verbatim>\<open>removeConnectionInLoop\<close>: the connection stays alive in the other queue.\<close>

lemma run_queued_removes:
  assumes spec: "kernel_spec K interest sent" and cl: "closing interest p t w"
    and ok: "server_ok w s" and sv: "servers w s = Some sv" and mem: "(name, p) \<in> set (sv_connections sv)"
    and e0: "loops w (sv_loop sv) = Some e0" "el_pendingFunctors e0 = [task_removeConnectionInLoop s p]"
    and e: "loops w (tc_loop t) = Some e" "el_pendingFunctors e = []" and other: "sv_loop sv \<noteq> tc_loop t"
  obtains w' where "run_queued K U (sv_loop sv) w = Inr w'" and "closing interest p t w'"
    and "conns w' = conns w" and "chans w' = chans w"
    and "servers w' = (servers w)(s \<mapsto> sv\<lparr>sv_connections := filter (\<lambda>x. x \<noteq> (name, p)) (sv_connections sv)\<rparr>)"
    and "loops w' (tc_loop t) = Some (e\<lparr>el_pendingFunctors := [task_connectDestroyed p]\<rparr>)"
    and "loops w' (sv_loop sv) = Some (e0\<lparr>el_pendingFunctors := [], el_callingPendingFunctors := False\<rparr>)"
proof -
  let ?b = "sv_loop sv" and ?l = "tc_loop t"
  let ?e1 = "e0\<lparr>el_callingPendingFunctors := True, el_pendingFunctors := []\<rparr>"
  let ?w1 = "upd_loop ?b (\<lambda>e. e\<lparr>el_callingPendingFunctors := True, el_pendingFunctors := []\<rparr>) (as_thread (loop_tid ?b w) w)"
  have cl1: "closing interest p t ?w1" by (rule closing_cong [OF cl]) simp_all
  have ok1: "server_ok ?w1 s" by (rule server_ok_cong [OF ok]) simp_all
  have sv1: "servers ?w1 s = Some sv" using sv by simp
  have t1: "conns ?w1 p = Some t" using cl by (simp add: closing_def)
  have b1: "loops ?w1 ?b = Some ?e1" "el_threadId ?e1 = w_thread ?w1" using e0 by (simp_all add: loop_tid_def)
  have l1: "loops ?w1 ?l = Some e" using e other by simp
  obtain w2 where w2: "removeConnectionInLoop K s p ?w1 = Inr w2" "conns w2 = conns ?w1" "chans w2 = chans ?w1"
    "servers w2 = (servers ?w1)(s \<mapsto> sv\<lparr>sv_connections := filter (\<lambda>x. x \<noteq> (name, p)) (sv_connections sv)\<rparr>)"
    "loops w2 = (loops ?w1)(?l \<mapsto> e\<lparr>el_pendingFunctors := el_pendingFunctors e @ [task_connectDestroyed p]\<rparr>)"
    using removeConnectionInLoop_ok [OF ok1 sv1 mem t1 b1 l1, of K] by blast
  let ?w3 = "upd_loop ?b (\<lambda>e. e\<lparr>el_callingPendingFunctors := False\<rparr>) w2"
  have "conn_owned U p ?w3"
    using w2(2,5) t1 other e(2) by (auto simp: conn_owned_def queue_holds_def)
  then have "run_queued K U ?b w = Inr ?w3"
    using w2(1,5) e0 other by (simp add: run_queued_def doPendingFunctors_def loop_at_def Let_def server_release_def release_conn_def)
  moreover have "closing interest p t ?w3"
    by (rule closing_cong [OF removeConnectionInLoop_closing [OF cl1 w2(1) spec]]) simp_all
  ultimately show thesis using w2 e e0 other by (intro that [of ?w3]) simp_all
qed

text \<open>
  The second half of a close, from the request to remove a closing connection: in the server's thread
  the map entry goes at once, from another thread by a task in the server's queue.
\<close>

definition removal_destroys ::
  "'k kernel \<Rightarrow> ('k \<Rightarrow> fd \<Rightarrow> fd \<Rightarrow> (32 word \<times> ptr) option) \<Rightarrow> ('k \<Rightarrow> fd set) \<Rightarrow> ('k, 'z) server_world_scheme user_code \<Rightarrow>
   ptr \<Rightarrow> tcp_server \<Rightarrow> ptr \<Rightarrow> tcp_connection \<Rightarrow> ('k, 'z) server_world_scheme \<Rightarrow> bool" where
  "removal_destroys K interest opened U s sv p t w \<longleftrightarrow>
     (\<exists>w1 w2 w3 v. removeConnection K s p w = Inr w1 \<and> run_queued K U (sv_loop sv) w1 = Inr w2 \<and>
        run_queued K U (tc_loop t) w2 = Inr w3 \<and> destroyed interest opened p t v w3 \<and>
        conns v = conns w \<and> chans v = chans w \<and>
        servers v = (servers w)(s \<mapsto> sv\<lparr>sv_connections := filter (\<lambda>x. x \<noteq> (tc_name t, p)) (sv_connections sv)\<rparr>))"

lemma unlisted_after_removal:
  assumes "server_ok w s" and "servers w s = Some sv" and "(name, p) \<in> set (sv_connections sv)"
  shows "p \<notin> snd ` set (filter (\<lambda>x. x \<noteq> (name, p)) (sv_connections sv))"
proof -
  have "inj_on snd (set (sv_connections sv))" using assms(1,2) by (auto simp: server_ok_def distinct_map)
  then show ?thesis using assms(3) inj_onD [of snd "set (sv_connections sv)" "(name, p)"] by auto
qed

lemma removal_destroys_here:
  assumes spec: "kernel_spec K interest sent" and close: "close_spec K interest" and opened: "open_spec K opened"
    and cl: "closing interest p t w" and server: "server_ok w s" "servers w s = Some sv" "(tc_name t, p) \<in> set (sv_connections sv)"
    and cb: "tc_closeCallback t = Some (cc_removeConnection s)"
    and e: "loops w (tc_loop t) = Some e" "el_pendingFunctors e = []"
    and e0: "loops w (sv_loop sv) = Some e0" "el_pendingFunctors e0 = []" and here: "el_threadId e0 = w_thread w"
    and user: "\<And>w. \<not> u_holds U p w"
  shows "removal_destroys K interest opened U s sv p t w"
proof -
  let ?sv = "sv\<lparr>sv_connections := filter (\<lambda>x. x \<noteq> (tc_name t, p)) (sv_connections sv)\<rparr>"
  have t: "conns w p = Some t" using cl by (simp add: closing_def)
  obtain w1 where w1: "removeConnectionInLoop K s p w = Inr w1" "conns w1 = conns w" "chans w1 = chans w"
    "servers w1 = (servers w)(s \<mapsto> ?sv)"
    "loops w1 = (loops w)(tc_loop t \<mapsto> e\<lparr>el_pendingFunctors := el_pendingFunctors e @ [task_connectDestroyed p]\<rparr>)"
    using removeConnectionInLoop_ok [OF server t e0(1) here e(1), of K] by blast
  have rem: "removeConnection K s p w = Inr w1"
    using w1(1) server(2) e0(1) here by (simp add: removeConnection_def server_at_def runInLoop_inside)
  let ?e1 = "e\<lparr>el_pendingFunctors := [task_connectDestroyed p]\<rparr>"
  have e1: "loops w1 (tc_loop t) = Some ?e1" "el_pendingFunctors ?e1 = [task_connectDestroyed p]"
    using w1(5) e(2) by simp_all
  have base1: "loops w1 (sv_loop ?sv) = Some (if sv_loop sv = tc_loop t then ?e1 else e0)"
    "sv_loop ?sv \<noteq> tc_loop t \<Longrightarrow> el_pendingFunctors (if sv_loop sv = tc_loop t then ?e1 else e0) = []"
    using w1(5) e(2) e0 by simp_all
  have sv1: "servers w1 s = Some ?sv" "p \<notin> snd ` set (sv_connections ?sv)"
    using w1(4) unlisted_after_removal [OF server] by simp_all
  show ?thesis
    using two_turns_destroy [where U = U, OF spec close opened removeConnectionInLoop_closing [OF cl w1(1) spec]
        e1 cb sv1 base1 user] rem w1(2-4) unfolding removal_destroys_def by auto
qed

lemma removal_destroys_there:
  assumes spec: "kernel_spec K interest sent" and close: "close_spec K interest" and opened: "open_spec K opened"
    and cl: "closing interest p t w" and server: "server_ok w s" "servers w s = Some sv" "(tc_name t, p) \<in> set (sv_connections sv)"
    and cb: "tc_closeCallback t = Some (cc_removeConnection s)"
    and e: "loops w (tc_loop t) = Some e" "el_pendingFunctors e = []" "el_threadId e = w_thread w"
    and e0: "loops w (sv_loop sv) = Some e0" "el_pendingFunctors e0 = []" and there: "el_threadId e0 \<noteq> w_thread w"
    and user: "\<And>w. \<not> u_holds U p w"
  shows "removal_destroys K interest opened U s sv p t w"
proof -
  let ?sv = "sv\<lparr>sv_connections := filter (\<lambda>x. x \<noteq> (tc_name t, p)) (sv_connections sv)\<rparr>"
  have other: "sv_loop sv \<noteq> tc_loop t" using there e e0 by auto
  obtain w1 where w1: "queueInLoop K (sv_loop sv) (task_removeConnectionInLoop s p) w = Inr w1"
    using queueInLoop_total [OF e0(1)] by blast
  have rem: "removeConnection K s p w = Inr w1"
    using w1 server(2) e0(1) there by (simp add: removeConnection_def server_at_def runInLoop_outside)
  note q = queueInLoop_servers [OF w1]
  have l1: "loops w1 = (loops w)(sv_loop sv \<mapsto> e0\<lparr>el_pendingFunctors := [task_removeConnectionInLoop s p]\<rparr>)"
    and c1: "chans w1 = chans w"
    by (rule queueInLoopE [OF w1]; use e0 in simp)+
  let ?e1 = "e0\<lparr>el_pendingFunctors := [task_removeConnectionInLoop s p]\<rparr>"
  have b1: "loops w1 (sv_loop sv) = Some ?e1" "el_pendingFunctors ?e1 = [task_removeConnectionInLoop s p]"
    and e1: "loops w1 (tc_loop t) = Some e" and sv1: "servers w1 s = Some sv"
    using l1 other e(1) q server(2) by simp_all
  show ?thesis
  proof (rule run_queued_removes [where U = U, OF spec closing_queue [OF cl w1 spec] server_ok_queue [OF w1 server(1)]
        sv1 server(3) b1 e1 e(2) other], goal_cases)
    case (1 w2)
    have sv2: "servers w2 s = Some ?sv" "p \<notin> snd ` set (sv_connections ?sv)"
      using 1(5) unlisted_after_removal [OF server] by simp_all
    have free: "\<not> queue_holds p (sv_loop ?sv) (upd_loop (tc_loop t) (\<lambda>e. e\<lparr>el_pendingFunctors := []\<rparr>) w2)"
      using 1(7) other by (simp add: queue_holds_def)
    obtain w3 where "run_queued K U (tc_loop t) w2 = Inr w3" "destroyed interest opened p t w2 w3"
      using run_queued_destroys [where U = U, OF spec close opened 1(2,6) _ cb sv2 free user]
      by (auto simp: destroyed_def)
    then show ?thesis using rem 1 q c1 unfolding removal_destroys_def by auto
  qed
qed

section \<open>Properties\<close>

text \<open>
  The first half of the close: end of file is read, the connection is marked disconnected, its user is
  told and the server is asked to remove it.
\<close>

lemma eof_requests_removal:
  assumes spec: "kernel_spec K interest sent" and total: "epoll_total K interest" and env: "conn_env interest p w"
    and ok: "server_ok w s" and sv: "servers w s = Some sv" and mem: "(name, p) \<in> set (sv_connections sv)"
    and t: "conns w p = Some t" and fd: "fd_private w (tc_channel t)"
    and eof: "fst (k_readv K (socket_fd (tc_socket t)) (readFd_iov (tc_inputBuffer t)) (w_kern w)) = Inr []"
    and quiet: "\<And>cb. tc_connectionCallback t = Some cb \<Longrightarrow> quiet interest (server_call K U cb p)"
  obtains w' t' where "TcpConnection_handleRead K (server_call K U) p w = removeConnection K s p w'"
    and "closing interest p t' w'" and "server_ok w' s" and "conns w' = (conns w)(p \<mapsto> t')"
    and "\<And>q. q \<noteq> tc_channel t \<Longrightarrow> chans w' q = chans w q" and "servers w' = servers w" and "loops w' = loops w"
    and "w_thread w' = w_thread w" and "tc_loop t' = tc_loop t" and "tc_channel t' = tc_channel t"
    and "tc_socket t' = tc_socket t" and "tc_closeCallback t' = Some (cc_removeConnection s)" and "tc_name t' = tc_name t"
proof -
  have name: "tc_name t = name" and close: "tc_closeCallback t = Some (cc_removeConnection s)"
    using ok sv mem t by (auto simp: server_ok_def)
  show thesis
  proof (rule handleRead_eof [where call = "server_call K U", OF spec env t eof], goal_cases)
    case (1 w1 b)
    let ?t1 = "t\<lparr>tc_inputBuffer := b\<rparr>"
    note r = 1
    have t1: "conns w1 p = Some ?t1" using 1 by simp
    have fd1: "fd_private w1 (tc_channel ?t1)" using fd fd_private_cong [of w1 w] 1 by simp
    have close1: "tc_closeCallback ?t1 = Some (cc_removeConnection s)" using close by simp
    show ?case
    proof (rule handleClose_closing [where U = U, OF spec total 1(2) t1 close1 fd1], goal_cases)
      case (2 w2)
      have "server_ok w2 s"
        by (rule server_ok_cong [OF ok]) (use r 2 t in \<open>auto simp: setState_def\<close>)
      then show ?case using r 2 close by (intro that [of w2 "setState kDisconnected ?t1"]) (simp_all add: setState_def)
    qed (use quiet in simp)
  qed
qed

text \<open>
  C4: A connection whose peer has closed is destroyed, completely and without a leak, whether its loop is
  the server's own or another thread's. When \<^verbatim>\<open>handleRead\<close> reads end of file, it and one turn of the
  task queues of the server's loop and of the connection's loop all succeed; then the connection object and its channel
  are gone from the heap, the server's map has lost exactly this entry, no epoll instance watches the fd,
  the fd is closed, every other connection and channel is untouched, and the reactor invariant holds.
\<close>

theorem closed_connection_is_destroyed:
  assumes "kernel_spec K interest sent" and "epoll_total K interest" and "close_spec K interest" and "open_spec K opened"
    and "conn_env interest p w" and "server_ok w s" and "servers w s = Some sv" and "(name, p) \<in> set (sv_connections sv)"
    and "conns w p = Some t" and "fd_private w (tc_channel t)"
    and "loops w (tc_loop t) = Some e" and "el_pendingFunctors e = []"
    and "loops w (sv_loop sv) = Some e0" and "el_pendingFunctors e0 = []"
    and "fst (k_readv K (socket_fd (tc_socket t)) (readFd_iov (tc_inputBuffer t)) (w_kern w)) = Inr []"
    and "\<forall>cb. tc_connectionCallback t = Some cb \<longrightarrow> quiet interest (server_call K U cb p)" and "\<forall>w. \<not> u_holds U p w"
  shows "\<exists>w1 w2 w3. TcpConnection_handleRead K (server_call K U) p w = Inr w1 \<and>
    run_queued K U (sv_loop sv) w1 = Inr w2 \<and> run_queued K U (tc_loop t) w2 = Inr w3 \<and>
    reactor_ok interest w3 \<and> conns w3 = (conns w)(p := None) \<and> chans w3 = (chans w)(tc_channel t := None) \<and>
    servers w3 = (servers w)(s \<mapsto> sv\<lparr>sv_connections := filter (\<lambda>x. x \<noteq> (name, p)) (sv_connections sv)\<rparr>) \<and>
    (\<forall>ep. interest (w_kern w3) ep (socket_fd (tc_socket t)) = None) \<and> socket_fd (tc_socket t) \<notin> opened (w_kern w3)"
proof -
  have here: "el_threadId e = w_thread w"
    by (rule conn_hereE [OF _ assms(9)]) (use assms(5,11) in \<open>auto simp: conn_env_def\<close>)
  have name: "tc_name t = name" using assms(6-9) by (auto simp: server_ok_def)
  show ?thesis
  proof (rule eof_requests_removal [where U = U, OF assms(1,2,5-10,15)], goal_cases)
    case (2 w0 t')
    have mem: "(tc_name t', p) \<in> set (sv_connections sv)" using 2(13) name assms(8) by simp
    have sv0: "servers w0 s = Some sv" using 2(6) assms(7) by simp
    have e: "loops w0 (tc_loop t') = Some e" and e0: "loops w0 (sv_loop sv) = Some e0" using 2 assms(11,13) by simp_all
    have "removal_destroys K interest opened U s sv p t' w0"
    proof (cases "el_threadId e0 = w_thread w0")
      case True
      show ?thesis
        by (rule removal_destroys_here [OF assms(1,3,4) 2(2,3) sv0 mem 2(12) e assms(12) e0 assms(14) True])
          (use assms(17) in blast)
    next
      case False
      show ?thesis
        by (rule removal_destroys_there [OF assms(1,3,4) 2(2,3) sv0 mem 2(12) e assms(12) _ e0 assms(14) False])
          (use assms(17) here 2(8) in simp_all)
    qed
    moreover have "(conns w0)(p := None) = (conns w)(p := None)" using 2(4) by simp
    moreover have "(chans w0)(tc_channel t := None) = (chans w)(tc_channel t := None)" using 2(5) by auto
    ultimately show ?case
      using 2 name assms(7) by (auto simp: removal_destroys_def destroyed_def)
  qed (use assms(16) in blast)
qed

text \<open>
  A server at 30 in the loop at 1 of thread 1, and its connection at 50 in the loop at 2 of thread 2, which is running.
  Nothing waits on the connection's fd 8, so a read finds end of file.
\<close>

definition sample_user :: "('k, 'z) server_world_scheme user_code" where
  "sample_user = \<lparr>u_timer = (\<lambda>_. Inr), u_event = (\<lambda>_. Inr), u_task = (\<lambda>_. Inr), u_conn = (\<lambda>_ _. Inr),
     u_newconn = (\<lambda>_ _ _. Inr), u_holds = (\<lambda>_ _. False)\<rparr>"

definition remote_conn :: tcp_connection where
  "remote_conn = sample_conn\<lparr>tc_loop := 2, tc_name := ''echo-1'', tc_socket := Socket 8, tc_channel := 51,
     tc_connectionCallback := Some (cc_user 0), tc_closeCallback := Some (cc_removeConnection 30)\<rparr>"

definition remote_world :: "sim server_world" where
  "remote_world = sample_server_world\<lparr>
     w_kern := sim_init\<lparr>si_interest := (\<lambda>_ _. None)(3 := [7 \<mapsto> (kReadEvent, 21)], 4 := [8 \<mapsto> (kReadEvent, 51)]), si_next_fd := 9\<rparr>,
     w_thread := 2,
     chans := (chans sample_server_world)(51 \<mapsto> (TcpConnection_channel 50 2 8)\<lparr>chan_events := kReadEvent, chan_index := kAdded\<rparr>),
     pollers := (pollers sample_server_world)(2 \<mapsto> \<lparr>ep_channels = [8 \<mapsto> 51], ep_fd = 4, ep_events_size = 16\<rparr>),
     loops := [1 \<mapsto> sample_loop, 2 \<mapsto> sample_loop\<lparr>el_threadId := 2, el_wakeupFd := 6\<rparr>],
     conns := [50 \<mapsto> remote_conn],
     servers := servers busy_server_world\<rparr>"

lemma remote_reactor_ok: "reactor_ok si_interest remote_world"
  by (auto simp: remote_world_def reactor_ok_def poller_ok_def sample_server_world_def expected_interest_def enrolled_def
      sim_init_def Channel_new_def setReadCallback_def TcpConnection_channel_def setErrorCallback_def setCloseCallback_def
      setWriteCallback_def fun_eq_iff split: if_splits)

lemma remote_env:
  "conn_env si_interest 50 remote_world" "server_ok remote_world 30" "fd_private remote_world 51"
proof -
  have "conn_here remote_world 50" "conn_ok remote_world 50"
    by (simp_all add: conn_here_def conn_ok_def may_register_def remote_world_def remote_conn_def sample_conn_def sample_loop_def
        TcpConnection_channel_def Channel_new_def setErrorCallback_def setCloseCallback_def setWriteCallback_def
        setReadCallback_def buffer_ok_def sample_buffer_def max_object_size_def Buffer_contents_def isWriting_def
        kReadEvent_def kWriteEvent_def epoll_bits)
  then show "conn_env si_interest 50 remote_world" by (simp add: conn_env_def remote_reactor_ok)
  have "''echo-1'' = ''echo'' @ ''-'' @ to_string 1" by code_simp
  then show "server_ok remote_world 30"
    by (auto simp: server_ok_def remote_world_def remote_conn_def busy_server_world_def sample_server_world_def INT_MAX_def
        intro: exI [of _ 1])
  show "fd_private remote_world 51"
    by (auto simp: fd_private_def remote_world_def sample_server_world_def Channel_new_def setReadCallback_def split: if_splits)
qed

theorem closed_connection_is_destroyed_witness:
  "\<exists>w1 w2 w3. TcpConnection_handleRead sim_kernel (server_call sim_kernel sample_user) 50 remote_world = Inr w1 \<and>
     run_queued sim_kernel sample_user 1 w1 = Inr w2 \<and> run_queued sim_kernel sample_user 2 w2 = Inr w3 \<and>
     conns w3 50 = None \<and> si_interest (w_kern w3) 4 8 = None \<and> 8 \<notin> sim_opened (w_kern w3)"
proof -
  let ?w = remote_world
  obtain sv where sv: "servers ?w 30 = Some sv" "sv_connections sv = [(''echo-1'', 50)]" "sv_loop sv = 1"
    by (simp add: remote_world_def busy_server_world_def sample_server_world_def)
  have mem: "(''echo-1'', 50) \<in> set (sv_connections sv)" using sv by simp
  have c: "conns ?w 50 = Some remote_conn" by (simp add: remote_world_def)
  have f: "tc_channel remote_conn = 51" "tc_loop remote_conn = 2" "socket_fd (tc_socket remote_conn) = 8"
    by (simp_all add: remote_conn_def)
  have priv: "fd_private ?w (tc_channel remote_conn)" using remote_env(3) f by simp
  have l: "loops ?w (tc_loop remote_conn) = Some (sample_loop\<lparr>el_threadId := 2, el_wakeupFd := 6\<rparr>)"
    "el_pendingFunctors (sample_loop\<lparr>el_threadId := 2, el_wakeupFd := 6\<rparr>) = []"
    "loops ?w (sv_loop sv) = Some sample_loop" "el_pendingFunctors sample_loop = []"
    using f sv by (simp_all add: remote_world_def sample_loop_def)
  have eof: "fst (k_readv sim_kernel (socket_fd (tc_socket remote_conn)) (readFd_iov (tc_inputBuffer remote_conn)) (w_kern ?w)) = Inr []"
    by (simp add: f sim_kernel_def sim_readv_def remote_world_def sim_init_def Let_def)
  have quiet: "\<forall>cb. tc_connectionCallback remote_conn = Some cb \<longrightarrow> quiet si_interest (server_call sim_kernel sample_user cb 50)"
    by (simp add: remote_conn_def quiet_def sample_user_def)
  have held: "\<forall>w. \<not> u_holds sample_user 50 w" by (simp add: sample_user_def)
  show ?thesis
    using closed_connection_is_destroyed [OF sim_kernel_spec sim_epoll_total sim_close_spec sim_open_spec remote_env(1,2)
        sv(1) mem c priv l eof quiet held] unfolding sv(3) f by fastforce
qed

text \<open>A server without threads of its own and its connection at 50, both in the loop at 1 of the running thread.\<close>

definition local_world :: "sim server_world" where
  "local_world = sample_server_world\<lparr>
     w_kern := sim_init\<lparr>si_interest := (\<lambda>_ _. None)(3 := [7 \<mapsto> (kReadEvent, 21), 8 \<mapsto> (kReadEvent, 51)]), si_next_fd := 9\<rparr>,
     chans := (chans sample_server_world)(51 \<mapsto> (TcpConnection_channel 50 1 8)\<lparr>chan_events := kReadEvent, chan_index := kAdded\<rparr>),
     pollers := [1 \<mapsto> \<lparr>ep_channels = [7 \<mapsto> 21, 8 \<mapsto> 51], ep_fd = 3, ep_events_size = 16\<rparr>],
     conns := [50 \<mapsto> remote_conn\<lparr>tc_loop := 1\<rparr>], servers := servers busy_server_world\<rparr>"

lemma local_reactor_ok: "reactor_ok si_interest local_world"
  by (auto simp: local_world_def reactor_ok_def poller_ok_def sample_server_world_def expected_interest_def enrolled_def
      sim_init_def Channel_new_def setReadCallback_def TcpConnection_channel_def setErrorCallback_def setCloseCallback_def
      setWriteCallback_def fun_eq_iff split: if_splits)


text \<open>
  C9: The listening socket and the server work together. When the acceptor's channel is readable, the callback
  stored in it always succeeds. If \<^verbatim>\<open>accept\<close> gives no connection, nothing but the log and the kernel changes
  and no fd is left open. Otherwise the fd is a new one and a new connection owns it: it is filed in the server's map under a name of its own and
  lives in the next loop of the pool, established and watched for reading if that loop runs in this
  thread, and with the task to establish it queued otherwise. (The connection callback may log and make
  system calls that do not change what epoll watches.)
\<close>

theorem accept_registers_connection:
  assumes "epoll_spec K interest" and "epoll_total K interest" and "socket_calls_leave K interest" and "open_spec K opened"
    and "reactor_ok interest w" and "server_ok w s" and "servers w s = Some sv" and "sv_nextConnId sv < INT_MAX"
    and "acceptors w a = Some ac" and "ac_newConnectionCallback ac = Some (nc_newConnection s)" and "alloc_fresh alloc w"
    and "loops w (sv_loop sv) = Some e0" and "el_threadId e0 = w_thread w" and "tp_baseLoop (sv_threadPool sv) = sv_loop sv"
    and "pick_loop (sv_threadPool sv) = Inr (ioLoop, pool)" and "loops w ioLoop = Some e" and "pollers w ioLoop \<noteq> None"
    and "\<forall>q c. chans w q = Some c \<longrightarrow> chan_fd c \<in> opened (w_kern w)"
    and "\<forall>p. quiet interest (server_call K U (sv_connectionCallback sv) p)"
  shows "case fst (Socket_accept K (ac_socket ac) w) of
      None \<Rightarrow> \<exists>w'. server_exec K U alloc (cb_Acceptor_handleRead a) w = Inr w' \<and> world_frame w w' \<and>
        opened (w_kern w') = opened (w_kern w)
    | Some (f, addr) \<Rightarrow> f \<notin> opened (w_kern w) \<and>
        (\<exists>w' p t. server_exec K U alloc (cb_Acceptor_handleRead a) w = Inr w' \<and> tc_loop t = ioLoop \<and>
           registered interest s sv pool f p t w w')"
proof -
  obtain r w1 where acc: "Socket_accept K (ac_socket ac) w = (r, w1)" using surj_pair by metis
  note out = Acceptor_handleRead_outcome [OF assms(4,9) acc, of "server_newconn K U alloc"]
  have fr: "world_frame w w1" using out by blast
  note f1 = world_frame_servers [OF fr]
  have kern: "interest (w_kern w1) = interest (w_kern w)"
    using sockets_accept_leaves [OF assms(3) acc [unfolded Socket_accept_def]] .
  show ?thesis
  proof (cases r)
    case None
    then show ?thesis using out acc by (auto simp: world_frame_def log_defs)
  next
    case (Some fa)
    obtain f addr where fa: "fa = (f, addr)" by (cases fa)
    have new: "f \<notin> opened (w_kern w)"
      and run: "server_exec K U alloc (cb_Acceptor_handleRead a) w = newConnection K (server_call K U) alloc s f addr w1"
      using out Some fa assms(10) by simp_all
    have w1: "reactor_ok interest w1" "server_ok w1 s" "alloc_fresh alloc w1" "servers w1 s = Some sv"
      using reactor_ok_kern [OF assms(5) f1(5,6) kern] server_ok_cong [OF assms(6), of w1] assms(7,11) f1
      by (simp_all add: alloc_fresh_def)
    obtain w' p t where w': "newConnection K (server_call K U) alloc s f addr w1 = Inr w'" "tc_loop t = ioLoop"
      "registered interest s sv pool f p t w1 w'"
      using newConnection_ok [OF assms(1-3) w1(1,2,4) assms(8) w1(3) _ _ assms(14,15), of e0 e f "server_call K U" addr]
        assms(12,13,16-19) f1 new by metis
    have "registered interest s sv pool f p t w w'" using w'(3) f1 by (simp add: registered_def)
    then show ?thesis using new run w'(1,2) acc Some fa by auto
  qed
qed

theorem accept_registers_connection_witness:
  "\<exists>w' p t. server_exec sim_kernel sample_user (\<lambda>_. (50, 51)) (cb_Acceptor_handleRead 20) sample_server_world = Inr w' \<and>
     conns w' p = Some t \<and> tc_socket t = Socket 9 \<and> tc_state t = kConnected \<and>
     watched_mask si_interest w' (tc_channel t) = Some kReadEvent"
proof -
  let ?w = sample_server_world
  obtain sv where sv: "servers ?w 30 = Some sv" by (simp add: sample_server_world_def)
  note sv' = sample_server_eq [OF sv]
  obtain ac where ac: "acceptors ?w 20 = Some ac" "ac_newConnectionCallback ac = Some (nc_newConnection 30)"
    by (simp add: sample_server_world_def)
  have acc: "\<exists>addr. fst (Socket_accept sim_kernel (ac_socket ac) ?w) = Some (9, addr)"
    by (simp add: Socket_accept_def sockets_accept_def syscall_def sim_kernel_def sim_accept_def sample_server_world_def sim_init_def)
  have id: "sv_nextConnId sv < INT_MAX" and base: "tp_baseLoop (sv_threadPool sv) = sv_loop sv"
    and pick: "pick_loop (sv_threadPool sv) = Inr (1, sv_threadPool sv)"
    by (simp_all add: sv' INT_MAX_def pick_loop_def EventLoopThreadPool_new_def)
  have loop: "loops ?w 1 = Some sample_loop" "loops ?w (sv_loop sv) = Some sample_loop" "el_threadId sample_loop = w_thread ?w"
    and po: "pollers ?w 1 \<noteq> None"
    by (simp_all add: sv' sample_server_world_def sample_loop_def)
  have fd: "\<forall>q c. chans ?w q = Some c \<longrightarrow> chan_fd c \<in> sim_opened (w_kern ?w)"
    by (simp add: sample_server_world_def Channel_new_def setReadCallback_def sim_opened_def sim_init_def)
  have quiet: "\<forall>p. quiet si_interest (server_call sim_kernel sample_user (sv_connectionCallback sv) p)"
    by (simp add: sv' quiet_def)
  note reg = accept_registers_connection [OF sim_epoll_spec sim_epoll_total sim_socket_calls_leave(1) sim_open_spec
      sample_server_ok(3,1) sv id ac sample_server_ok(2) loop(2,3) base pick loop(1) po fd quiet]
  show ?thesis using reg acc loop(1,3) by (fastforce simp: registered_def)
qed

end
