(* ===== verification/EchoServer.thy ===== *)
theory EchoServer
  imports Server
begin

text \<open>
  \<^verbatim>\<open>examples/echo_server.cc\<close> and \<^verbatim>\<open>examples/discard_server.cc\<close>: two programs on top of the library. Their
  lambdas are the user code of theory Server: callback 0 is the connection callback, callback 1 the
  message callback. The theorem follows a connection of the echo server through any sequence of
  readable and writable events.
\<close>

section \<open>The callbacks\<close>

definition log_connection ::
  "ptr \<Rightarrow> ('k, 'z) conn_world_scheme \<Rightarrow> ('k, 'z) conn_world_scheme res" where
  "log_connection p w =
     rbind (conn_at p w) (\<lambda>t.
       if TcpConnection_connected t then Inr (LOG_INFO ''connection up'' w)
       else Inr (LOG_INFO ''connection down'' w))"

definition echo_message ::
  "'k kernel \<Rightarrow> ptr \<Rightarrow> ('k, 'z) conn_world_scheme \<Rightarrow> ('k, 'z) conn_world_scheme res" where
  "echo_message K p w =
     rbind (conn_at p w) (\<lambda>t.
     rbind (retrieveAllAsString (tc_inputBuffer t)) (\<lambda>(msg, buf).
       TcpConnection_send K p msg (upd_conn p (\<lambda>t. t\<lparr>tc_inputBuffer := buf\<rparr>) w)))"

definition discard_message ::
  "ptr \<Rightarrow> ('k, 'z) conn_world_scheme \<Rightarrow> ('k, 'z) conn_world_scheme res" where
  "discard_message p w =
     rbind (conn_at p w) (\<lambda>t.
       let len = readableBytes (tc_inputBuffer t);
           w1 = upd_conn p (\<lambda>t. t\<lparr>tc_inputBuffer := retrieveAll (tc_inputBuffer t)\<rparr>) w
       in Inr (LOG_INFO (''discard message length: '' @ to_string (uint len)) w1))"

text \<open>A program whose only callbacks are the two lambdas, and which keeps no connection pointers.\<close>

definition two_callbacks ::
  "(ptr \<Rightarrow> 'w \<Rightarrow> 'w res) \<Rightarrow> (ptr \<Rightarrow> 'w \<Rightarrow> 'w res) \<Rightarrow> 'w user_code" where
  "two_callbacks onConnection onMessage =
     \<lparr>u_timer = (\<lambda>_. Inr), u_event = (\<lambda>_. Inr), u_task = (\<lambda>_. Inr),
      u_conn = (\<lambda>n. if n = 0 then onConnection else if n = 1 then onMessage else (\<lambda>_. Inr)),
      u_newconn = (\<lambda>_ _ _. Inr), u_holds = (\<lambda>_ _. False)\<rparr>"

definition echo_code :: "'k kernel \<Rightarrow> ('k, 'z) server_world_scheme user_code" where
  "echo_code K = two_callbacks log_connection (echo_message K)"

definition discard_code :: "('k, 'z) server_world_scheme user_code" where
  "discard_code = two_callbacks log_connection discard_message"

lemma echo_code_message [simp]: "u_conn (echo_code K) (Suc 0) = echo_message K"
  by (simp add: echo_code_def two_callbacks_def)

section \<open>The programs\<close>

text \<open>Where the objects of \<^verbatim>\<open>main\<close> live: the loop and its two channels, the server, its acceptor and channel.\<close>

record main_addrs =
  ma_loop :: ptr
  ma_timerChannel :: ptr
  ma_wakeupChannel :: ptr
  ma_server :: ptr
  ma_acceptor :: ptr
  ma_acceptChannel :: ptr

text \<open>Everything \<^verbatim>\<open>main\<close> does before it enters \<^verbatim>\<open>loop.loop()\<close>.\<close>

definition server_setup ::
  "'k kernel \<Rightarrow> main_addrs \<Rightarrow> (nat \<Rightarrow> nat \<times> ptr \<times> ptr \<times> ptr) \<Rightarrow> 16 word \<Rightarrow> string \<Rightarrow>
   ('k, 'z) server_world_scheme \<Rightarrow> ('k, 'z) server_world_scheme res" where
  "server_setup K ma addr port name w =
     rbind (EventLoop_new K (ma_loop ma) (ma_timerChannel ma) (ma_wakeupChannel ma) w) (\<lambda>w1.
     rbind (TcpServer_new K (ma_server ma) (ma_acceptor ma) (ma_acceptChannel ma) (ma_loop ma)
              (InetAddress_port port False) name w1) (\<lambda>w2.
     rbind (TcpServer_setThreadNum 3 (ma_server ma) w2) (\<lambda>w3.
       TcpServer_start K addr (ma_server ma)
         (upd_server (ma_server ma) (TcpServer_setMessageCallback (cc_user 1))
           (upd_server (ma_server ma) (TcpServer_setConnectionCallback (cc_user 0)) w3)))))"

definition echo_main ::
  "'k kernel \<Rightarrow> main_addrs \<Rightarrow> (nat \<Rightarrow> nat \<times> ptr \<times> ptr \<times> ptr) \<Rightarrow> (('k, 'z) server_world_scheme \<Rightarrow> ptr \<times> ptr) \<Rightarrow>
   ('k, 'z) server_world_scheme \<Rightarrow> ('k, 'z) server_world_scheme res option" where
  "echo_main K ma addr alloc w =
     (case server_setup K ma addr 9001 ''EchoServer'' w of
        Inl err \<Rightarrow> Some (Inl err)
      | Inr w1 \<Rightarrow> server_loop K (echo_code K) alloc (ma_loop ma) w1)"

definition discard_main ::
  "'k kernel \<Rightarrow> main_addrs \<Rightarrow> (nat \<Rightarrow> nat \<times> ptr \<times> ptr \<times> ptr) \<Rightarrow> (('k, 'z) server_world_scheme \<Rightarrow> ptr \<times> ptr) \<Rightarrow>
   ('k, 'z) server_world_scheme \<Rightarrow> ('k, 'z) server_world_scheme res option" where
  "discard_main K ma addr alloc w =
     (case server_setup K ma addr 9002 ''DiscardServer'' w of
        Inl err \<Rightarrow> Some (Inl err)
      | Inr w1 \<Rightarrow> server_loop K discard_code alloc (ma_loop ma) w1)"

section \<open>A connection of the echo server\<close>

datatype io_event = Readable | Writable

fun echo_step ::
  "'k kernel \<Rightarrow> ptr \<Rightarrow> io_event \<Rightarrow> ('k, 'z) server_world_scheme \<Rightarrow> ('k, 'z) server_world_scheme res" where
  "echo_step K p Readable w = TcpConnection_handleRead K (server_call K (echo_code K)) p w"
| "echo_step K p Writable w = handleWrite K p w"

text \<open>
  The peer is still there: a readable event does not find end of file, and a direct write of what
  was read does not find the connection broken.
\<close>

fun peer_there :: "'k kernel \<Rightarrow> ptr \<Rightarrow> io_event \<Rightarrow> ('k, 'z) server_world_scheme \<Rightarrow> bool" where
  "peer_there K p Writable w \<longleftrightarrow> True"
| "peer_there K p Readable w \<longleftrightarrow>
     (case conns w p of None \<Rightarrow> False | Some t \<Rightarrow>
        (case k_readv K (socket_fd (tc_socket t)) (readFd_iov (tc_inputBuffer t)) (w_kern w) of
           (Inl e, k) \<Rightarrow> True
         | (Inr bs, k) \<Rightarrow> bs \<noteq> [] \<and>
             (conn_pending w p = [] \<longrightarrow>
                fst (k_write K (socket_fd (tc_socket t)) bs k) \<notin> {Inl EPIPE, Inl ECONNRESET})))"

fun stays_up :: "'k kernel \<Rightarrow> ptr \<Rightarrow> io_event list \<Rightarrow> ('k, 'z) server_world_scheme \<Rightarrow> bool" where
  "stays_up K p [] w \<longleftrightarrow> True"
| "stays_up K p (ev # evs) w \<longleftrightarrow> peer_there K p ev w \<and>
     (case echo_step K p ev w of Inl e \<Rightarrow> True | Inr w1 \<Rightarrow> stays_up K p evs w1)"

text \<open>Between events: connected, well-formed, with an empty input buffer and the echo callback.\<close>

definition echo_inv ::
  "('k \<Rightarrow> fd \<Rightarrow> fd \<Rightarrow> (32 word \<times> ptr) option) \<Rightarrow> ('k \<Rightarrow> fd \<Rightarrow> bool) \<Rightarrow> ptr \<Rightarrow> fd \<Rightarrow> ('k, 'z) server_world_scheme \<Rightarrow> bool" where
  "echo_inv interest shut p f w \<longleftrightarrow> conn_inv interest shut w p \<and> conn_connected w p \<and>
     (\<exists>t. conns w p = Some t \<and> tc_messageCallback t = Some (cc_user 1) \<and> socket_fd (tc_socket t) = f \<and>
        Buffer_contents (tc_inputBuffer t) = [])"

lemma conn_inv_input:
  assumes "conn_inv interest shut w p" and "buffer_ok b"
  shows "conn_inv interest shut (upd_conn p (\<lambda>t. t\<lparr>tc_inputBuffer := b\<rparr>) w) p"
  using conn_env_input [of interest p w b] assms by (auto simp: conn_inv_def conn_env_def conn_pending_def)

lemma conn_inv_frame:
  assumes "conn_inv interest shut w p" and "world_frame w w'" and "interest (w_kern w') = interest (w_kern w)"
    and "shut (w_kern w') = shut (w_kern w)"
  shows "conn_inv interest shut w' p"
proof -
  note f = world_frame_fields [OF assms(2)]
  have "conn_pending w' p = conn_pending w p" by (simp add: conn_pending_def f)
  then show ?thesis
    using conn_env_kern [of interest p w w'] assms f by (auto simp: conn_inv_def conn_env_def)
qed

lemma conn_stream_input [simp]: "conn_stream sent (upd_conn p (\<lambda>t. t\<lparr>tc_inputBuffer := b\<rparr>) w) p = conn_stream sent w p"
  by (cases "conns w p") (simp_all add: conn_stream_def conn_sent_def conn_pending_def)

lemma send_fault_input [simp]:
  "send_fault K p data (upd_conn p (\<lambda>t. t\<lparr>tc_inputBuffer := b\<rparr>) w) = send_fault K p data w"
  by (cases "conns w p") (simp_all add: send_fault_def conn_pending_def)

lemma conn_stream_frame:
  "world_frame w w' \<Longrightarrow> sent (w_kern w') = sent (w_kern w) \<Longrightarrow> conn_stream sent w' p = conn_stream sent w p"
  by (simp add: conn_stream_def conn_sent_def conn_pending_def world_frame_fields cong: option.case_cong)

text \<open>The echo callback moves the whole input buffer to the stream.\<close>

lemma echo_message_ok:
  assumes spec: "kernel_spec K interest sent" and hc: "half_close_spec K shut" and inv: "conn_inv interest shut w p"
    and up: "conn_connected w p" and t: "conns w p = Some t" and ok: "buffer_ok (tc_inputBuffer t)"
    and nf: "\<not> send_fault K p (Buffer_contents (tc_inputBuffer t)) w"
    and run: "echo_message K p w = Inr w'" and view: "call_view K v"
  shows "conn_inv interest shut w' p \<and> conn_connected w' p \<and> v (w_kern w') = v (w_kern w) \<and>
    conn_stream sent w' p = conn_stream sent w p @ Buffer_contents (tc_inputBuffer t) \<and>
    (\<exists>ib ob. conns w' p = Some (t\<lparr>tc_inputBuffer := ib, tc_outputBuffer := ob\<rparr>) \<and> Buffer_contents ib = [])"
proof -
  let ?msg = "Buffer_contents (tc_inputBuffer t)" and ?ib = "retrieve (readableBytes (tc_inputBuffer t)) (tc_inputBuffer t)"
  let ?w = "upd_conn p (\<lambda>t. t\<lparr>tc_inputBuffer := ?ib\<rparr>) w" and ?t = "t\<lparr>tc_inputBuffer := ?ib\<rparr>"
  have send: "TcpConnection_send K p ?msg ?w = Inr w'"
    using run t ok by (simp add: echo_message_def conn_at_def retrieveAllAsString_ok)
  have empty: "Buffer_contents ?ib = []" by (simp add: retrieve_ok(2) [OF ok] length_contents [OF ok])
  have inv': "conn_inv interest shut ?w p" by (rule conn_inv_input [OF inv retrieve_ok(1) [OF ok]])
  have small: "length ?msg \<le> max_object_size" using ok by (auto simp: length_contents [OF ok] buffer_ok_def unat_readableBytes [OF ok])
  have t': "conns ?w p = Some ?t" and st: "tc_state ?t = kConnected"
    using t up by (simp_all add: conn_connected_def TcpConnection_connected_def)
  have up': "conn_connected ?w p" using t st by (simp add: conn_connected_def TcpConnection_connected_def)
  have parts: "reactor_ok interest ?w" "conn_here ?w p" "conn_ok ?w p" using inv' by (simp_all add: conn_inv_def)
  obtain e where "loops ?w (tc_loop ?t) = Some e" "el_threadId e = w_thread ?w" by (rule conn_hereE [OF parts(2) t'])
  then have sl: "sendInLoop K p ?msg ?w = Inr w'"
    using send t st by (simp add: TcpConnection_send_def conn_at_def isInLoopThread_def loop_at_def)
  have "tc_state ?t \<noteq> kDisconnected" using st by simp
  from sendInLoop_ok [OF spec parts t' this small sl]
  obtain ob where "conns w' p = Some (?t\<lparr>tc_outputBuffer := ob\<rparr>)" by auto
  moreover have "v (w_kern w') = v (w_kern w)" using sendInLoop_view [OF sl view] by simp
  ultimately show ?thesis
    using send_step [OF spec hc inv' small send] up' nf empty by auto
qed

lemma echo_inv_frame:
  assumes "echo_inv interest shut p f w" and "world_frame w w'" and "interest (w_kern w') = interest (w_kern w)"
    and "shut (w_kern w') = shut (w_kern w)"
  shows "echo_inv interest shut p f w'"
  using assms conn_inv_frame [OF _ assms(2-4)] world_frame_servers [OF assms(2)]
  by (auto simp: echo_inv_def conn_connected_def)

text \<open>Reading from the socket changes nothing of the connection; what arrives is received.\<close>

lemma readv_keeps:
  assumes spec: "kernel_spec K interest sent" and rec: "receive_spec K received"
    and quiet: "\<forall>f iov. leaves (k_readv K f iov) shut"
    and sys: "syscall (k_readv K f iov) w = (r, w1)"
  shows "interest (w_kern w1) = interest (w_kern w)" and "shut (w_kern w1) = shut (w_kern w)"
    and "sent (w_kern w1) = sent (w_kern w)"
    and "received (w_kern w1) f = received (w_kern w) f @ (case r of Inl e \<Rightarrow> [] | Inr bs \<Rightarrow> bs)"
proof -
  show "interest (w_kern w1) = interest (w_kern w)" "shut (w_kern w1) = shut (w_kern w)" "sent (w_kern w1) = sent (w_kern w)"
    using syscall_leaves [OF _ sys] reads_leaveD(2) [OF kernel_specD(5) [OF spec]] reads_leaveD(2) [OF kernel_specD(6) [OF spec]] quiet
    by blast+
  have "k_readv K f iov (w_kern w) = (r, w_kern w1)" using sys by (auto simp: syscall_eq)
  then show "received (w_kern w1) f = received (w_kern w) f @ (case r of Inl e \<Rightarrow> [] | Inr bs \<Rightarrow> bs)"
    using rec unfolding receive_spec_def by (metis fun_upd_same)
qed

lemma readable_step:
  assumes spec: "kernel_spec K interest sent" and hc: "half_close_spec K shut" and rec: "receive_spec K received"
    and quiet: "\<forall>f iov. leaves (k_readv K f iov) shut" and inv: "echo_inv interest shut p f w"
    and there: "peer_there K p Readable w" and run: "echo_step K p Readable w = Inr w'"
  shows "echo_inv interest shut p f w' \<and> (\<exists>d. received (w_kern w') f = received (w_kern w) f @ d \<and>
    conn_stream sent w' p = conn_stream sent w p @ d)"
proof -
  obtain t where inv': "conn_inv interest shut w p" and up: "conn_connected w p" and t: "conns w p = Some t"
    and cb: "tc_messageCallback t = Some (cc_user 1)" and f: "socket_fd (tc_socket t) = f"
    and empty: "Buffer_contents (tc_inputBuffer t) = []"
    using inv by (auto simp: echo_inv_def)
  obtain c where c: "chans w (tc_channel t) = Some c" "chan_fd c = f" "buffer_ok (tc_inputBuffer t)"
    using inv' t f conn_okE [of w p] by (metis conn_inv_def option.inject)
  obtain r k where rv: "k_readv K f (readFd_iov (tc_inputBuffer t)) (w_kern w) = (r, k)" using surj_pair by metis
  obtain w1 where sys: "syscall (k_readv K f (readFd_iov (tc_inputBuffer t))) w = (r, w1)" and k: "w_kern w1 = k"
    using rv by (auto simp: syscall_def)
  have frame: "world_frame w w1" by (rule syscall_frame [OF sys])
  note fl = world_frame_servers [OF frame]
  note same = readv_keeps [OF spec rec quiet sys]
  have inv1: "conn_inv interest shut w1 p" by (rule conn_inv_frame [OF inv' frame same(1,2)])
  have view: "call_view K received" using rec by (simp add: receive_spec_def call_view_def ctl_leaves_def)
  have str1: "conn_stream sent w1 p = conn_stream sent w p" by (rule conn_stream_frame [OF frame same(3)])
  show ?thesis
  proof (cases r)
    case (Inl e)
    have "upd_conn p (\<lambda>t'. t'\<lparr>tc_inputBuffer := tc_inputBuffer t\<rparr>) w1 = w1"
      using t fl by (simp add: upd_conn_def fun_upd_idem)
    then obtain m where w': "w' = LOG_ERROR m (w1\<lparr>w_errno := e\<rparr>)"
      using run t c sys Inl fl
      by (auto simp: TcpConnection_handleRead_def conn_at_def chan_at_def readFd_def handleError_def)
    have frame': "world_frame w w'" using frame by (simp add: w' world_frame_def log_defs)
    show ?thesis
      using echo_inv_frame [OF inv frame'] conn_stream_frame [OF frame', of sent p] same Inl by (simp add: w')
  next
    case (Inr bs)
    obtain b where b: "readFd_store bs (tc_inputBuffer t) = Inr b" "buffer_ok b" "Buffer_contents b = bs"
    proof (rule readFd_store_ok [OF c(3), of bs])
      show "length bs \<le> sum_list (readFd_iov (tc_inputBuffer t))"
        using rv Inr kernel_specD(3) [OF spec] unfolding readv_spec_def by blast
    qed (use run t c sys Inr empty that in \<open>auto simp: TcpConnection_handleRead_def conn_at_def chan_at_def readFd_def\<close>)
    let ?w = "upd_conn p (\<lambda>t. t\<lparr>tc_inputBuffer := b\<rparr>) w1" and ?t = "t\<lparr>tc_inputBuffer := b\<rparr>"
    have bs: "bs \<noteq> []" "conn_pending w p = [] \<Longrightarrow> fst (k_write K f bs k) \<notin> {Inl EPIPE, Inl ECONNRESET}"
      using there t f rv Inr by simp_all
    have em: "echo_message K p ?w = Inr w'"
      using run t c cb sys Inr b(1) bs(1) fl
      by (simp add: TcpConnection_handleRead_def conn_at_def chan_at_def readFd_def conn_call_def)
    have t': "conns ?w p = Some ?t" using t fl by simp
    have pend: "conn_pending ?w p = conn_pending w p" using t fl by (simp add: conn_pending_def)
    have nf: "\<not> send_fault K p (Buffer_contents (tc_inputBuffer ?t)) ?w"
      using bs(2) pend t fl f k b(3) by (auto simp: send_fault_def split: sum.splits)
    have up': "conn_connected ?w p" using t fl up by (simp add: conn_connected_def TcpConnection_connected_def)
    have rcv: "received (w_kern ?w) f = received (w_kern w) f @ bs" using same(4) Inr by simp
    have ok': "buffer_ok (tc_inputBuffer ?t)" using b(2) by simp
    show ?thesis
      using echo_message_ok [OF spec hc conn_inv_input [OF inv1 b(2)] up' t' ok' nf em view] cb f rcv b(3) str1
      by (auto simp: echo_inv_def)
  qed
qed

lemma writable_step_echo:
  assumes spec: "kernel_spec K interest sent" and hc: "half_close_spec K shut" and rec: "receive_spec K received"
    and inv: "echo_inv interest shut p f w" and run: "handleWrite K p w = Inr w'"
  shows "echo_inv interest shut p f w' \<and> received (w_kern w') = received (w_kern w) \<and>
    conn_stream sent w' p = conn_stream sent w p"
proof -
  obtain t where inv': "conn_inv interest shut w p" and up: "conn_connected w p" and t: "conns w p = Some t"
    and cb: "tc_messageCallback t = Some (cc_user 1)" "socket_fd (tc_socket t) = f" "Buffer_contents (tc_inputBuffer t) = []"
    using inv by (auto simp: echo_inv_def)
  have parts: "reactor_ok interest w" "conn_here w p" "conn_ok w p" using inv' by (simp_all add: conn_inv_def)
  have "tc_state t \<noteq> kDisconnected" using up t by (simp add: conn_connected_def TcpConnection_connected_def)
  from handleWrite_ok [OF spec hc parts t this run]
  obtain b where "conns w' p = Some (t\<lparr>tc_outputBuffer := b\<rparr>)" by auto
  moreover have "received (w_kern w') = received (w_kern w)"
    by (rule handleWrite_view [OF run]) (use rec in \<open>simp_all add: receive_spec_def call_view_def ctl_leaves_def\<close>)
  ultimately show ?thesis
    using writable_step [OF spec hc inv' run] up cb by (auto simp: echo_inv_def)
qed

section \<open>Properties\<close>

text \<open>
  C3: The echo server echoes. Over any sequence of readable and writable events on a connection whose
  peer stays there, the bytes the kernel accepted for the peer followed by the bytes still in the output
  buffer grow by exactly the bytes that were read from the peer, in order, whatever the sizes of the
  reads and however short the writes; and the connection stays well-formed with its input consumed.
\<close>

theorem echo_server_echoes:
  assumes "kernel_spec K interest sent" and "half_close_spec K shut" and "receive_spec K received"
    and "\<forall>f iov. leaves (k_readv K f iov) shut" and "echo_inv interest shut p f w"
    and "rfold (echo_step K p) evs w = Inr w'" and "stays_up K p evs w"
  shows "echo_inv interest shut p f w' \<and> (\<exists>d. received (w_kern w') f = received (w_kern w) f @ d \<and>
    conn_stream sent w' p = conn_stream sent w p @ d)"
  using assms(5-7)
proof (induction evs arbitrary: w)
  case (Cons ev evs)
  obtain w1 where w1: "echo_step K p ev w = Inr w1" and rest: "rfold (echo_step K p) evs w1 = Inr w'"
    using Cons.prems(2) by (auto simp: rbind_eq_Inr)
  have there: "peer_there K p ev w" and up: "stays_up K p evs w1" using Cons.prems(3) w1 by simp_all
  have step: "echo_inv interest shut p f w1 \<and> (\<exists>d. received (w_kern w1) f = received (w_kern w) f @ d \<and>
      conn_stream sent w1 p = conn_stream sent w p @ d)"
  proof (cases ev)
    case Readable
    then show ?thesis
      using readable_step [OF assms(1-4) Cons.prems(1) there [unfolded Readable] w1 [unfolded Readable]] by simp
  next
    case Writable
    then have "handleWrite K p w = Inr w1" using w1 by simp
    then show ?thesis using writable_step_echo [OF assms(1-3) Cons.prems(1)] by simp
  qed
  then show ?case using Cons.IH [OF _ rest up] by auto
qed auto

text \<open>A connection of the echo server with \<open>hello\<close> waiting, on a kernel that takes four bytes per write.\<close>

definition echo_world :: "sim server_world" where
  "echo_world = sample_server_world\<lparr>
     w_kern := sim_init\<lparr>si_interest := (\<lambda>_ _. None)(3 := [7 \<mapsto> (kReadEvent, 11)]), si_input := (\<lambda>_. [])(7 := ''hello'')\<rparr>,
     chans := chans sample_world, pollers := pollers sample_world, loops := loops sample_world,
     conns := [10 \<mapsto> sample_conn\<lparr>tc_messageCallback := Some (cc_user 1)\<rparr>]\<rparr>"

lemma echo_world_inv: "echo_inv si_interest si_closed 10 7 echo_world"
proof -
  have "reactor_ok si_interest echo_world"
    by (auto simp: reactor_ok_def poller_ok_def echo_world_def sample_world_def expected_interest_def enrolled_def
        sim_init_def TcpConnection_channel_def Channel_new_def setErrorCallback_def setCloseCallback_def
        setWriteCallback_def setReadCallback_def fun_eq_iff split: if_splits)
  moreover have "conn_here echo_world 10" "conn_ok echo_world 10"
    by (simp_all add: conn_here_def conn_ok_def may_register_def echo_world_def sample_server_world_def sample_world_def
        sample_conn_def TcpConnection_channel_def Channel_new_def setErrorCallback_def setCloseCallback_def
        setWriteCallback_def setReadCallback_def buffer_ok_def sample_buffer_def max_object_size_def
        Buffer_contents_def isWriting_def kReadEvent_def kWriteEvent_def epoll_bits)
  ultimately show ?thesis
    by (simp add: echo_inv_def conn_inv_def conn_connected_def TcpConnection_connected_def echo_world_def sample_conn_def
        sample_buffer_def Buffer_contents_def sim_init_def subarray_def)
qed

text \<open>What \<^verbatim>\<open>readFd\<close> makes of it, and the state in which the callback runs.\<close>

definition echo_kern :: sim where
  "echo_kern = (w_kern echo_world)\<lparr>si_input := (\<lambda>_. [])(7 := []), si_received := (\<lambda>_. [])(7 := ''hello'')\<rparr>"

definition echo_input :: buffer where
  "echo_input = \<lparr>buf_data = replicate 8 (CHR 0x00) @ ''hello'' @ replicate 3 (CHR 0x00), readerIndex = 8, writerIndex = 13\<rparr>"

definition echo_called :: "sim server_world" where
  "echo_called = upd_conn 10 (\<lambda>t. t\<lparr>tc_inputBuffer := echo_input\<rparr>) (echo_world\<lparr>w_kern := echo_kern\<rparr>)"

lemma echo_world_read:
  "k_readv sim_kernel 7 (readFd_iov sample_buffer) (w_kern echo_world) = (Inr ''hello'', echo_kern)"
  "echo_step sim_kernel 10 Readable echo_world = echo_message sim_kernel 10 echo_called"
proof -
  have iov: "readFd_iov sample_buffer = [8, 65536]"
    by (simp add: readFd_iov_def writableBytes_def sample_buffer_def extrabuf_size_def Let_def)
  show rv: "k_readv sim_kernel 7 (readFd_iov sample_buffer) (w_kern echo_world) = (Inr ''hello'', echo_kern)"
    unfolding iov by (simp add: sim_kernel_def sim_readv_def Let_def echo_kern_def echo_world_def sim_init_def)
  have store: "readFd_store ''hello'' sample_buffer = Inr echo_input" by code_simp
  have conn: "conns echo_world 10 = Some (sample_conn\<lparr>tc_messageCallback := Some (cc_user 1)\<rparr>)"
    "tc_inputBuffer sample_conn = sample_buffer" "tc_channel sample_conn = 11"
    "map_option chan_fd (chans echo_world 11) = Some 7"
    by (simp_all add: echo_world_def sample_conn_def sample_world_def)
  obtain c where c: "chans echo_world 11 = Some c" "chan_fd c = 7" using conn(4) by auto
  show "echo_step sim_kernel 10 Readable echo_world = echo_message sim_kernel 10 echo_called"
    using rv store conn c
    by (simp add: TcpConnection_handleRead_def conn_at_def chan_at_def readFd_def syscall_def conn_call_def echo_called_def)
qed

theorem echo_server_echoes_witness:
  "\<exists>w'. rfold (echo_step sim_kernel 10) [Readable, Writable] echo_world = Inr w' \<and>
     conn_stream si_sent w' 10 = ''hello''"
proof -
  let ?run = "rbind (echo_message sim_kernel 10 echo_called) (rfold (echo_step sim_kernel 10) [Writable])"
  have leave: "\<forall>f iov. leaves (k_readv sim_kernel f iov) si_closed"
    by (simp add: leaves_def sim_kernel_def sim_readv_def Let_def split: option.splits)
  have eq: "rfold (echo_step sim_kernel 10) [Readable, Writable] echo_world = ?run"
    by (simp add: echo_world_read(2) del: echo_step.simps(1))
  have "case_sum (\<lambda>_. False) (\<lambda>w. si_received (w_kern w) 7 = ''hello'') ?run" by code_simp
  then obtain w' where run: "rfold (echo_step sim_kernel 10) [Readable, Writable] echo_world = Inr w'"
    and got: "si_received (w_kern w') 7 = ''hello''"
    unfolding eq by (cases ?run) auto
  have "conns echo_world 10 = Some (sample_conn\<lparr>tc_messageCallback := Some (cc_user 1)\<rparr>)"
    "tc_inputBuffer sample_conn = sample_buffer" "socket_fd (tc_socket sample_conn) = 7"
    by (simp_all add: echo_world_def sample_conn_def)
  moreover have "fst (k_write sim_kernel 7 ''hello'' echo_kern) = Inr 4" by code_simp
  ultimately have up: "stays_up sim_kernel 10 [Readable, Writable] echo_world"
    using echo_world_read(1) by (simp del: echo_step.simps split: sum.splits)
  have start: "conn_stream si_sent echo_world 10 = []" "si_received (w_kern echo_world) 7 = []" by code_simp+
  show ?thesis
    using echo_server_echoes [OF sim_kernel_spec sim_half_close_spec sim_receive_spec leave echo_world_inv run up]
      run got start by auto
qed

end
