(* ===== verification/BlockingEcho.thy ===== *)
theory BlockingEcho
  imports Sockets Timestamp
begin

text \<open>
  The example programs that do not use the reactor. \<^verbatim>\<open>examples/example_basic.cc\<close> prints the time;
  \<^verbatim>\<open>examples/blocking_echo_server.cc\<close> is an echo server with blocking sockets, and
  \<^verbatim>\<open>examples/benchmark_client.cc\<close> the client that measures one. The server's loops retry interrupted calls, so they are
  partial functions whose \<open>None\<close> means that they do not return; the client's loops stop at the first
  call that makes no progress, so they are total. The client's command line goes through \<^verbatim>\<open>std::stoi\<close>,
  whose exceptions it does not catch. What the client prints is left out.
\<close>

unbundle bit_operations_syntax

section \<open>Printing the time\<close>

text \<open>The lines on standard output, and the state with the log.\<close>

definition basic_main ::
  "'k kernel \<Rightarrow> (int \<Rightarrow> tm option) \<Rightarrow> ('k, 'z) world_scheme \<Rightarrow> (string list \<times> ('k, 'z) world_scheme) res" where
  "basic_main K localtime_r w =
     (case Timestamp_now K (LOG_INFO ''mini_muduo start'' w) of (now, w1) \<Rightarrow>
        rbind (Timestamp_toFormattedString localtime_r now) (\<lambda>formatted.
          Inr ([''current time: '' @ Timestamp_toString now, ''formatted time: '' @ formatted], w1)))"

section \<open>The blocking echo server\<close>

definition setBlocking :: "'k kernel \<Rightarrow> fd \<Rightarrow> ('k, 'z) world_scheme \<Rightarrow> ('k, 'z) world_scheme" where
  "setBlocking K f w =
     (case syscall (k_fcntl_get K f F_GETFL) w of
        (Inl e, w1) \<Rightarrow> LOG_ERROR (''fcntl F_GETFL failed: '' @ k_strerror K (w_errno w1)) w1
      | (Inr flags, w1) \<Rightarrow>
          (case syscall (k_fcntl_set K f F_SETFL (flags AND NOT O_NONBLOCK)) w1 of
             (Inl e, w2) \<Rightarrow> LOG_ERROR (''fcntl F_SETFL blocking failed: '' @ k_strerror K (w_errno w2)) w2
           | (Inr _, w2) \<Rightarrow> w2))"

text \<open>\<open>data\<close> is what is left to write, \<^verbatim>\<open>data + written\<close> in the source.\<close>

partial_function (option) echo_writeAll ::
  "'k kernel \<Rightarrow> fd \<Rightarrow> string \<Rightarrow> ('k, 'z) world_scheme \<Rightarrow> ('k, 'z) world_scheme option" where
  "echo_writeAll K f data w =
     (if data \<noteq> [] then
        (case sockets_write K f data w of
           (Inr n, w1) \<Rightarrow>
             if n > 0 then echo_writeAll K f (drop n data) w1
             else Some (LOG_ERROR (''write failed: '' @ k_strerror K (w_errno w1)) w1)
         | (Inl e, w1) \<Rightarrow>
             if w_errno w1 = EINTR then echo_writeAll K f data w1
             else Some (LOG_ERROR (''write failed: '' @ k_strerror K (w_errno w1)) w1))
      else Some w)"

definition log_peer ::
  "'k kernel \<Rightarrow> string \<Rightarrow> sockaddr_in \<Rightarrow> ('k, 'z) world_scheme \<Rightarrow> ('k, 'z) world_scheme" where
  "log_peer K what peer w = (case toIpPort K peer w of (s, w1) \<Rightarrow> LOG_INFO (what @ s) w1)"

text \<open>The inner \<^verbatim>\<open>while (true)\<close>: read into \<^verbatim>\<open>char buf[4096]\<close> and write back, until the client leaves.\<close>

partial_function (option) serve_client ::
  "'k kernel \<Rightarrow> fd \<Rightarrow> sockaddr_in \<Rightarrow> ('k, 'z) world_scheme \<Rightarrow> ('k, 'z) world_scheme option" where
  "serve_client K f peer w =
     (case sockets_read K f 4096 w of
        (Inr bs, w1) \<Rightarrow>
          if bs \<noteq> [] then
            (case echo_writeAll K f bs (log_peer K ''received message from '' peer w1) of
               None \<Rightarrow> None
             | Some w2 \<Rightarrow> serve_client K f peer w2)
          else Some (log_peer K ''client disconnected: '' peer w1)
      | (Inl e, w1) \<Rightarrow>
          if w_errno w1 = EINTR then serve_client K f peer w1
          else Some (LOG_ERROR (''read failed: '' @ k_strerror K (w_errno w1)) w1))"

text \<open>One turn of the outer \<^verbatim>\<open>while (true)\<close>; \<^verbatim>\<open>connSocket\<close> closes the connection at its end.\<close>

definition accept_turn ::
  "'k kernel \<Rightarrow> socket \<Rightarrow> ('k, 'z) world_scheme \<Rightarrow> ('k, 'z) world_scheme option" where
  "accept_turn K listenSocket w =
     (case Socket_accept K listenSocket w of
        (None, w1) \<Rightarrow>
          Some (if w_errno w1 = EINTR then w1
                else LOG_ERROR (''accept failed: '' @ k_strerror K (w_errno w1)) w1)
      | (Some (connfd, peer), w1) \<Rightarrow>
          (case serve_client K connfd peer (log_peer K ''client connected: '' peer (setBlocking K connfd w1)) of
             None \<Rightarrow> None
           | Some w2 \<Rightarrow> Some (Socket_destroy K (Socket connfd) w2)))"

text \<open>\<^verbatim>\<open>main\<close> up to its loop: the listening socket.\<close>

definition blocking_setup ::
  "'k kernel \<Rightarrow> ('k, 'z) world_scheme \<Rightarrow> (socket \<times> ('k, 'z) world_scheme) res" where
  "blocking_setup K w =
     rbind (createBlockingOrDie K (LOG_INFO ''blocking echo server start at 0.0.0.0:9000'' w)) (\<lambda>(sockfd, w1).
       let s = Socket sockfd
       in rbind (bindAddress K s (InetAddress_port 9000 False) (setReusePort K s True (setReuseAddr K s True w1))) (\<lambda>w2.
          rbind (Socket_listen K s w2) (\<lambda>w3. Inr (s, w3))))"

section \<open>The benchmark client\<close>

function client_writeAll ::
  "'k kernel \<Rightarrow> fd \<Rightarrow> string \<Rightarrow> ('k, 'z) world_scheme \<Rightarrow> bool \<times> ('k, 'z) world_scheme" where
  "client_writeAll K f data w =
     (if data \<noteq> [] then
        (case syscall (k_write K f data) w of
           (Inr n, w1) \<Rightarrow> if n = 0 then (False, w1) else client_writeAll K f (drop n data) w1
         | (Inl e, w1) \<Rightarrow> (False, w1))
      else (True, w))"
  by pat_completeness auto
termination by (relation "measure (\<lambda>(K, f, data, w). length data)") auto

declare client_writeAll.simps [simp del]

text \<open>\<open>missing\<close> bytes are still to be read, \<^verbatim>\<open>len - readBytes\<close>; the result is the bytes read.\<close>

function client_readExact ::
  "'k kernel \<Rightarrow> fd \<Rightarrow> nat \<Rightarrow> ('k, 'z) world_scheme \<Rightarrow> string option \<times> ('k, 'z) world_scheme" where
  "client_readExact K f missing w =
     (if missing > 0 then
        (case syscall (k_read K f missing) w of
           (Inr bs, w1) \<Rightarrow>
             if bs = [] then (None, w1)
             else (case client_readExact K f (missing - length bs) w1 of
                     (r, w2) \<Rightarrow> (map_option (\<lambda>more. bs @ more) r, w2))
         | (Inl e, w1) \<Rightarrow> (None, w1))
      else (Some [], w))"
  by pat_completeness auto
termination by (relation "measure (\<lambda>(K, f, missing, w). missing)") auto

declare client_readExact.simps [simp del]

definition benchmark_message :: string where
  "benchmark_message = ''hello mini_muduo benchmark''"

text \<open>The \<^verbatim>\<open>for\<close> loop over the requests: how many responses equalled the message.\<close>

fun run_requests :: "'k kernel \<Rightarrow> fd \<Rightarrow> nat \<Rightarrow> ('k, 'z) world_scheme \<Rightarrow> nat \<times> ('k, 'z) world_scheme" where
  "run_requests K f 0 w = (0, w)"
| "run_requests K f (Suc n) w =
     (case client_writeAll K f benchmark_message w of
        (False, w1) \<Rightarrow> (0, w1)
      | (True, w1) \<Rightarrow>
          (case client_readExact K f (length benchmark_message) w1 of
             (None, w2) \<Rightarrow> (0, w2)
           | (Some response, w2) \<Rightarrow>
               (case run_requests K f n w2 of
                  (success, w3) \<Rightarrow> (if response = benchmark_message then Suc success else success, w3))))"

text \<open>\<^verbatim>\<open>main\<close> after the command line: the exit status and the final state.\<close>

definition benchmark_main ::
  "'k kernel \<Rightarrow> string \<Rightarrow> int \<Rightarrow> int \<Rightarrow> ('k, 'z) world_scheme \<Rightarrow> nat \<times> ('k, 'z) world_scheme" where
  "benchmark_main K ip port requestCount w =
     (case syscall (k_socket K SOCK_STREAM) w of
        (Inl e, w1) \<Rightarrow> (1, w1)
      | (Inr f, w1) \<Rightarrow>
          (case k_inet_pton K ip of
             None \<Rightarrow> (1, snd (syscall (k_close K f) w1))
           | Some a \<Rightarrow>
               (case syscall (k_connect K f \<lparr>sin_family = AF_INET, sin_port = htons (word_of_int port), sin_addr = a\<rparr>) w1 of
                  (Inl e, w2) \<Rightarrow> (1, snd (syscall (k_close K f) w2))
                | (Inr _, w2) \<Rightarrow>
                    (case run_requests K f (nat requestCount) w2 of
                       (success, w3) \<Rightarrow>
                         (if int success = requestCount then 0 else 1, snd (syscall (k_close K f) w3))))))"

text \<open>
  \<^verbatim>\<open>std::stoi\<close> in base ten, as \<^verbatim>\<open>strtol\<close> reads: leading white space, one optional sign, then as many
  digits as there are; anything behind them is ignored. No digits at all and a value that does not fit
  into \<^verbatim>\<open>int\<close> are exceptions.
\<close>

datatype exception = invalid_argument | out_of_range

definition isspace :: "char \<Rightarrow> bool" where
  "isspace c \<longleftrightarrow> (of_char c :: nat) \<in> {9, 10, 11, 12, 13, 32}"

definition isdigit :: "char \<Rightarrow> bool" where
  "isdigit c \<longleftrightarrow> 48 \<le> (of_char c :: nat) \<and> (of_char c :: nat) \<le> 57"

definition strtol_sign :: "string \<Rightarrow> int \<times> string" where
  "strtol_sign s =
     (case s of
        [] \<Rightarrow> (1, [])
      | c # cs \<Rightarrow> if c = CHR ''-'' then (- 1, cs) else if c = CHR ''+'' then (1, cs) else (1, s))"

definition stoi :: "string \<Rightarrow> exception + int" where
  "stoi s =
     (case strtol_sign (dropWhile isspace s) of (sign, digits) \<Rightarrow>
        (case takeWhile isdigit digits of
           [] \<Rightarrow> Inl invalid_argument
         | d # ds \<Rightarrow>
             let i = sign * int (digits_value (d # ds))
             in if - (2 ^ 31) \<le> i \<and> i < 2 ^ 31 then Inr i else Inl out_of_range))"

text \<open>The address, port and number of requests that \<^verbatim>\<open>argv\<close> asks for, the program's name included.\<close>

definition benchmark_args :: "string list \<Rightarrow> exception + string \<times> int \<times> int" where
  "benchmark_args argv =
     (let ip = (if length argv \<ge> 2 then argv ! 1 else ''127.0.0.1'')
      in case (if length argv \<ge> 3 then stoi (argv ! 2) else Inr 9001) of
           Inl x \<Rightarrow> Inl x
         | Inr port \<Rightarrow>
             (case (if length argv \<ge> 4 then stoi (argv ! 3) else Inr 10000) of
                Inl x \<Rightarrow> Inl x
              | Inr requestCount \<Rightarrow> Inr (ip, port, requestCount)))"

text \<open>The whole of \<^verbatim>\<open>main\<close>: an exception ends the process before it makes a system call.\<close>

definition benchmark_program ::
  "'k kernel \<Rightarrow> string list \<Rightarrow> ('k, 'z) world_scheme \<Rightarrow> exception + nat \<times> ('k, 'z) world_scheme" where
  "benchmark_program K argv w =
     (case benchmark_args argv of
        Inl x \<Rightarrow> Inl x
      | Inr (ip, port, requestCount) \<Rightarrow> Inr (benchmark_main K ip port requestCount w))"

section \<open>Lemmas\<close>

text \<open>
  What makes the server's loops end: \<open>mu\<close> bounds the data and the interruptions still to come on the
  fd. A read that delivers data or is interrupted uses some of it up, and so does an interrupted write.
\<close>

definition finitely_served :: "'k kernel \<Rightarrow> fd \<Rightarrow> ('k \<Rightarrow> nat) \<Rightarrow> bool" where
  "finitely_served K f mu \<longleftrightarrow>
     (\<forall>n k r k'. k_read K f n k = (r, k') \<longrightarrow> r = Inl EINTR \<or> (\<exists>bs. r = Inr bs \<and> bs \<noteq> []) \<longrightarrow> mu k' < mu k) \<and>
     (\<forall>bs k r k'. k_write K f bs k = (r, k') \<longrightarrow> mu k' \<le> mu k \<and> (r = Inl EINTR \<longrightarrow> mu k' < mu k))"

text \<open>\<^verbatim>\<open>write(2)\<close> on a blocking socket with a live peer: it takes something, unless it is interrupted.\<close>

definition writes_succeed :: "'k kernel \<Rightarrow> fd \<Rightarrow> bool" where
  "writes_succeed K f \<longleftrightarrow>
     (\<forall>bs k. bs \<noteq> [] \<longrightarrow> fst (k_write K f bs k) = Inl EINTR \<or> (\<exists>n > 0. fst (k_write K f bs k) = Inr n))"

lemma log_peer_kern [simp]: "w_kern (log_peer K what peer w) = w_kern w"
  by (simp add: log_peer_def toIpPort_def toIp_def log_defs split: option.splits prod.splits)

lemma echo_writeAll_returns:
  assumes wspec: "write_spec K sent" and fin: "finitely_served K f mu" and succ: "writes_succeed K f"
    and view: "\<forall>bs. leaves (k_write K f bs) v"
  shows "\<exists>w'. echo_writeAll K f data w = Some w' \<and> mu (w_kern w') \<le> mu (w_kern w) \<and> v (w_kern w') = v (w_kern w) \<and>
    sent (w_kern w') = (sent (w_kern w))(f := sent (w_kern w) f @ data)"
proof (induction "length data + mu (w_kern w)" arbitrary: data w rule: less_induct)
  case less
  show ?case
  proof (cases "data = []")
    case True
    then show ?thesis by (subst echo_writeAll.simps) simp
  next
    case False
    obtain r k where wr: "k_write K f data (w_kern w) = (r, k)" using surj_pair by metis
    obtain w1 where sys: "sockets_write K f data w = (r, w1)" and k: "w_kern w1 = k" and err: "\<And>e. r = Inl e \<Longrightarrow> w_errno w1 = e"
      using wr by (auto simp: sockets_write_def syscall_def)
    have mu: "mu k \<le> mu (w_kern w)" "r = Inl EINTR \<Longrightarrow> mu k < mu (w_kern w)"
      using fin wr unfolding finitely_served_def by blast+
    have v: "v k = v (w_kern w)" using view wr unfolding leaves_def by (metis snd_conv)
    from succ False wr consider (intr) "r = Inl EINTR" | (ok) n where "r = Inr n" "n > 0"
      unfolding writes_succeed_def by (metis fst_conv)
    then show ?thesis
    proof cases
      case intr
      have same: "sent k = sent (w_kern w)" using wspec wr intr unfolding write_spec_def by fastforce
      have eq: "echo_writeAll K f data w = echo_writeAll K f data w1"
        by (subst echo_writeAll.simps) (use False sys intr err in simp)
      have "length data + mu (w_kern w1) < length data + mu (w_kern w)" using mu(2) [OF intr] k by simp
      from less [OF this] show ?thesis using same eq k v mu(1) by auto
    next
      case ok
      have n: "n \<le> length data" "sent k = (sent (w_kern w))(f := sent (w_kern w) f @ take n data)"
        using wspec wr ok unfolding write_spec_def by fastforce+
      have eq: "echo_writeAll K f data w = echo_writeAll K f (drop n data) w1"
        by (subst echo_writeAll.simps) (use False sys ok in simp)
      have "length (drop n data) + mu (w_kern w1) < length data + mu (w_kern w)" using mu(1) k n(1) ok(2) by simp
      from less [OF this] show ?thesis using n eq k v mu(1) by (auto simp del: take_append)
    qed
  qed
qed

text \<open>One turn of the server's inner loop, by the outcome of its read.\<close>

lemma serve_client_turn:
  assumes "sockets_read K f 4096 w = (r, w1)"
  shows "serve_client K f peer w =
    (case r of
       Inl e \<Rightarrow> if e = EINTR then serve_client K f peer w1
                else Some (LOG_ERROR (''read failed: '' @ k_strerror K e) w1)
     | Inr bs \<Rightarrow> if bs = [] then Some (log_peer K ''client disconnected: '' peer w1)
                 else Option.bind (echo_writeAll K f bs (log_peer K ''received message from '' peer w1))
                        (serve_client K f peer))"
proof -
  have "w_errno w1 = e" if "r = Inl e" for e
    using assms that by (auto simp: sockets_read_def syscall_eq)
  then show ?thesis
    by (subst serve_client.simps) (use assms in \<open>auto split: sum.splits option.splits\<close>)
qed

section \<open>Properties\<close>

text \<open>
  C24: The blocking echo server serves a client to the end. If the client sends finitely much, is not
  broken off, and calls are interrupted finitely often, the loop returns, and by then the bytes written to the client are
  exactly the bytes read from it, in order, whatever the sizes of reads and writes.
\<close>

theorem blocking_server_echoes:
  assumes "write_spec K sent" and "reads_leave K sent" and "receive_spec K received"
    and "finitely_served K f mu" and "writes_succeed K f"
  shows "\<exists>w' d. serve_client K f peer w = Some w' \<and> sent (w_kern w') f = sent (w_kern w) f @ d \<and>
    received (w_kern w') f = received (w_kern w) f @ d"
proof (induction "mu (w_kern w)" arbitrary: w rule: less_induct)
  case less
  obtain r k where rd: "k_read K f 4096 (w_kern w) = (r, k)" using surj_pair by metis
  obtain w1 where sys: "sockets_read K f 4096 w = (r, w1)" and k: "w_kern w1 = k"
    using rd by (auto simp: sockets_read_def syscall_def)
  note turn = serve_client_turn [OF sys, of peer]
  have mu: "r = Inl EINTR \<or> (\<exists>bs. r = Inr bs \<and> bs \<noteq> []) \<Longrightarrow> mu k < mu (w_kern w)"
    using assms(4) rd unfolding finitely_served_def by blast
  have sent: "sent k = sent (w_kern w)" using reads_leaveD(1) [OF assms(2)] rd unfolding leaves_def by (metis snd_conv)
  have rcv: "received k f = received (w_kern w) f @ (case r of Inl e \<Rightarrow> [] | Inr bs \<Rightarrow> bs)"
    using assms(3) rd unfolding receive_spec_def by (metis fun_upd_same)
  consider (retry) "r = Inl EINTR" | (failed) e where "r = Inl e" "e \<noteq> EINTR" | (gone) "r = Inr []"
    | (message) bs where "r = Inr bs" "bs \<noteq> []"
    by (cases r) blast+
  then show ?case
  proof cases
    case retry
    then have "mu (w_kern w1) < mu (w_kern w)" using mu k by simp
    from less [OF this] show ?thesis using turn retry k sent rcv by auto
  next
    case failed
    then show ?thesis using turn k sent rcv by (auto simp: log_defs)
  next
    case gone
    then show ?thesis using turn k sent rcv by auto
  next
    case (message bs)
    have view: "\<forall>bs. leaves (k_write K f bs) received" using assms(3) by (simp add: receive_spec_def)
    obtain w2 where w2: "echo_writeAll K f bs (log_peer K ''received message from '' peer w1) = Some w2"
      "mu (w_kern w2) \<le> mu k" "received (w_kern w2) = received k" "sent (w_kern w2) = (sent k)(f := sent k f @ bs)"
      using echo_writeAll_returns [OF assms(1,4,5) view, of bs "log_peer K ''received message from '' peer w1"] k by auto
    have "mu (w_kern w2) < mu (w_kern w)" using mu message w2(2) by auto
    from less [OF this] show ?thesis using turn message w2 sent rcv by auto
  qed
qed

text \<open>A kernel of plain streams: reads deliver what is there, writes take a few bytes at a time.\<close>

definition stream_readv :: "fd \<Rightarrow> nat list \<Rightarrow> sim \<Rightarrow> (errno + string) \<times> sim" where
  "stream_readv f iov k =
     (let n = sum_list iov; bs = take n (si_input k f)
      in (Inr bs, k\<lparr>si_input := (si_input k)(f := drop n (si_input k f)),
            si_received := (si_received k)(f := si_received k f @ bs)\<rparr>))"

definition stream_write :: "fd \<Rightarrow> string \<Rightarrow> sim \<Rightarrow> (errno + nat) \<times> sim" where
  "stream_write f bs k =
     (let n = min (length bs) (Suc (si_room k))
      in (Inr n, k\<lparr>si_sent := (si_sent k)(f := si_sent k f @ take n bs)\<rparr>))"

definition stream_kernel :: "sim kernel" where
  "stream_kernel = sim_kernel\<lparr>k_readv := stream_readv, k_read := (\<lambda>f n. stream_readv f [n]), k_write := stream_write\<rparr>"

lemma stream_specs:
  "write_spec stream_kernel si_sent" "reads_leave stream_kernel si_sent" "receive_spec stream_kernel si_received"
  "readv_spec stream_kernel" "finitely_served stream_kernel f (\<lambda>k. length (si_input k f))" "writes_succeed stream_kernel f"
  by (auto simp: write_spec_def reads_leave_def receive_spec_def readv_spec_def finitely_served_def writes_succeed_def leaves_def
      stream_kernel_def sim_kernel_def stream_readv_def stream_write_def sim_gettimeofday_def sim_epoll_ctl_def
      sim_epoll_wait_def Let_def)

definition stream_world :: "string \<Rightarrow> sim world" where
  "stream_world s = \<lparr>w_kern = sim_init\<lparr>si_input := (\<lambda>_. s), si_room := 20\<rparr>, w_errno = 0, w_log = [], w_thread = 1\<rparr>"

theorem blocking_server_echoes_witness:
  "\<exists>w'. serve_client stream_kernel 5 (InetAddress_port 80 True) (stream_world ''hello world'') = Some w' \<and>
     si_sent (w_kern w') 5 = si_received (w_kern w') 5"
  using blocking_server_echoes [OF stream_specs(1-3) stream_specs(5,6) [of 5],
      of "InetAddress_port 80 True" "stream_world ''hello world''"]
  by (auto simp: stream_world_def sim_init_def)

lemma syscall_kern: "syscall f w = (r, w') \<Longrightarrow> f (w_kern w) = (r, w_kern w')"
  by (auto simp: syscall_eq)

lemma client_writeAll_sent:
  assumes "write_spec K sent" and "\<forall>bs. leaves (k_write K f bs) v" and "client_writeAll K f data w = (True, w')"
  shows "sent (w_kern w') = (sent (w_kern w))(f := sent (w_kern w) f @ data) \<and> v (w_kern w') = v (w_kern w)"
  using assms(3)
proof (induction "length data" arbitrary: data w rule: less_induct)
  case less
  show ?case
  proof (cases "data = []")
    case True
    then show ?thesis using less.prems by (simp add: client_writeAll.simps)
  next
    case False
    obtain r w1 where sys: "syscall (k_write K f data) w = (r, w1)" using surj_pair by metis
    then obtain n where n: "r = Inr n" "n > 0" and rest: "client_writeAll K f (drop n data) w1 = (True, w')"
      using less.prems False by (subst (asm) client_writeAll.simps) (auto split: sum.splits if_splits)
    have "k_write K f data (w_kern w) = (Inr n, w_kern w1)" using syscall_kern [OF sys] n by simp
    then have s1: "sent (w_kern w1) = (sent (w_kern w))(f := sent (w_kern w) f @ take n data)"
      using assms(1) unfolding write_spec_def by fastforce
    have v1: "v (w_kern w1) = v (w_kern w)" using syscall_leaves [OF _ sys] assms(2) by blast
    have "length (drop n data) < length data" using False n(2) by (cases data) auto
    from less.hyps [OF this rest] show ?thesis using s1 v1 by (simp del: take_append add: append_take_drop_id)
  qed
qed

lemma client_readExact_received:
  assumes "receive_spec K received" and "readv_spec K" and "\<forall>n. leaves (k_read K f n) v"
    and "client_readExact K f missing w = (Some bs, w')"
  shows "length bs = missing \<and> received (w_kern w') f = received (w_kern w) f @ bs \<and> v (w_kern w') = v (w_kern w)"
  using assms(4)
proof (induction missing arbitrary: bs w rule: less_induct)
  case (less missing)
  show ?case
  proof (cases "missing = 0")
    case True
    then show ?thesis using less.prems by (simp add: client_readExact.simps)
  next
    case False
    obtain r w1 where sys: "syscall (k_read K f missing) w = (r, w1)" using surj_pair by metis
    obtain xs more where xs: "r = Inr xs" "xs \<noteq> []" "bs = xs @ more"
      and rest: "client_readExact K f (missing - length xs) w1 = (Some more, w')"
      using less.prems False sys by (subst (asm) client_readExact.simps) (auto split: sum.splits if_splits prod.splits)
    have rd: "k_readv K f [missing] (w_kern w) = (Inr xs, w_kern w1)"
      using syscall_kern [OF sys] xs(1) assms(1) by (simp add: receive_spec_def)
    then have len: "length xs \<le> missing" using assms(2) unfolding readv_spec_def by fastforce
    have rcv: "received (w_kern w1) f = received (w_kern w) f @ xs"
      using rd assms(1) unfolding receive_spec_def by (metis (no_types, lifting) fun_upd_same sum.case(2))
    have v1: "v (w_kern w1) = v (w_kern w)" using syscall_leaves [OF _ sys] assms(3) by blast
    have "missing - length xs < missing" using False xs(2) by (cases xs) auto
    from less.IH [OF this rest] show ?thesis using len rcv v1 xs(3) by simp
  qed
qed

text \<open>
  The command line: \<^verbatim>\<open>std::stoi\<close> reads back what \<^verbatim>\<open>std::to_string\<close> prints, over the whole range of
  \<^verbatim>\<open>int\<close>, and a program started with printed numbers runs with them.
\<close>

lemma isdigit_digits: "c \<in> set (nat_to_string n) \<Longrightarrow> isdigit c \<and> \<not> isspace c"
  by (drule set_nat_to_string) (auto simp: isdigit_def isspace_def of_char_digit_char)

lemma sign_not_digit [simp]: "\<not> isdigit (CHR ''-'')" "\<not> isdigit (CHR ''+'')" "\<not> isspace (CHR ''-'')"
  by (simp_all add: isdigit_def isspace_def)

lemma takeWhile_isdigit_digits [simp]: "takeWhile isdigit (nat_to_string n) = nat_to_string n"
  by (simp add: isdigit_digits takeWhile_eq_all_conv)

lemma strtol_sign_to_string:
  "strtol_sign (dropWhile isspace (to_string i)) = (if i < 0 then - 1 else 1, nat_to_string (nat \<bar>i\<bar>))"
proof (cases "i < 0")
  case True
  then show ?thesis by (simp add: to_string_def strtol_sign_def)
next
  case False
  obtain d ds where digits: "nat_to_string (nat i) = d # ds" by (cases "nat_to_string (nat i)") auto
  then have "isdigit d" "\<not> isspace d" using isdigit_digits [of d "nat i"] by auto
  then show ?thesis
    using False digits by (auto simp: to_string_def strtol_sign_def)
qed

lemma stoi_to_string:
  "stoi (to_string i) = (if - (2 ^ 31) \<le> i \<and> i < 2 ^ 31 then Inr i else Inl out_of_range)"
proof -
  obtain d ds where digits: "nat_to_string (nat \<bar>i\<bar>) = d # ds" by (cases "nat_to_string (nat \<bar>i\<bar>)") auto
  have "int (digits_value (d # ds)) = \<bar>i\<bar>"
    unfolding digits [symmetric] by simp
  then show ?thesis
    using takeWhile_isdigit_digits [of "nat \<bar>i\<bar>"] digits
    by (auto simp: stoi_def strtol_sign_to_string Let_def)
qed

lemma stoi_in_range: "stoi s = Inr i \<Longrightarrow> - (2 ^ 31) \<le> i \<and> i < 2 ^ 31"
  by (auto simp: stoi_def Let_def split: prod.splits list.splits if_splits)

lemma benchmark_program_printed_args:
  assumes "port \<in> {- (2 ^ 31)..<2 ^ 31}" and "n \<in> {- (2 ^ 31)..<2 ^ 31}"
  shows "benchmark_program K [name, ip, to_string port, to_string n] w = Inr (benchmark_main K ip port n w)"
  using assms by (simp add: benchmark_program_def benchmark_args_def stoi_to_string)

lemma benchmark_program_defaults:
  "benchmark_program K [name] w = Inr (benchmark_main K ''127.0.0.1'' 9001 10000 w)"
  by (simp add: benchmark_program_def benchmark_args_def)

lemma benchmark_program_uncaught:
  assumes "benchmark_program K argv w = Inl x"
  shows "(3 \<le> length argv \<and> stoi (argv ! 2) = Inl x) \<or> (4 \<le> length argv \<and> stoi (argv ! 3) = Inl x)"
  using assms by (auto simp: benchmark_program_def benchmark_args_def Let_def split: sum.splits if_splits)

text \<open>
  C33: The client's count can be trusted: it never exceeds the number of requests, and when every request
  counts as a success (the condition for exit status 0), exactly that many copies of the message were
  sent and exactly that many copies came back.
\<close>

theorem benchmark_success_means_echo:
  assumes "write_spec K sent" and "reads_leave K sent" and "receive_spec K received" and "readv_spec K"
    and "run_requests K f n w = (success, w')"
  shows "success \<le> n \<and> (success = n \<longrightarrow>
    sent (w_kern w') f = sent (w_kern w) f @ concat (replicate n benchmark_message) \<and>
    received (w_kern w') f = received (w_kern w) f @ concat (replicate n benchmark_message))"
  using assms(5)
proof (induction n arbitrary: w success)
  case (Suc n)
  have wv: "\<forall>bs. leaves (k_write K f bs) received" using assms(3) by (simp add: receive_spec_def)
  have rv: "\<forall>n. leaves (k_read K f n) sent" using reads_leaveD(1) [OF assms(2)] by blast
  obtain done1 w1 where wa: "client_writeAll K f benchmark_message w = (done1, w1)" using surj_pair by metis
  obtain resp w2 where re: "client_readExact K f (length benchmark_message) w1 = (resp, w2)" using surj_pair by metis
  show ?case
  proof (cases "done1 \<and> resp \<noteq> None")
    case False
    then show ?thesis using Suc.prems wa re by (cases done1) auto
  next
    case True
    then obtain bs s3 where bs: "resp = Some bs" and rest: "run_requests K f n w2 = (s3, w')"
      and s: "success = (if bs = benchmark_message then Suc s3 else s3)"
      using Suc.prems wa re by (auto split: prod.splits)
    note snd1 = client_writeAll_sent [OF assms(1) wv wa [unfolded conjunct1 [OF True, THEN eqTrueI]]]
    note rcv1 = client_readExact_received [OF assms(3,4) rv re [unfolded bs]]
    show ?thesis using Suc.IH [OF rest] s snd1 rcv1 by (auto simp: fun_eq_iff)
  qed
qed auto

theorem benchmark_success_means_echo_witness:
  "\<exists>w'. run_requests stream_kernel 5 1 (stream_world ''hello mini_muduo benchmark'') = (1, w') \<and>
     si_sent (w_kern w') 5 = ''hello mini_muduo benchmark''"
proof -
  let ?w = "stream_world ''hello mini_muduo benchmark''"
  have "fst (run_requests stream_kernel 5 1 ?w) = 1" by code_simp
  then obtain w' where run: "run_requests stream_kernel 5 1 ?w = (1, w')" by (cases "run_requests stream_kernel 5 1 ?w") auto
  have "si_sent (w_kern ?w) 5 = []" by (simp add: stream_world_def sim_init_def)
  then show ?thesis
    using benchmark_success_means_echo [OF stream_specs(1-4) run] run by (simp add: benchmark_message_def)
qed

end
