(* ===== verification/Registration.thy ===== *)
theory Registration
  imports EPollPoller
begin

text \<open>
  \<^verbatim>\<open>include/net/Poller.h\<close>, the interface between channels and their poller, as a locale: what
  \<^verbatim>\<open>updateChannel\<close> and \<^verbatim>\<open>removeChannel\<close> promise, whichever poller implements them. The client's
  theorem, proved once from these laws, is about any sequence of mask changes and removals on any
  channels; \<^verbatim>\<open>EPollPoller\<close> is the interpretation.
\<close>

unbundle bit_operations_syntax

section \<open>Sequences of registrations\<close>

datatype mutator = EnableReading | DisableReading | EnableWriting | DisableWriting | DisableAll

datatype reg_op = Mutate mutator (reg_target: ptr) | Remove (reg_target: ptr)

fun mutate :: "mutator \<Rightarrow> 32 word \<Rightarrow> 32 word" where
  "mutate EnableReading e = e OR kReadEvent"
| "mutate DisableReading e = e AND NOT kReadEvent"
| "mutate EnableWriting e = e OR kWriteEvent"
| "mutate DisableWriting e = e AND NOT kWriteEvent"
| "mutate DisableAll e = kNoneEvent"

fun reg_call :: "'k kernel \<Rightarrow> reg_op \<Rightarrow> ('k, 'z) reactor_scheme \<Rightarrow> ('k, 'z) reactor_scheme res" where
  "reg_call K (Mutate EnableReading p) w = enableReading K p w"
| "reg_call K (Mutate DisableReading p) w = disableReading K p w"
| "reg_call K (Mutate EnableWriting p) w = enableWriting K p w"
| "reg_call K (Mutate DisableWriting p) w = disableWriting K p w"
| "reg_call K (Mutate DisableAll p) w = disableAll K p w"
| "reg_call K (Remove p) w = Channel_remove K p w"

text \<open>
  The reference: each channel has its mask and the mask that is watched for it. A change puts the new
  mask into both; a watched channel that loses its last event is not watched any more, and neither
  is one that is removed.
\<close>

type_synonym reg_view = "32 word \<times> 32 word option"

definition ref_change :: "(32 word \<Rightarrow> 32 word) \<Rightarrow> reg_view \<Rightarrow> reg_view" where
  "ref_change g = (\<lambda>(mask, watched).
     (g mask, if watched \<noteq> None \<and> g mask = 0 then None else Some (g mask)))"

fun ref_op :: "reg_op \<Rightarrow> reg_view \<Rightarrow> reg_view" where
  "ref_op (Mutate m p) v = ref_change (mutate m) v"
| "ref_op (Remove p) v = (fst v, None)"

definition ref_run :: "reg_op list \<Rightarrow> ptr \<Rightarrow> reg_view \<Rightarrow> reg_view" where
  "ref_run ops p = fold ref_op (filter (\<lambda>x. reg_target x = p) ops)"

section \<open>The interface\<close>

locale poller =
  fixes inv :: "'w \<Rightarrow> bool"
    and usable :: "'w \<Rightarrow> ptr \<Rightarrow> bool"
    and view :: "'w \<Rightarrow> ptr \<Rightarrow> reg_view"
    and update :: "(32 word \<Rightarrow> 32 word) \<Rightarrow> ptr \<Rightarrow> 'w \<Rightarrow> 'w res"
    and remove :: "ptr \<Rightarrow> 'w \<Rightarrow> 'w res"
  assumes update_ok: "inv w \<Longrightarrow> usable w p \<Longrightarrow> \<exists>w'. update g p w = Inr w' \<and> inv w' \<and> usable w' = usable w \<and>
      (\<forall>q. usable w q \<longrightarrow> view w' q = (if q = p then ref_change g (view w p) else view w q))"
    and remove_ok: "inv w \<Longrightarrow> usable w p \<Longrightarrow> \<exists>w'. remove p w = Inr w' \<and> inv w' \<and> usable w' = usable w \<and>
      (\<forall>q. usable w q \<longrightarrow> view w' q = (if q = p then (fst (view w p), None) else view w q))"
begin

lemma op_ok:
  assumes "inv w" and "usable w (reg_target x)"
    and "call = (case x of Mutate m p \<Rightarrow> update (mutate m) p | Remove p \<Rightarrow> remove p)"
  shows "\<exists>w'. call w = Inr w' \<and> inv w' \<and> usable w' = usable w \<and>
    (\<forall>q. usable w q \<longrightarrow> view w' q = (if q = reg_target x then ref_op x (view w q) else view w q))"
  using assms update_ok [of w "reg_target x"] remove_ok [of w "reg_target x"] by (cases x) fastforce+

lemma run_ok:
  assumes "inv w" and "\<forall>x \<in> set ops. usable w (reg_target x)"
    and "\<And>x. call x = (case x of Mutate m p \<Rightarrow> update (mutate m) p | Remove p \<Rightarrow> remove p)"
  shows "\<exists>w'. rfold call ops w = Inr w' \<and> inv w' \<and> usable w' = usable w \<and>
    (\<forall>q. usable w q \<longrightarrow> view w' q = ref_run ops q (view w q))"
  using assms(1,2)
proof (induction ops arbitrary: w)
  case Nil
  then show ?case by (simp add: ref_run_def)
next
  case (Cons x ops)
  obtain w1 where w1: "call x w = Inr w1" "inv w1" "usable w1 = usable w"
    "\<forall>q. usable w q \<longrightarrow> view w1 q = (if q = reg_target x then ref_op x (view w q) else view w q)"
    using op_ok [OF Cons.prems(1) _ assms(3), of x] Cons.prems(2) by auto
  obtain w' where "rfold call ops w1 = Inr w'" "inv w'" "usable w' = usable w1"
    "\<forall>q. usable w1 q \<longrightarrow> view w' q = ref_run ops q (view w1 q)"
    using Cons.IH [OF w1(2)] Cons.prems(2) w1(3) by auto
  then show ?case using w1 by (auto simp: ref_run_def)
qed

lemma retire_ok:
  assumes "inv w" and "usable w p"
  shows "\<exists>w1 w2. update (mutate DisableAll) p w = Inr w1 \<and> remove p w1 = Inr w2 \<and> inv w2 \<and> view w2 p = (0, None)"
proof -
  obtain w1 where w1: "update (mutate DisableAll) p w = Inr w1" "inv w1" "usable w1 p"
    "view w1 p = ref_change (mutate DisableAll) (view w p)"
    using update_ok [OF assms, of "mutate DisableAll"] assms(2) by auto
  then show ?thesis using remove_ok [OF w1(2,3)] by (auto simp: ref_change_def kNoneEvent_def split: prod.splits)
qed

end

section \<open>The epoll poller\<close>

definition poller_usable :: "('k, 'z) reactor_scheme \<Rightarrow> ptr \<Rightarrow> bool" where
  "poller_usable w p \<longleftrightarrow> fd_private w p \<and>
     (\<exists>c l. chans w p = Some c \<and> chan_loop c = Some l \<and> pollers w l \<noteq> None)"

definition poller_view ::
  "('k \<Rightarrow> fd \<Rightarrow> fd \<Rightarrow> (32 word \<times> ptr) option) \<Rightarrow> ('k, 'z) reactor_scheme \<Rightarrow> ptr \<Rightarrow> reg_view" where
  "poller_view interest w p =
     (case chans w p of None \<Rightarrow> 0 | Some c \<Rightarrow> chan_events c, watched_mask interest w p)"

definition epoll_inv ::
  "'k kernel \<Rightarrow> ('k \<Rightarrow> fd \<Rightarrow> fd \<Rightarrow> (32 word \<times> ptr) option) \<Rightarrow> ('k, 'z) reactor_scheme \<Rightarrow> bool" where
  "epoll_inv K interest w \<longleftrightarrow> epoll_spec K interest \<and> epoll_total K interest \<and> reactor_ok interest w"

lemma poller_usableE:
  assumes "poller_usable w p"
  obtains c l po where "chans w p = Some c" and "chan_loop c = Some l" and "pollers w l = Some po" and "fd_private w p"
  using assms by (auto simp: poller_usable_def)

lemma poller_view_eq:
  assumes "reactor_ok interest w" and "chans w p = Some c" and "chan_loop c = Some l" and "pollers w l \<noteq> None"
  shows "poller_view interest w p = (chan_events c, if chan_index c = kAdded then Some (chan_events c) else None)"
  using assms watched_mask_eq [OF assms(1-3)] by (auto simp: poller_view_def)

text \<open>A step that replaces one channel by one with the same loop and fd.\<close>

lemma replaced_channel:
  assumes ok: "reactor_ok interest w" "reactor_ok interest w'" and c: "chans w p = Some c" "chan_loop c = Some l"
    and w': "chans w' = (chans w)(p \<mapsto> c')" "chan_loop c' = Some l" "chan_fd c' = chan_fd c" "dom (pollers w') = dom (pollers w)"
  shows "poller_usable w' = poller_usable w"
    and "poller_usable w q \<Longrightarrow> q \<noteq> p \<Longrightarrow> poller_view interest w' q = poller_view interest w q"
proof -
  have po: "pollers w' l \<noteq> None \<longleftrightarrow> pollers w l \<noteq> None" for l using w'(4) by (auto simp: dom_def set_eq_iff)
  have priv: "fd_private w' q = fd_private w q" for q
    by (rule fd_private_cong) (use c w' in simp)
  show "poller_usable w' = poller_usable w"
    by (rule ext) (use c w' po priv in \<open>auto simp: poller_usable_def\<close>)
  show "poller_view interest w' q = poller_view interest w q" if "poller_usable w q" "q \<noteq> p"
    using that(1)
  proof (rule poller_usableE)
    fix d l' po'
    assume d: "chans w q = Some d" "chan_loop d = Some l'" "pollers w l' = Some po'"
    then have "chans w' q = Some d" "pollers w' l' \<noteq> None" using w'(1) that(2) po by auto
    then show ?thesis using d poller_view_eq [OF ok(1) d(1,2)] poller_view_eq [OF ok(2) _ d(2)] by auto
  qed
qed

interpretation epoll: poller "epoll_inv K interest" poller_usable "poller_view interest"
  "\<lambda>g p w. Channel_update K p (upd_chan p (change_events g) w)" "Channel_remove K"
  for K :: "'k kernel" and interest :: "'k \<Rightarrow> fd \<Rightarrow> fd \<Rightarrow> (32 word \<times> ptr) option"
proof unfold_locales
  fix w :: "('k, 'z) reactor_scheme" and p g
  assume inv: "epoll_inv K interest w" and use: "poller_usable w p"
  have k: "epoll_spec K interest" "epoll_total K interest" and ok: "reactor_ok interest w"
    using inv by (simp_all add: epoll_inv_def)
  obtain c l po where c: "chans w p = Some c" "chan_loop c = Some l" "pollers w l = Some po" "fd_private w p"
    using use by (rule poller_usableE)
  have may: "may_register w p" by (rule may_register_private [OF ok c(4)])
  have view: "poller_view interest w p = (chan_events c, if chan_index c = kAdded then Some (chan_events c) else None)"
    using poller_view_eq [OF ok c(1,2)] c(3) by simp
  obtain w' where w': "Channel_update K p (upd_chan p (change_events g) w) = Inr w'"
    using Channel_update_total [OF k(2) ok may c(1)] c(2,3) by auto
  show "\<exists>w'. Channel_update K p (upd_chan p (change_events g) w) = Inr w' \<and> epoll_inv K interest w' \<and>
    poller_usable w' = poller_usable w \<and> (\<forall>q. poller_usable w q \<longrightarrow> poller_view interest w' q =
      (if q = p then ref_change g (poller_view interest w p) else poller_view interest w q))"
  proof (rule Channel_update_bound [OF k(1) ok may c(1,2) w'], goal_cases)
    case (1 c')
    note r = replaced_channel [OF ok 1(7) c(1,2) 1(1,3,4,8)]
    have "chans w' p = Some c'" "pollers w' l \<noteq> None" using 1 c(3) by auto
    then have "poller_view interest w' p = ref_change g (poller_view interest w p)"
      using poller_view_eq [OF 1(7) _ 1(3)] view 1 by (auto simp: ref_change_def)
    then show ?case using w' 1 r k by (intro exI [of _ w']) (auto simp: epoll_inv_def)
  qed
  obtain w' where w': "Channel_remove K p w = Inr w'"
    using Channel_remove_total [OF c(1)] c(2,3) by auto
  then have "EPollPoller_removeChannel K l p w = Inr w'"
    using c by (simp add: Channel_remove_def chan_at_def EventLoop_removeChannel_def)
  note rem = removeChannel_ok [OF k(1) ok c(1-3) may this]
  have c': "chan_loop (set_index kNew c) = Some l" "chan_fd (set_index kNew c) = chan_fd c"
    using c(2) by (simp_all add: set_index_def)
  note r = replaced_channel [OF ok rem(1) c(1,2) rem(2) c' rem(4)]
  have "chans w' p = Some (set_index kNew c)" "pollers w' l \<noteq> None" using rem(2,4) c(3) by auto
  then have "poller_view interest w' p = (fst (poller_view interest w p), None)"
    using poller_view_eq [OF rem(1) _ c'(1)] view by (simp add: set_index_def index_defs)
  then show "\<exists>w'. Channel_remove K p w = Inr w' \<and> epoll_inv K interest w' \<and> poller_usable w' = poller_usable w \<and>
    (\<forall>q. poller_usable w q \<longrightarrow> poller_view interest w' q =
      (if q = p then (fst (poller_view interest w p), None) else poller_view interest w q))"
    using w' rem(1) r k by (intro exI [of _ w']) (auto simp: epoll_inv_def)
qed

lemma mutate_fun:
  "mutate EnableReading = (\<lambda>e. e OR kReadEvent)" "mutate DisableReading = (\<lambda>e. e AND NOT kReadEvent)"
  "mutate EnableWriting = (\<lambda>e. e OR kWriteEvent)" "mutate DisableWriting = (\<lambda>e. e AND NOT kWriteEvent)"
  "mutate DisableAll = (\<lambda>e. kNoneEvent)"
  by (simp_all add: fun_eq_iff)

lemma reg_call_eq:
  "reg_call K x = (case x of Mutate m p \<Rightarrow> (\<lambda>w. Channel_update K p (upd_chan p (change_events (mutate m)) w))
     | Remove p \<Rightarrow> Channel_remove K p)"
proof (cases x)
  case (Mutate m p)
  then show ?thesis by (cases m) (simp_all add: fun_eq_iff channel_mutator_defs mutate_fun)
qed (simp add: fun_eq_iff)

section \<open>Properties\<close>

text \<open>
  C13: Channels and poller agree with the reference over any sequence of calls. Start from a consistent
  reactor and apply any sequence of the five mutators and of \<^verbatim>\<open>remove\<close> to channels that are bound to a
  live poller and alone on their fd: no call fails, the reactor stays consistent, and for every such channel its
  mask and the mask the kernel watches are those the reference computes from the calls made on that channel alone.
\<close>

theorem registration_follows_reference:
  assumes "epoll_spec K interest" and "epoll_total K interest" and "reactor_ok interest w"
    and "\<forall>x \<in> set ops. poller_usable w (reg_target x)"
  shows "\<exists>w'. rfold (reg_call K) ops w = Inr w' \<and> reactor_ok interest w' \<and>
    (\<forall>p. poller_usable w p \<longrightarrow> poller_view interest w' p = ref_run ops p (poller_view interest w p))"
  using epoll.run_ok [of K interest w ops "reg_call K"] reg_call_eq [of K] assms by (auto simp: epoll_inv_def)

theorem registration_follows_reference_witness:
  "\<exists>w'. rfold (reg_call sim_kernel) [Mutate EnableReading 11, Mutate EnableWriting 11, Remove 11, Mutate DisableReading 11]
       sample_reactor = Inr w' \<and> poller_view si_interest w' 11 = (EPOLLOUT, Some EPOLLOUT)"
proof -
  have use: "poller_usable sample_reactor 11"
    by (simp add: poller_usable_def fd_private_def sample_reactor_def Channel_new_def)
  have view: "poller_view si_interest sample_reactor 11 = (0, None)"
    by (simp add: poller_view_def watched_mask_def sample_reactor_def Channel_new_def kNoneEvent_def sim_init_def)
  let ?ops = "[Mutate EnableReading 11, Mutate EnableWriting 11, Remove 11, Mutate DisableReading 11]"
  have "ref_run ?ops 11 (0, None) = (EPOLLOUT, Some EPOLLOUT)"
    by (simp add: ref_run_def ref_change_def kReadEvent_def kWriteEvent_def epoll_bits)
  then show ?thesis
    using registration_follows_reference [OF sim_epoll_spec sim_epoll_total sample_reactors_ok(1), of ?ops] use view by auto
qed

end
