(* ===== verification/Schedule.thy ===== *)
theory Schedule
  imports TimerQueue
begin

text \<open>
  The promise of \<^verbatim>\<open>runAt\<close>, \<^verbatim>\<open>runEvery\<close> and \<^verbatim>\<open>cancel\<close>: a loop keeps a schedule, a map from the live
  timers to their expirations. The locale \<open>timer_service\<close> states the laws of one call against the
  schedule and derives those of a run; the timer queue of theory TimerQueue is the interpretation.
\<close>

section \<open>Calls\<close>

datatype timer_op =
    AddTimer ptr nat timestamp double
  | CancelTimer ptr int
  | HandleExpired

text \<open>
  What a program in the loop's thread can ask for, and the timerfd's readable event. \<open>AddTimer\<close> carries the
  address \<^verbatim>\<open>new\<close> returns.
\<close>

fun timer_call ::
  "'k kernel \<Rightarrow> (nat \<Rightarrow> ('k, 'z) timer_world_scheme \<Rightarrow> ('k, 'z) timer_world_scheme res) \<Rightarrow> ptr \<Rightarrow> timer_op \<Rightarrow>
   ('k, 'z) timer_world_scheme \<Rightarrow> ('k, 'z) timer_world_scheme res" where
  "timer_call K user l (AddTimer p cb time interval) w = rbind (addTimer K l p cb time interval w) (\<lambda>(timerId, w1). Inr w1)"
| "timer_call K user l (CancelTimer p n) w = EventLoop_cancel K l (TimerId p n) w"
| "timer_call K user l HandleExpired w = TimerQueue_handleRead K user l w"

section \<open>The schedule\<close>

type_synonym schedule = "(ptr \<Rightarrow> timer option) \<times> int"

text \<open>The reference: the effect of a call at time \<open>now\<close> on the live timers and the counter of ids.\<close>

fun ref_timer :: "timestamp \<Rightarrow> timer_op \<Rightarrow> schedule \<Rightarrow> schedule" where
  "ref_timer now (AddTimer p cb time interval) (S, n) =
     (S(p \<mapsto> \<lparr>tm_callback = cb, tm_expiration = time, tm_interval = interval, tm_repeat = double_positive interval,
         tm_sequence = wrap_int64 (n + 1)\<rparr>), wrap_int64 (n + 1))"
| "ref_timer now (CancelTimer p m) (S, n) =
     (if map_option tm_sequence (S p) = Some m then S(p := None) else S, n)"
| "ref_timer now HandleExpired (S, n) =
     (\<lambda>p. case S p of None \<Rightarrow> None | Some t \<Rightarrow>
        if tm_expiration t \<le> now then reset_timer now [] p t else Some t, n)"

definition ref_timers :: "(timestamp \<times> timer_op) list \<Rightarrow> schedule \<Rightarrow> schedule" where
  "ref_timers = fold (\<lambda>(now, x). ref_timer now x)"

section \<open>The interface\<close>

text \<open>A run with the clock readings at its calls, and the condition that \<^verbatim>\<open>new\<close> returns unused addresses.\<close>

fun timed_run :: "('w \<Rightarrow> timestamp) \<Rightarrow> (timer_op \<Rightarrow> 'w \<Rightarrow> 'w res) \<Rightarrow> timer_op list \<Rightarrow> 'w \<Rightarrow> (timestamp list \<times> 'w) res" where
  "timed_run clock call [] w = Inr ([], w)"
| "timed_run clock call (x # xs) w =
     rbind (call x w) (\<lambda>w1. rbind (timed_run clock call xs w1) (\<lambda>(nows, w2). Inr (clock w # nows, w2)))"

fun adds_fresh :: "(ptr \<Rightarrow> 'w \<Rightarrow> bool) \<Rightarrow> timer_op \<Rightarrow> 'w \<Rightarrow> bool" where
  "adds_fresh fresh (AddTimer p cb time interval) w \<longleftrightarrow> fresh p w"
| "adds_fresh fresh _ w \<longleftrightarrow> True"

fun run_fresh :: "(ptr \<Rightarrow> 'w \<Rightarrow> bool) \<Rightarrow> (timer_op \<Rightarrow> 'w \<Rightarrow> 'w res) \<Rightarrow> timer_op list \<Rightarrow> 'w \<Rightarrow> bool" where
  "run_fresh fresh call [] w \<longleftrightarrow> True"
| "run_fresh fresh call (x # xs) w \<longleftrightarrow> adds_fresh fresh x w \<and>
     (case call x w of Inl e \<Rightarrow> True | Inr w1 \<Rightarrow> run_fresh fresh call xs w1)"

locale timer_service =
  fixes inv :: "'w \<Rightarrow> bool"
    and fresh :: "ptr \<Rightarrow> 'w \<Rightarrow> bool"
    and sched :: "'w \<Rightarrow> schedule"
    and clock :: "'w \<Rightarrow> timestamp"
    and call :: "timer_op \<Rightarrow> 'w \<Rightarrow> 'w res"
    and fails :: "error \<Rightarrow> bool"
  assumes call_ok: "inv w \<Longrightarrow> adds_fresh fresh x w \<Longrightarrow> call x w = Inr w' \<Longrightarrow>
      inv w' \<and> sched w' = ref_timer (clock w) x (sched w)"
    and call_error: "inv w \<Longrightarrow> adds_fresh fresh x w \<Longrightarrow> call x w = Inl e \<Longrightarrow> fails e"
begin

lemma run_ok:
  assumes "inv w" and "run_fresh fresh call xs w" and "timed_run clock call xs w = Inr (nows, w')"
  shows "inv w' \<and> length nows = length xs \<and> sched w' = ref_timers (zip nows xs) (sched w)"
  using assms
proof (induction xs arbitrary: w nows)
  case Nil
  then show ?case by (simp add: ref_timers_def)
next
  case (Cons x xs)
  obtain w1 nows1 where w1: "call x w = Inr w1" "timed_run clock call xs w1 = Inr (nows1, w')" "nows = clock w # nows1"
    using Cons.prems(3) by (auto simp: rbind_eq_Inr)
  then show ?case
    using Cons.IH [OF _ _ w1(2)] call_ok [OF Cons.prems(1) _ w1(1)] Cons.prems(2) by (simp add: ref_timers_def)
qed

lemma run_error:
  assumes "inv w" and "run_fresh fresh call xs w" and "timed_run clock call xs w = Inl e"
  shows "fails e"
  using assms
proof (induction xs arbitrary: w)
  case (Cons x xs)
  show ?case
  proof (cases "call x w")
    case (Inl a)
    then show ?thesis using call_error [OF Cons.prems(1)] Cons.prems(2,3) by simp
  next
    case (Inr w1)
    then show ?thesis
      using Cons.IH [of w1] call_ok [OF Cons.prems(1) _ Inr] Cons.prems(2,3) by (auto simp: rbind_eq_Inl)
  qed
qed simp

end

section \<open>The timer queue as a timer service\<close>

text \<open>Callbacks that add and cancel no timers themselves.\<close>

definition timers_untouched ::
  "(nat \<Rightarrow> ('k, 'z) timer_world_scheme \<Rightarrow> ('k, 'z) timer_world_scheme res) \<Rightarrow> bool" where
  "timers_untouched user \<longleftrightarrow>
     (\<forall>cb w w'. user cb w = Inr w' \<longrightarrow> timer_heap w' = timer_heap w \<and> tqueues w' = tqueues w \<and>
        numCreated w' = numCreated w \<and> loops w' = loops w \<and> w_thread w' = w_thread w)"

definition schedule_inv ::
  "(nat \<Rightarrow> ('k, 'z) timer_world_scheme \<Rightarrow> ('k, 'z) timer_world_scheme res) \<Rightarrow> ptr \<Rightarrow> ('k, 'z) timer_world_scheme \<Rightarrow> bool" where
  "schedule_inv user l w \<longleftrightarrow> timers_untouched user \<and> timer_queue_ok [] l w \<and>
     (\<exists>e. loops w l = Some e \<and> el_threadId e = w_thread w)"

definition unused_timer :: "ptr \<Rightarrow> ('k, 'z) timer_world_scheme \<Rightarrow> bool" where
  "unused_timer p w \<longleftrightarrow> p < UINTPTR_MAX \<and> timer_heap w p = None"

definition schedule_of :: "ptr \<Rightarrow> ('k, 'z) timer_world_scheme \<Rightarrow> schedule" where
  "schedule_of l w =
     (\<lambda>p. case tqueues w l of None \<Rightarrow> None | Some q \<Rightarrow>
        if p \<in> snd ` set (tq_timers q) then timer_heap w p else None, numCreated w)"

lemma schedule_ofE:
  assumes "tqueues w l = Some q"
  shows "schedule_of l w = (\<lambda>p. if p \<in> snd ` set (tq_timers q) then timer_heap w p else None, numCreated w)"
  using assms by (simp add: schedule_of_def)

lemma add_step:
  assumes inv: "schedule_inv user l w" and fresh: "unused_timer p w"
  shows "addTimer K l p cb time interval w = Inr (timerId, w') \<Longrightarrow>
      schedule_inv user l w' \<and> schedule_of l w' = ref_timer now (AddTimer p cb time interval) (schedule_of l w)"
    and "addTimer K l p cb time interval w = Inl err \<Longrightarrow> time_overflow err"
proof -
  let ?w = "Timer_new p cb time interval w"
  obtain e where e: "loops w l = Some e" "el_threadId e = w_thread w" and ok: "timer_queue_ok [] l w"
    using inv by (auto simp: schedule_inv_def)
  obtain q where q: "tqueues w l = Some q" by (rule timer_queue_okE [OF ok])
  have okw: "timer_queue_ok [] l ?w" using fresh by (intro Timer_new_ok [OF ok]) (simp add: unused_timer_def)
  have new: "tqueues ?w = tqueues w" "loops ?w = loops w" "w_thread ?w = w_thread w"
    "numCreated ?w = wrap_int64 (numCreated w + 1)"
    "timer_heap ?w = (timer_heap w)(p \<mapsto> \<lparr>tm_callback = cb, tm_expiration = time, tm_interval = interval,
       tm_repeat = double_positive interval, tm_sequence = wrap_int64 (numCreated w + 1)\<rparr>)"
    by (simp_all add: Timer_new_def Let_def)
  then obtain t where t: "timer_heap ?w p = Some t" "tm_expiration t = time" by simp
  have qw: "tqueues ?w l = Some q" using q new by simp
  have "p \<notin> snd ` set (tq_timers q)" using fresh ok q by (elim timer_queue_okE) (force simp: unused_timer_def)
  then have p: "p < UINTPTR_MAX" "p \<notin> snd ` set (tq_timers q)" "p \<notin> snd ` set []"
    using fresh by (simp_all add: unused_timer_def)
  have run: "addTimer K l p cb time interval w =
      rbind (addTimerInLoop K l p ?w) (\<lambda>w1. rbind (timer_at p w1) (\<lambda>t. Inr (TimerId p (tm_sequence t), w1)))"
    using e new by (simp add: addTimer_def runInLoop_inside)
  note add = addTimerInLoop_ok [OF okw qw t(1) p]
  show "schedule_inv user l w' \<and> schedule_of l w' = ref_timer now (AddTimer p cb time interval) (schedule_of l w)"
    if "addTimer K l p cb time interval w = Inr (timerId, w')"
  proof -
    have a: "addTimerInLoop K l p ?w = Inr w'" using that run by (auto simp: rbind_eq_Inr)
    obtain q' where q': "tqueues w' l = Some q'" "set (tq_timers q') = insert (time, p) (set (tq_timers q))"
      using add(4) [OF a] t(2) by auto
    have "schedule_inv user l w'" using inv add(1,5,6) [OF a] new by (simp add: schedule_inv_def)
    then show ?thesis
      using add(2,3) [OF a] new q' schedule_ofE [OF q] schedule_ofE [OF q'(1)] by (auto simp: fun_eq_iff)
  qed
  show "time_overflow err" if "addTimer K l p cb time interval w = Inl err"
  proof (cases "addTimerInLoop K l p ?w")
    case (Inr w1)
    then show ?thesis using that run add(2) [OF Inr] t(1) by (simp add: timer_at_def)
  next
    case (Inl a)
    then have "time_overflow a"
      using e new t(1) q
      by (auto simp: addTimerInLoop_def assertInLoopThread_def isInLoopThread_def loop_at_def TimerQueue_insert_def
          tq_at_def timer_at_def Let_def dest: resetTimerfd_error split: if_splits)
    then show ?thesis using that run Inl by simp
  qed
qed

lemma cancel_step:
  assumes inv: "schedule_inv user l w"
  shows "\<exists>w'. EventLoop_cancel K l (TimerId p n) w = Inr w' \<and> schedule_inv user l w' \<and>
    schedule_of l w' = ref_timer now (CancelTimer p n) (schedule_of l w)"
proof -
  obtain e where e: "loops w l = Some e" "el_threadId e = w_thread w" and ok: "timer_queue_ok [] l w"
    using inv by (auto simp: schedule_inv_def)
  obtain q where q: "tqueues w l = Some q" by (rule timer_queue_okE [OF ok])
  have run: "EventLoop_cancel K l (TimerId p n) w = cancelInLoop l (TimerId p n) w"
    using e by (simp add: EventLoop_cancel_def TimerQueue_cancel_def runInLoop_inside)
  have active: "(p, n) \<in> set (tq_activeTimers q) \<longleftrightarrow> map_option tm_sequence (fst (schedule_of l w) p) = Some n"
  proof (rule timer_queue_okE [OF ok], goal_cases)
    case (1 q0)
    then show ?case using q 1(4) [of _ p] 1(5) [of p n] schedule_ofE [OF q] by (force simp: image_iff)
  qed
  show ?thesis
  proof (rule cancelInLoop_ok [OF ok q e, of p n], goal_cases)
    case (1 w' tm)
    obtain q' where q': "tqueues w' l = Some q'" "set (tq_timers q') = set (tq_timers q) - {(tm_expiration tm, p)}"
      using 1(6) by auto
    have "schedule_inv user l w'" using inv 1(2,9,10) by (simp add: schedule_inv_def)
    moreover have "r \<in> snd ` set (tq_timers q') \<longleftrightarrow> r \<in> snd ` set (tq_timers q)" if "r \<noteq> p" for r
      using that by (force simp: q'(2))
    moreover have "p \<in> snd ` set (tq_timers q)" using 1(7) by force
    ultimately show ?thesis
      using run 1(1,3-5,8) schedule_ofE [OF q] schedule_ofE [OF q'(1)] by (auto simp: fun_eq_iff)
  next
    case 2
    let ?w = "upd_tq l (\<lambda>q. q\<lparr>tq_cancelingTimers := std_set_insert (p, n) (tq_cancelingTimers q)\<rparr>) w"
    have "schedule_inv user l ?w" using inv 2(4) by (simp add: schedule_inv_def)
    moreover have "schedule_of l ?w = schedule_of l w" using q by (simp add: schedule_of_def fun_eq_iff)
    ultimately show ?thesis using run 2(1,3) active by (cases "schedule_of l w") auto
  next
    case 3
    then show ?thesis using run inv active by (cases "schedule_of l w") auto
  qed
qed

text \<open>The callbacks of the expired timers leave the queue as they found it.\<close>

lemma run_expired_untouched:
  assumes "timers_untouched user" and "rfold (\<lambda>entry. Timer_run user (snd entry)) E w = Inr w'"
  shows "timer_heap w' = timer_heap w \<and> tqueues w' = tqueues w \<and> numCreated w' = numCreated w \<and>
    loops w' = loops w \<and> w_thread w' = w_thread w"
  using assms(2)
proof (induction E arbitrary: w)
  case (Cons x E)
  obtain w1 and t :: timer where "user (tm_callback t) w = Inr w1" "rfold (\<lambda>entry. Timer_run user (snd entry)) E w1 = Inr w'"
    using Cons.prems by (auto simp: Timer_run_def [of user "snd x"] rbind_eq_Inr)
  then show ?case using Cons.IH assms(1) unfolding timers_untouched_def by metis
qed simp

text \<open>What remains of the queue after \<^verbatim>\<open>reset\<close>: the timers that were not due, and the due ones that are re-armed.\<close>

lemma reset_schedule:
  assumes ok: "timer_queue_ok [] l w" and q: "tqueues w l = Some q"
    and E: "set E = {(t, p) \<in> set (tq_timers q). t \<le> now}"
    and q2: "set (tq_timers q2) = {(t, p) \<in> set (tq_timers q). now < t}"
    and w': "timer_heap w' = (\<lambda>p. if p \<in> snd ` set E then Option.bind (timer_heap w p) (reset_timer now [] p) else timer_heap w p)"
      "tqueues w' l = Some q'" "numCreated w' = numCreated w"
    and q': "set (tq_timers q') = set (tq_timers q2) \<union>
      {(tm_expiration t, p) | t p. p \<in> snd ` set E \<and> Option.bind (timer_heap w p) (reset_timer now [] p) = Some t}"
  shows "schedule_of l w' = ref_timer now HandleExpired (schedule_of l w)"
proof -
  have entry: "\<exists>tm. timer_heap w p = Some tm \<and> tm_expiration tm = t" if "(t, p) \<in> set (tq_timers q)" for t p
    using ok q that by (elim timer_queue_okE) (metis option.inject)
  have due: "p \<in> snd ` set E \<longleftrightarrow> p \<in> snd ` set (tq_timers q) \<and> (\<exists>tm. timer_heap w p = Some tm \<and> tm_expiration tm \<le> now)" for p
    unfolding E using entry by (force simp: image_iff)
  have late: "p \<in> snd ` set (tq_timers q2) \<longleftrightarrow> p \<in> snd ` set (tq_timers q) \<and> (\<exists>tm. timer_heap w p = Some tm \<and> now < tm_expiration tm)" for p
    unfolding q2 using entry by (force simp: image_iff)
  have "p \<in> snd ` set (tq_timers q') \<longleftrightarrow> p \<in> snd ` set (tq_timers q2) \<or>
      p \<in> snd ` set E \<and> Option.bind (timer_heap w p) (reset_timer now [] p) \<noteq> None" for p
    unfolding q' by (force simp: image_Un image_iff)
  then show ?thesis
    using schedule_ofE [OF q] schedule_ofE [OF w'(2)] entry
    by (auto simp: fun_eq_iff w'(1,3) due late split: option.splits)
qed

lemma reset_one_rest:
  assumes "rfold (reset_one l now) E w = Inr w'"
  shows "numCreated w' = numCreated w \<and> loops w' = loops w \<and> w_thread w' = w_thread w"
  using assms
proof (induction E arbitrary: w)
  case (Cons x E)
  obtain w1 where w1: "reset_one l now x w = Inr w1" "rfold (reset_one l now) E w1 = Inr w'"
    using Cons.prems by (auto simp: rbind_eq_Inr)
  have "numCreated w1 = numCreated w \<and> loops w1 = loops w \<and> w_thread w1 = w_thread w"
    using w1(1) by (auto simp: reset_one_def rbind_eq_Inr Timer_restart_def TimerQueue_insert_def Timer_delete_def Let_def
        split: if_splits)
  then show ?case using Cons.IH [OF w1(2)] by simp
qed simp

lemma expire_step:
  assumes inv: "schedule_inv user l w" and run: "TimerQueue_handleRead K user l w = Inr w'"
  shows "schedule_inv user l w' \<and> schedule_of l w' = ref_timer (fst (Timestamp_now K w)) HandleExpired (schedule_of l w)"
proof -
  obtain e where e: "loops w l = Some e" "el_threadId e = w_thread w" and ok: "timer_queue_ok [] l w"
    and user: "timers_untouched user"
    using inv by (auto simp: schedule_inv_def)
  show ?thesis
  proof (rule handleReadE [OF ok e, of K user], goal_cases)
    case (1 now q E w2)
    obtain q2 where q2: "tqueues w2 = (tqueues w)(l \<mapsto> q2)" "set (tq_timers q2) = {(t, p) \<in> set (tq_timers q). now < t}"
      "tq_cancelingTimers q2 = []" using 1(7) by blast
    obtain w3 where w3: "rfold (\<lambda>entry. Timer_run user (snd entry)) E w2 = Inr w3"
      and reset: "TimerQueue_reset K l E now (upd_tq l (\<lambda>q. q\<lparr>tq_callingExpiredTimers := False\<rparr>) w3) = Inr w'"
      using run unfolding 1(6) by (elim rbind_InrE)
    note same = run_expired_untouched [OF user w3]
    let ?w4 = "upd_tq l (\<lambda>q. q\<lparr>tq_callingExpiredTimers := False\<rparr>) w3" and ?q4 = "q2\<lparr>tq_callingExpiredTimers := False\<rparr>"
    have q4: "tqueues ?w4 l = Some ?q4" using same q2(1) by simp
    have "timer_queue_ok E l w3" using 1(4) same timer_queue_ok_cong [of w3 w2] by simp
    then have ok4: "timer_queue_ok E l ?w4" by (rule timer_queue_ok_flags(2))
    obtain w5 where w5: "rfold (reset_one l now) E ?w4 = Inr w5" using reset by (auto simp: TimerQueue_reset_def rbind_eq_Inr)
    note r = reset_all_ok [OF ok4 q4 w5]
    then obtain q5 where q5: "tqueues w5 l = Some q5" "set (tq_timers q5) = set (tq_timers q2) \<union>
      {(tm_expiration t, p) | t p. p \<in> snd ` set E \<and> Option.bind (timer_heap w p) (reset_timer now [] p) = Some t}"
      using same 1(5) q2(3) by auto
    have frame: "world_frame w5 w'"
      using reset w5 q5(1) by (cases "tq_timers q5") (auto simp: TimerQueue_reset_def tq_at_def rbind_eq_Inr dest: resetTimerfd_frame)
    note keep = reset_one_rest [OF w5] and fr = timer_frame [OF frame]
    have "timer_heap w' = (\<lambda>p. if p \<in> snd ` set E then Option.bind (timer_heap w p) (reset_timer now [] p) else timer_heap w p)"
      using r same 1(5) q2(3) fr(1) by (auto simp: fun_eq_iff)
    moreover have "tqueues w' l = Some q5" "numCreated w' = numCreated w" using q5(1) fr keep same 1(8) by simp_all
    ultimately have "schedule_of l w' = ref_timer now HandleExpired (schedule_of l w)"
      using reset_schedule [OF ok 1(1,3) q2(2) _ _ _ q5(2)] by blast
    moreover have "schedule_inv user l w'"
      using user e TimerQueue_reset_keeps [OF ok4 reset] fr keep same 1(9,10) by (simp add: schedule_inv_def)
    ultimately show ?thesis using 1(2) by simp
  qed
qed

lemma expire_error:
  assumes inv: "schedule_inv user l w" and run: "TimerQueue_handleRead K user l w = Inl err"
  shows "time_overflow err \<or> (\<exists>cb v. user cb v = Inl err)"
proof -
  have user: "keeps (timer_queue_ok E l) (user cb)" for E cb
    using inv unfolding schedule_inv_def timers_untouched_def keeps_def by (metis timer_queue_ok_cong)
  obtain e where e: "loops w l = Some e" "el_threadId e = w_thread w" and ok: "timer_queue_ok [] l w"
    using inv by (auto simp: schedule_inv_def)
  show ?thesis using timer_handleRead_error [OF user ok e run] .
qed

interpretation timers: timer_service "schedule_inv user l" unused_timer "schedule_of l"
  "\<lambda>w. fst (Timestamp_now K w)" "timer_call K user l" "\<lambda>err. time_overflow err \<or> (\<exists>cb v. user cb v = Inl err)"
  for K :: "'k kernel" and user :: "nat \<Rightarrow> ('k, 'z) timer_world_scheme \<Rightarrow> ('k, 'z) timer_world_scheme res" and l :: ptr
proof unfold_locales
  fix w w' :: "('k, 'z) timer_world_scheme" and x e
  assume inv: "schedule_inv user l w" and fresh: "adds_fresh unused_timer x w"
  show "schedule_inv user l w' \<and> schedule_of l w' = ref_timer (fst (Timestamp_now K w)) x (schedule_of l w)"
    if run: "timer_call K user l x w = Inr w'"
  proof (cases x)
    case (AddTimer p cb time interval)
    then obtain timerId where "addTimer K l p cb time interval w = Inr (timerId, w')"
      using run by (auto simp: rbind_eq_Inr)
    then show ?thesis using add_step(1) [OF inv] fresh AddTimer by simp
  next
    case (CancelTimer p n)
    then show ?thesis using run cancel_step [OF inv, of K p n] by force
  next
    case HandleExpired
    then show ?thesis using run expire_step [OF inv] by simp
  qed
  show "time_overflow e \<or> (\<exists>cb v. user cb v = Inl e)" if "timer_call K user l x w = Inl e"
  proof (cases x)
    case (AddTimer p cb time interval)
    then show ?thesis using that add_step(2) [OF inv] fresh by (auto simp: rbind_eq_Inl)
  next
    case (CancelTimer p n)
    then show ?thesis using that cancel_step [OF inv, of K p n] by force
  next
    case HandleExpired
    then show ?thesis using that expire_error [OF inv] by simp
  qed
qed

section \<open>Properties\<close>



end
