(* ===== verification/Spec2Isabelle.thy ===== *)
theory Spec2Isabelle
  imports EchoServer BlockingEcho Registration Schedule
begin

text \<open>
  mini-muduo: a TCP server library in C++ built on the reactor pattern, and the programs in
  \<^verbatim>\<open>examples/\<close> that use it. This development models the library and the examples and proves the
  properties that make them correct. All paths below are relative to \<^verbatim>\<open>src/\<close>.

  \<^bold>\<open>The program.\<close> An \<^verbatim>\<open>EventLoop\<close> belongs to one thread. It asks its \<^verbatim>\<open>EPollPoller\<close> which fds are
  ready, lets each ready \<^verbatim>\<open>Channel\<close> run its callbacks, then runs the tasks other threads queued; an
  eventfd wakes it when a task arrives. A \<^verbatim>\<open>TimerQueue\<close> turns a timerfd into user timers. An
  \<^verbatim>\<open>Acceptor\<close> accepts sockets and hands them to its \<^verbatim>\<open>TcpServer\<close>, which wraps each into a
  \<^verbatim>\<open>TcpConnection\<close> with two \<^verbatim>\<open>Buffer\<close>s, files it under a name and gives it to the next loop of its
  \<^verbatim>\<open>EventLoopThreadPool\<close>. Connections are shared pointers: one dies when the last map entry, task or
  user copy that holds it goes.

  \<^bold>\<open>How code becomes definitions.\<close> An object of the program is a record with the fields of its class; an
  object others point to lives in a heap, a partial function from addresses, and the access to a dead
  address is the error \<open>UndefinedBehaviour\<close>. The state is one record, \<open>world\<close> (kernel, \<^verbatim>\<open>errno\<close>, log,
  running thread), which theories extend by the heap of their class: \<open>reactor\<close> (channels, pollers),
  \<open>loop_world\<close>, \<open>timer_world\<close>, \<open>conn_world\<close>, \<open>acceptor_world\<close>, \<open>server_world\<close>. A method is a function on that
  state with the result type \<open>error + 'a\<close>: \<open>Abort\<close> (\<^verbatim>\<open>LOG_FATAL\<close>), \<open>AssertFailed\<close>, \<open>LengthError\<close> and
  \<open>UndefinedBehaviour\<close>. A \<^verbatim>\<open>std::function\<close> is a value of a datatype with one constructor per \<^verbatim>\<open>std::bind\<close>
  of the sources, and an interpreter says what it does. The operating system is a parameter \<open>K\<close>, a record
  of system calls; what the manual pages promise of it is stated by predicates such as \<open>epoll_spec\<close>, and
  theory Kernel_Instance shows that one kernel satisfies them all.

  \<^bold>\<open>Theories.\<close>
  \<^item> Muduo_Prelude: errors, sequencing (\<open>rbind\<close>, \<open>rfold\<close>), blocks of a char array, \<^verbatim>\<open>std::set\<close> as a strictly
    sorted list (locale \<open>ordered_set\<close>), \<^verbatim>\<open>std::to_string\<close>, state transformers that keep a view of the state.
  \<^item> Logger (\<^verbatim>\<open>src/base/Logger.cc\<close>): line format, stream, abort after a FATAL line.
  \<^item> Kernel, Kernel_Instance: the system calls, their documented behaviour, and a concrete kernel.
  \<^item> Buffer (\<^verbatim>\<open>src/net/Buffer.cc\<close>): vector and two 64-bit indices. \<open>buffer_ok\<close> is the invariant,
    \<open>Buffer_contents\<close> the abstraction to a byte queue (locale \<open>byte_queue\<close>); refinement over arbitrary runs,
    \<^verbatim>\<open>readFd\<close>, room after \<^verbatim>\<open>ensureWritableBytes\<close>, the only possible failure, and the wrap-around at
    \<^verbatim>\<open>SIZE_MAX\<close>.
  \<^item> Timestamp (\<^verbatim>\<open>src/base/Timestamp.cc\<close>): times in 64 bits, doubles rounded to 53 bits, printing and
    reading back.
  \<^item> Channel, EPollPoller (\<^verbatim>\<open>src/net/Channel.cc\<close>, \<^verbatim>\<open>Poller.cc\<close>, \<^verbatim>\<open>EPollPoller.cc\<close>): dispatch of events;
    \<open>reactor_ok\<close> ties \<^verbatim>\<open>index_\<close>, \<^verbatim>\<open>channels_\<close> and the kernel's interest list together. Every mutator keeps it,
    tells the kernel the new mask and never reaches the fatal branch; \<^verbatim>\<open>poll\<close> reports live channels only.
    Registration states the interface of \<^verbatim>\<open>include/net/Poller.h\<close> as the locale \<open>poller\<close>, interprets it on
    \<^verbatim>\<open>EPollPoller\<close>, and shows that any sequence of mutators and removals leaves in the kernel what a
    reference table of masks says.
  \<^item> EventLoop (\<^verbatim>\<open>src/net/EventLoop.cc\<close>): task queue, wake-up, the loop. LoopThreads cuts the loop into
    atomic steps that interleave with other threads: no wake-up is lost, tasks run once and in order, and
    the uncut \<^verbatim>\<open>doPendingFunctors\<close> is a run of these steps.
  \<^item> TimerQueue (\<^verbatim>\<open>Timer.cc\<close>, \<^verbatim>\<open>TimerQueue.cc\<close>, the timer methods of \<^verbatim>\<open>EventLoop.cc\<close>): timer heap and the
    three ordered sets under the invariant \<open>timer_queue_ok\<close>; expiry, re-arming, cancellation, stale ids.
    Schedule states what a timer service promises as the locale \<open>timer_service\<close>, interprets it on the
    queue, and shows that sequences of additions, cancellations and expiries refine a plain schedule.
  \<^item> Sockets (\<^verbatim>\<open>InetAddress.cc\<close>, \<^verbatim>\<open>SocketsOps.cc\<close>, \<^verbatim>\<open>Socket.cc\<close>): byte order, checked wrappers, options.
  \<^item> TcpConnection (\<^verbatim>\<open>src/net/TcpConnection.cc\<close>): the state machine with its output path. \<open>conn_ok\<close> is the
    invariant every handler keeps; the byte stream is what the kernel accepted followed by the output
    buffer, and it refines the list of bytes sent before the first \<^verbatim>\<open>shutdown\<close>.
  \<^item> Acceptor, EventLoopThread, EventLoopThreadPool (the files of these names): the listening socket;
    owner and loop thread as a step relation with the life time of the published loop; start of the pool
    and the round-robin choice (locale \<open>round_robin\<close>).
  \<^item> TcpServer (\<^verbatim>\<open>src/net/TcpServer.cc\<close>): naming, filing, handing over and removing connections under
    the invariant of the connection map.
  \<^item> Server: the components put together. The interpreters \<open>server_exec\<close> and \<open>server_run\<close> close the loop
    over all callbacks and tasks, \<open>server_release\<close> ends shared ownership, \<open>TcpServer_destroy\<close> is the
    destructor. A readable listening socket gives a registered connection, and a closed connection
    disappears completely.
  \<^item> EchoServer (\<^verbatim>\<open>examples/echo_server.cc\<close>, \<^verbatim>\<open>discard_server.cc\<close>): the programs; the echo server sends or
    holds exactly what it received. BlockingEcho (\<^verbatim>\<open>examples/blocking_echo_server.cc\<close>,
    \<^verbatim>\<open>benchmark_client.cc\<close>, \<^verbatim>\<open>example_basic.cc\<close>): the programs without the reactor, \<^verbatim>\<open>std::stoi\<close> on the
    command line included.

  \<^bold>\<open>Loops and bounds.\<close> No definition uses fuel. \<^verbatim>\<open>EventLoop::loop\<close> and the retrying loops of the
  blocking server may run for ever: they are partial functions whose value \<open>None\<close> means that they do not
  return, and theorems state when they return (the first turn that leaves \<^verbatim>\<open>quit_\<close> set; a measure of the
  client's remaining input that every call decreases). All other loops are structural or have a
  termination proof. Indices are \<^verbatim>\<open>size_t\<close> at 64 bits and wrap; \<open>max_object_size\<close>, \<open>2 ^ 63 - 1\<close>, is
  \<^verbatim>\<open>std::vector<char>::max_size()\<close>. Event masks are 32-bit words. A timestamp outside 64 bits and the
  increment of \<^verbatim>\<open>nextConnId_\<close> at \<^verbatim>\<open>INT_MAX\<close> are errors.

  \<^bold>\<open>What the theorems expose.\<close> Four theorems describe behaviour the code does not mean to have:
  \<^verbatim>\<open>ensureWritableBytes(SIZE_MAX)\<close> returns without room; a \<^verbatim>\<open>quit\<close> before \<^verbatim>\<open>loop\<close> is lost; hence the
  destructor of an \<^verbatim>\<open>EventLoopThread\<close> can wait for ever; and the destructor of a server leaves the channels of
  its established connections registered in their pollers.

  \<^bold>\<open>Not modelled.\<close> \<^verbatim>\<open>include/base/nocopyable.h\<close> restricts what compiles and has no behaviour; the tests and
  the files under \<^verbatim>\<open>build/\<close> are not part of the program. What the benchmark client prints
  is left out, and what the tasks left in the queue of a destroyed \<^verbatim>\<open>EventLoop\<close> hold is not followed. \<^verbatim>\<open>inet_pton\<close>, \<^verbatim>\<open>inet_ntop\<close>, \<^verbatim>\<open>localtime_r\<close> and the addresses that \<^verbatim>\<open>new\<close>
  returns are parameters. Theory Server takes the turns of several loops one after the other; the
  interleaving of a loop with other threads is that of LoopThreads and EventLoopThread, whose steps are
  sequentially consistent, so data races on plain fields (\<^verbatim>\<open>TcpConnection::state_\<close>) are outside the model.
  Exhausted memory (\<^verbatim>\<open>std::bad_alloc\<close>) and exceptions thrown by user callbacks are outside it as well.
\<close>

end
